(* ===== verification/Prelude.thy ===== *)
theory Prelude
  imports Complex_Main "HOL-Library.Word" "HOL-Library.Char_ord" "HOL-Library.List_Lexorder"
    "HOL-Library.AList"
begin

text \<open>
  What the component theories share: the machine types of the C++ sources, the
  result type of fallible code, and facts about lists and maps that several
  components use.

  \<^item> \<^verbatim>\<open>std::string\<close> is a list of 8-bit characters; \<open>NUL\<close> is the character
    \<^verbatim>\<open>'\0'\<close>, and \<open>c_str\<close> is what a \<^verbatim>\<open>char const*\<close> reader sees of a string.
  \<^item> \<^verbatim>\<open>std::uint64_t\<close>, \<^verbatim>\<open>std::int64_t\<close> and \<^verbatim>\<open>std::size_t\<close> are 64-bit words. A signed
    value is read with \<open>sint\<close>, an unsigned one with \<open>unat\<close>, so a conversion
    between the three types leaves the word as it is, as it does in C++.
  \<^item> \<^verbatim>\<open>tl::expected<T, E>\<close> is \<open>'e + 'a\<close>, the error on the left.
\<close>

section \<open>Machine types\<close>

type_synonym u64 = "64 word"
type_synonym i64 = "64 word"

abbreviation NUL :: char where
  "NUL \<equiv> CHR 0x00"

definition c_str :: "string \<Rightarrow> string" where
  "c_str s = takeWhile (\<lambda>c. c \<noteq> NUL) s"

lemma c_str_id [simp]: "NUL \<notin> set s \<Longrightarrow> c_str s = s"
  by (auto simp: c_str_def takeWhile_eq_all_conv)

text \<open>\<^verbatim>\<open>std::to_string\<close> of an unsigned and of a signed integer.\<close>

definition digit_char :: "nat \<Rightarrow> char" where
  "digit_char d = char_of (48 + d)"

fun nat_str :: "nat \<Rightarrow> string" where
  "nat_str n = (if n < 10 then [digit_char n] else nat_str (n div 10) @ [digit_char (n mod 10)])"

declare nat_str.simps [simp del]

definition int_str :: "int \<Rightarrow> string" where
  "int_str i = (if i < 0 then ''-'' @ nat_str (nat (- i)) else nat_str (nat i))"

section \<open>Collections of facts\<close>

named_theorems frame_simps \<open>fields that an operation leaves as they were\<close>
named_theorems inv_intros \<open>operations that keep a component's invariant\<close>

section \<open>Lists\<close>

lemma find_Some_in_set: "List.find P xs = Some x \<Longrightarrow> x \<in> set xs \<and> P x"
  by (auto simp: find_Some_iff)

lemma filter_neq_distinct_remove1:
  "distinct xs \<Longrightarrow> filter (\<lambda>y. y \<noteq> x) xs = remove1 x xs"
  by (induction xs) (auto simp: filter_id_conv)

lemma set_butlast_distinct: "distinct xs \<Longrightarrow> xs \<noteq> [] \<Longrightarrow> set (butlast xs) = set xs - {last xs}"
  by (cases xs rule: rev_cases) auto

lemma takeWhile_remove1_subset:
  "set (takeWhile (\<lambda>x. x \<noteq> key) (remove1 k xs)) \<subseteq> set (takeWhile (\<lambda>x. x \<noteq> key) xs)"
  if "k \<noteq> key"
  using that by (induction xs) auto

lemma takeWhile_butlast_subset:
  "set (takeWhile P (butlast xs)) \<subseteq> set (takeWhile P xs)"
  by (induction xs) auto

lemma takeWhile_neq_last:
  "distinct xs \<Longrightarrow> xs \<noteq> [] \<Longrightarrow> takeWhile (\<lambda>x. x \<noteq> last xs) xs = butlast xs"
  by (cases xs rule: rev_cases) (auto, subst takeWhile_append2, auto)

section \<open>Association lists\<close>

text \<open>
  A \<^verbatim>\<open>std::unordered_map\<close> whose iteration order does not matter is an association list
  with distinct keys, changed with \<open>AList.update\<close> and \<open>AList.delete\<close>.
\<close>

lemma map_of_Some_key: "map_of al k = Some v \<Longrightarrow> k \<in> fst ` set al"
  by (metis domI dom_map_of_conv_image_fst)

lemma alist_delete_keys [simp]: "fst ` set (AList.delete k al) = fst ` set al - {k}"
  by (induction al) (auto simp: AList.delete_eq)

lemma alist_update_keys [simp]: "fst ` set (AList.update k v al) = insert k (fst ` set al)"
  by (induction al) auto

lemma alist_update_length:
  "k \<in> fst ` set al \<Longrightarrow> length (AList.update k v al) = length al"
  by (induction al) auto

lemma alist_delete_notin: "k \<notin> fst ` set al \<Longrightarrow> AList.delete k al = al"
  by (induction al) (auto simp: AList.delete_eq)

lemma alist_delete_length:
  "distinct (map fst al) \<Longrightarrow> k \<in> fst ` set al \<Longrightarrow> Suc (length (AList.delete k al)) = length al"
  by (induction al) (auto simp: alist_delete_notin)

section \<open>Ordered maps\<close>

text \<open>
  A \<^verbatim>\<open>std::map\<close> is the list of its entries in the order of its iterators, keys strictly
  ascending. \<open>omap_emplace\<close> is \<^verbatim>\<open>insert\<close>/\<^verbatim>\<open>emplace\<close> (an existing key is left as it is),
  \<open>omap_set\<close> is \<^verbatim>\<open>m[k] = v\<close>/\<^verbatim>\<open>insert_or_assign\<close>, \<open>omap_erase\<close> is \<^verbatim>\<open>erase(k)\<close>; \<^verbatim>\<open>find\<close> is
  \<open>map_of\<close>.
\<close>

type_synonym ('k, 'v) omap = "('k \<times> 'v) list"

fun omap_set :: "'k::linorder \<Rightarrow> 'v \<Rightarrow> ('k, 'v) omap \<Rightarrow> ('k, 'v) omap" where
  "omap_set k v [] = [(k, v)]"
| "omap_set k v ((k', v') # m) =
     (if k < k' then (k, v) # (k', v') # m
      else if k = k' then (k, v) # m
      else (k', v') # omap_set k v m)"

definition omap_emplace :: "'k::linorder \<Rightarrow> 'v \<Rightarrow> ('k, 'v) omap \<Rightarrow> ('k, 'v) omap" where
  "omap_emplace k v m = (case map_of m k of Some _ \<Rightarrow> m | None \<Rightarrow> omap_set k v m)"

definition omap_erase :: "'k \<Rightarrow> ('k, 'v) omap \<Rightarrow> ('k, 'v) omap" where
  "omap_erase k m = filter (\<lambda>e. fst e \<noteq> k) m"

definition omap_ok :: "('k::linorder, 'v) omap \<Rightarrow> bool" where
  "omap_ok m \<longleftrightarrow> sorted_wrt (<) (map fst m)"

lemma omap_ok_Nil [simp]: "omap_ok []"
  by (simp add: omap_ok_def)

lemma omap_set_keys: "fst ` set (omap_set k v m) = insert k (fst ` set m)"
  by (induction k v m rule: omap_set.induct) auto

lemma omap_ok_set [simp]: "omap_ok m \<Longrightarrow> omap_ok (omap_set k v m)"
proof (induction k v m rule: omap_set.induct)
  case (2 k v k' v' m)
  then show ?case using omap_set_keys [of k v m] by (auto simp: omap_ok_def)
qed (simp add: omap_ok_def)

lemma omap_ok_emplace [simp]: "omap_ok m \<Longrightarrow> omap_ok (omap_emplace k v m)"
  by (simp add: omap_emplace_def split: option.splits)

lemma omap_ok_erase [simp]: "omap_ok m \<Longrightarrow> omap_ok (omap_erase k m)"
  by (induction m) (auto simp: omap_ok_def omap_erase_def)

lemma map_of_sorted_below: "omap_ok ((k', v') # m) \<Longrightarrow> k < k' \<Longrightarrow> map_of m k = None"
  by (auto simp: omap_ok_def map_of_eq_None_iff)

lemma map_of_omap_set [simp]: "omap_ok m \<Longrightarrow> map_of (omap_set k v m) = (map_of m)(k \<mapsto> v)"
proof (induction k v m rule: omap_set.induct)
  case (2 k v k' v' m)
  then show ?case by (auto simp: omap_ok_def)
qed simp

lemma map_of_omap_emplace [simp]:
  "omap_ok m \<Longrightarrow> map_of (omap_emplace k v m) =
     (if k \<in> dom (map_of m) then map_of m else (map_of m)(k \<mapsto> v))"
  by (auto simp: omap_emplace_def split: option.splits)

lemma map_of_omap_erase [simp]: "map_of (omap_erase k m) = (map_of m)(k := None)"
  by (induction m) (auto simp: omap_erase_def)

lemma omap_ok_distinct: "omap_ok m \<Longrightarrow> distinct (map fst m)"
  by (simp add: omap_ok_def strict_sorted_iff)

lemma map_of_rebuild:
  "distinct (map fst m) \<Longrightarrow> map (\<lambda>k. (k, the (map_of m k))) (map fst m) = m"
  by (auto simp: comp_def intro!: map_idI)

lemma omap_eqI:
  assumes "omap_ok m" "omap_ok m'" "map_of m = map_of m'"
  shows "m = m'"
proof -
  have sets: "set (map fst m') = set (map fst m)"
    using assms(3) dom_map_of_conv_image_fst [of m] dom_map_of_conv_image_fst [of m'] by simp
  have keys: "map fst m' = map fst m"
    using assms(1,2) sets unfolding omap_ok_def by (rule strict_sorted_equal)
  have "m = map (\<lambda>k. (k, the (map_of m k))) (map fst m)"
    using map_of_rebuild [OF omap_ok_distinct [OF assms(1)]] by (rule sym)
  also have "\<dots> = map (\<lambda>k. (k, the (map_of m' k))) (map fst m')"
    by (simp only: keys assms(3))
  also have "\<dots> = m'"
    by (rule map_of_rebuild [OF omap_ok_distinct [OF assms(2)]])
  finally show ?thesis .
qed

lemma fold_emplace_ok: "omap_ok m \<Longrightarrow> omap_ok (fold (\<lambda>(k, v). omap_emplace k v) vals m)"
  by (induction vals arbitrary: m) auto

lemma map_of_fold_emplace:
  "omap_ok m \<Longrightarrow> map_of (fold (\<lambda>(k, v). omap_emplace k v) vals m) = map_of vals ++ map_of m"
proof (induction vals arbitrary: m)
  case (Cons e vals)
  obtain k v where e: "e = (k, v)" by force
  have "map_of vals ++ (if k \<in> dom (map_of m) then map_of m else (map_of m)(k \<mapsto> v))
      = map_of (e # vals) ++ map_of m"
    by (auto simp: e map_add_def fun_eq_iff split: option.splits)
  then show ?case
    using Cons.prems by (simp add: e Cons.IH fun_upd_def)
qed simp

lemma omap_ok_map: "omap_ok m \<Longrightarrow> omap_ok (map (\<lambda>(k, v). (k, f k v)) m)"
  by (simp add: omap_ok_def case_prod_unfold comp_def)

lemma fold_emplace_sorted:
  assumes "omap_ok m"
  shows "fold (\<lambda>(k, v). omap_emplace k (f k v)) m [] = map (\<lambda>(k, v). (k, f k v)) m"
proof -
  have "fold (\<lambda>(k, v). omap_emplace k (f k v)) m [] =
      fold (\<lambda>(k, v). omap_emplace k v) (map (\<lambda>(k, v). (k, f k v)) m) []"
    by (simp add: fold_map comp_def case_prod_unfold)
  then show ?thesis
    using assms by (auto intro!: omap_eqI simp: fold_emplace_ok omap_ok_map map_of_fold_emplace)
qed

text \<open>
  What a client needs of either kind of map: an assignment is seen by the lookup, so a
  loop of assignments leaves the last value written for each key.
\<close>

locale keyed_map =
  fixes ok :: "'m \<Rightarrow> bool" and look :: "'m \<Rightarrow> 'k \<Rightarrow> 'v option" and assign :: "'k \<Rightarrow> 'v \<Rightarrow> 'm \<Rightarrow> 'm"
  assumes ok_assign: "ok m \<Longrightarrow> ok (assign k v m)"
    and look_assign: "ok m \<Longrightarrow> look (assign k v m) = (look m)(k \<mapsto> v)"
begin

lemma ok_assign_all: "ok m \<Longrightarrow> ok (fold (\<lambda>(k, v). assign k v) kvs m)"
  by (induction kvs arbitrary: m) (auto simp: ok_assign)

lemma look_assign_all:
  "ok m \<Longrightarrow> look (fold (\<lambda>(k, v). assign k v) kvs m) = look m ++ map_of (rev kvs)"
  by (induction kvs arbitrary: m)
    (auto simp: ok_assign look_assign map_add_def fun_eq_iff split: option.splits)

end

interpretation omap: keyed_map omap_ok map_of omap_set
  by unfold_locales simp_all

lemma map_of_rev_distinct: "distinct (map fst m) \<Longrightarrow> map_of (rev m) = map_of m"
proof (rule ext)
  fix k
  assume d: "distinct (map fst m)"
  then have d': "distinct (map fst (rev m))" by (simp add: rev_map [symmetric])
  show "map_of (rev m) k = map_of m k"
    using map_of_eq_Some_iff [OF d, of k] map_of_eq_Some_iff [OF d', of k]
    by (metis not_None_eq set_rev)
qed

lemma fold_set_sorted:
  assumes "omap_ok m"
  shows "fold (\<lambda>(k, v). omap_set k (f k v)) m [] = map (\<lambda>(k, v). (k, f k v)) m"
proof -
  let ?m = "map (\<lambda>(k, v). (k, f k v)) m"
  have ok: "omap_ok ?m" using assms by (rule omap_ok_map)
  have "fold (\<lambda>(k, v). omap_set k (f k v)) m [] = fold (\<lambda>(k, v). omap_set k v) ?m []"
    by (simp add: fold_map comp_def case_prod_unfold)
  also have "\<dots> = ?m"
  proof (rule omap_eqI)
    have "map_of (rev ?m) = map_of ?m"
      using omap_ok_distinct [OF ok] by (intro map_of_rev_distinct)
    then show "map_of (fold (\<lambda>(k, v). omap_set k v) ?m []) = map_of ?m"
      by (simp add: omap.look_assign_all)
  qed (simp_all add: ok omap.ok_assign_all)
  finally show ?thesis .
qed

section \<open>Unordered maps\<close>

interpretation umap: keyed_map "\<lambda>m. distinct (map fst m)" map_of AList.update
  by unfold_locales (simp_all add: distinct_update update_conv')

text \<open>\<^verbatim>\<open>emplace\<close> of an unordered map leaves an existing key as it is.\<close>

definition umap_emplace :: "'k \<Rightarrow> 'v \<Rightarrow> ('k \<times> 'v) list \<Rightarrow> ('k \<times> 'v) list" where
  "umap_emplace k v m = (case map_of m k of Some _ \<Rightarrow> m | None \<Rightarrow> (k, v) # m)"

lemma map_of_umap_emplace:
  "map_of (umap_emplace k v m) = (if k \<in> dom (map_of m) then map_of m else (map_of m)(k \<mapsto> v))"
  by (auto simp: umap_emplace_def split: option.splits)

lemma distinct_umap_emplace [simp]:
  "distinct (map fst m) \<Longrightarrow> distinct (map fst (umap_emplace k v m))"
  by (auto simp: umap_emplace_def map_of_eq_None_iff split: option.splits)

lemma distinct_fold_umap_emplace:
  "distinct (map fst m) \<Longrightarrow> distinct (map fst (fold (\<lambda>(k, v). umap_emplace k v) kvs m))"
  by (induction kvs arbitrary: m) auto

lemma map_of_fold_umap_emplace:
  "map_of (fold (\<lambda>(k, v). umap_emplace k v) kvs m) = map_of kvs ++ map_of m"
proof (induction kvs arbitrary: m)
  case (Cons e kvs)
  obtain k v where e: "e = (k, v)" by force
  have "map_of kvs ++ (if k \<in> dom (map_of m) then map_of m else (map_of m)(k \<mapsto> v))
      = map_of (e # kvs) ++ map_of m"
    by (auto simp: e map_add_def fun_eq_iff split: option.splits)
  then show ?case
    by (simp add: e Cons.IH map_of_umap_emplace fun_upd_def)
qed simp

lemma map_of_emplaced:
  "map_of (fold (\<lambda>(k, x). umap_emplace k (f k x)) kxs []) k = map_option (f k) (map_of kxs k)"
proof -
  have "fold (\<lambda>(k, x). umap_emplace k (f k x)) kxs m =
      fold (\<lambda>(k, v). umap_emplace k v) (map (\<lambda>(k, x). (k, f k x)) kxs) m" for m
    by (induction kxs arbitrary: m) auto
  moreover have "map_of (map (\<lambda>(k, x). (k, f k x)) kxs) k = map_option (f k) (map_of kxs k)"
    by (induction kxs) auto
  ultimately show ?thesis by (simp only: map_of_fold_umap_emplace) simp
qed

text \<open>The entries of a map that a partial function is defined on, with its results.\<close>

definition map_choose :: "('a \<Rightarrow> 'b option) \<Rightarrow> ('k \<times> 'a) list \<Rightarrow> ('k \<times> 'b) list" where
  "map_choose g m = concat (map (\<lambda>(k, x). case g x of Some y \<Rightarrow> [(k, y)] | None \<Rightarrow> []) m)"

lemma map_choose_simps [simp]:
  "map_choose g [] = []"
  "map_choose g ((k, x) # m) = (case g x of Some y \<Rightarrow> (k, y) # map_choose g m | None \<Rightarrow> map_choose g m)"
  by (simp_all add: map_choose_def split: option.split)

lemma map_choose_mem:
  assumes "(k, y) \<in> set (map_choose g m)"
  shows "\<exists>x. (k, x) \<in> set m \<and> g x = Some y"
proof -
  obtain k' x where "(k', x) \<in> set m" "(k, y) \<in> set (case g x of Some y \<Rightarrow> [(k', y)] | None \<Rightarrow> [])"
    using assms by (auto simp: map_choose_def)
  then show ?thesis by (cases "g x") auto
qed

lemma map_choose_keys: "fst ` set (map_choose g m) \<subseteq> fst ` set m"
  by (force dest: map_choose_mem)

lemma map_of_choose: "distinct (map fst m) \<Longrightarrow> map_of (map_choose g m) k = Option.bind (map_of m k) g"
proof (induction m)
  case (Cons p m)
  obtain k' x where p: "p = (k', x)" by (cases p)
  have "map_of (map_choose g m) k' = None"
    using Cons.prems map_choose_keys [of g m] by (auto simp: p map_of_eq_None_iff)
  then show ?case using Cons by (auto simp: p split: option.split)
qed simp

section \<open>Separators\<close>

lemma append_separator_eq:
  assumes "c \<notin> set a" "c \<notin> set b" "a @ c # x = b @ c # y"
  shows "a = b \<and> x = y"
  using assms by (auto simp: append_eq_append_conv2 Cons_eq_append_conv append_eq_Cons_conv)

section \<open>Components of bounded size\<close>

text \<open>
  A component whose operations keep an invariant, and whose invariant bounds its size:
  no sequence of operations takes it above the bound.
\<close>

locale bounded_component =
  fixes inv :: "'s \<Rightarrow> bool"
    and size_of :: "'s \<Rightarrow> nat"
    and bound :: "'s \<Rightarrow> nat"
    and perform :: "'op \<Rightarrow> 's \<Rightarrow> 's"
  assumes inv_perform: "inv s \<Longrightarrow> inv (perform op s)"
    and bound_perform: "bound (perform op s) = bound s"
    and inv_size: "inv s \<Longrightarrow> size_of s \<le> bound s"
begin

lemma inv_run: "inv s \<Longrightarrow> inv (fold perform ops s)"
  by (induction ops arbitrary: s) (auto simp: inv_perform)

lemma bound_run: "bound (fold perform ops s) = bound s"
  by (induction ops arbitrary: s) (auto simp: bound_perform)

lemma size_run: "inv s \<Longrightarrow> size_of (fold perform ops s) \<le> bound s"
  using inv_size [OF inv_run] bound_run by metis

end

end
