(* ===== verification/Data_Source_Status.thy ===== *)
theory Data_Source_Status
  imports Prelude
begin

text \<open>
  The status of a data source and its manager,
  \<^verbatim>\<open>libs/internal/include/launchdarkly/data_sources/data_source_status_manager_base.hpp\<close>, with
  the states of both sides. The mutex makes each operation one step. What the signal
  announces is kept in order; the clock is an argument.
\<close>

section \<open>The manager\<close>

text \<open>
  \<open>dsOff\<close> is \<^verbatim>\<open>kOff\<close> of the server side and \<^verbatim>\<open>kShutdown\<close> of the client side, which alone has
  \<^verbatim>\<open>kSetOffline\<close>.
\<close>

datatype DataSourceState = dsInitializing | dsValid | dsInterrupted | dsOff | dsSetOffline

datatype DataSourceStatusErrorKind =
  ekUnknown | ekNetworkError | ekErrorResponse | ekInvalidData | ekStoreError

record ErrorInfo =
  ei_kind :: DataSourceStatusErrorKind
  ei_status_code :: u64
  ei_message :: string
  ei_time :: int

record DataSourceStatus =
  ds_state :: DataSourceState
  ds_since :: int
  ds_last_error :: "ErrorInfo option"

record StatusManager =
  sm_state :: DataSourceState
  sm_since :: int
  sm_last_error :: "ErrorInfo option"
  announced :: "DataSourceStatus list"

definition StatusManager_new :: "int \<Rightarrow> StatusManager" where
  "StatusManager_new now = \<lparr>sm_state = dsInitializing, sm_since = now, sm_last_error = None, announced = []\<rparr>"

definition Status :: "StatusManager \<Rightarrow> DataSourceStatus" where
  "Status m = \<lparr>ds_state = sm_state m, ds_since = sm_since m, ds_last_error = sm_last_error m\<rparr>"

definition announce :: "StatusManager \<Rightarrow> StatusManager" where
  "announce m = m\<lparr>announced := announced m @ [Status m]\<rparr>"

definition UpdateState :: "int \<Rightarrow> DataSourceState \<Rightarrow> StatusManager \<Rightarrow> bool \<times> StatusManager" where
  "UpdateState now requested_state m =
     (let new_state =
        (if requested_state = dsInterrupted \<and> sm_state m = dsInitializing then dsInitializing else requested_state);
          changed = (sm_state m \<noteq> new_state)
      in (changed, if changed then m\<lparr>sm_state := new_state, sm_since := now\<rparr> else m))"

definition SetState :: "int \<Rightarrow> DataSourceState \<Rightarrow> StatusManager \<Rightarrow> StatusManager" where
  "SetState now state m =
     (let (changed, m) = UpdateState now state m in if changed then announce m else m)"

definition SetState_code :: "int \<Rightarrow> DataSourceState \<Rightarrow> u64 \<Rightarrow> string \<Rightarrow> StatusManager \<Rightarrow> StatusManager" where
  "SetState_code now state code message m =
     announce ((snd (UpdateState now state m))
       \<lparr>sm_last_error := Some \<lparr>ei_kind = ekErrorResponse, ei_status_code = code, ei_message = message, ei_time = now\<rparr>\<rparr>)"

definition SetState_kind ::
  "int \<Rightarrow> DataSourceState \<Rightarrow> DataSourceStatusErrorKind \<Rightarrow> string \<Rightarrow> StatusManager \<Rightarrow> StatusManager" where
  "SetState_kind now state kind message m =
     announce ((snd (UpdateState now state m))
       \<lparr>sm_last_error := Some \<lparr>ei_kind = kind, ei_status_code = 0, ei_message = message, ei_time = now\<rparr>\<rparr>)"

definition SetError_kind :: "int \<Rightarrow> DataSourceStatusErrorKind \<Rightarrow> string \<Rightarrow> StatusManager \<Rightarrow> StatusManager" where
  "SetError_kind now kind message m =
     announce (m\<lparr>sm_last_error := Some \<lparr>ei_kind = kind, ei_status_code = 0, ei_message = message, ei_time = now\<rparr>,
       sm_since := now\<rparr>)"

definition SetError_code :: "int \<Rightarrow> u64 \<Rightarrow> string \<Rightarrow> StatusManager \<Rightarrow> StatusManager" where
  "SetError_code now code message m =
     announce (m\<lparr>sm_last_error := Some \<lparr>ei_kind = ekErrorResponse, ei_status_code = code, ei_message = message, ei_time = now\<rparr>,
       sm_since := now\<rparr>)"

datatype StatusOp =
    OpSetState int DataSourceState
  | OpSetStateCode int DataSourceState u64 string
  | OpSetStateKind int DataSourceState DataSourceStatusErrorKind string
  | OpSetErrorKind int DataSourceStatusErrorKind string
  | OpSetErrorCode int u64 string

fun status_perform :: "StatusOp \<Rightarrow> StatusManager \<Rightarrow> StatusManager" where
  "status_perform (OpSetState now s) m = SetState now s m"
| "status_perform (OpSetStateCode now s code message) m = SetState_code now s code message m"
| "status_perform (OpSetStateKind now s kind message) m = SetState_kind now s kind message m"
| "status_perform (OpSetErrorKind now kind message) m = SetError_kind now kind message m"
| "status_perform (OpSetErrorCode now code message) m = SetError_code now code message m"

section \<open>Listeners\<close>

text \<open>The state that an operation asks for, and the state a listener would take from what it has heard.\<close>

fun requested :: "StatusOp \<Rightarrow> DataSourceState option" where
  "requested (OpSetState _ s) = Some s"
| "requested (OpSetStateCode _ s _ _) = Some s"
| "requested (OpSetStateKind _ s _ _) = Some s"
| "requested _ = None"

definition heard :: "StatusManager \<Rightarrow> DataSourceStatus \<Rightarrow> DataSourceStatus" where
  "heard m initial = last (initial # announced m)"

lemma announce_fields [simp]:
  "sm_state (announce m) = sm_state m" "announced (announce m) = announced m @ [Status m]"
  "Status (announce m) = Status m" "heard (announce m) initial = Status m"
  by (simp_all add: announce_def Status_def heard_def)

lemma UpdateState_state:
  "sm_state (snd (UpdateState now s m)) =
     (if s = dsInterrupted \<and> sm_state m = dsInitializing then dsInitializing else s)"
  "fst (UpdateState now s m) \<longleftrightarrow> sm_state (snd (UpdateState now s m)) \<noteq> sm_state m"
  "\<not> fst (UpdateState now s m) \<Longrightarrow> snd (UpdateState now s m) = m"
  "announced (snd (UpdateState now s m)) = announced m"
  by (auto simp: UpdateState_def Let_def)

lemma SetState_cases:
  "SetState now s m = (if sm_state (snd (UpdateState now s m)) \<noteq> sm_state m
     then announce (snd (UpdateState now s m)) else m)"
  using UpdateState_state(2,3) [of now s m] by (simp add: SetState_def case_prod_unfold)

lemma perform_state:
  "sm_state (status_perform op m) =
     (case requested op of
        Some s \<Rightarrow> if s = dsInterrupted \<and> sm_state m = dsInitializing then dsInitializing else s
      | None \<Rightarrow> sm_state m)"
  by (cases op) (auto simp: SetState_cases SetState_code_def SetState_kind_def SetError_kind_def SetError_code_def
      UpdateState_state)

lemma perform_heard:
  "heard m initial = Status m \<Longrightarrow> heard (status_perform op m) initial = Status (status_perform op m)"
  by (cases op) (simp_all add: SetState_cases SetState_code_def SetState_kind_def SetError_kind_def SetError_code_def)

section \<open>Properties\<close>

text \<open>
  Whoever listens knows the status: after any operations, what was announced last is
  the current status, its error and time included. And a data source that was never asked
  to be valid or off is still initializing, however often it was interrupted.
\<close>

theorem status_announced:
  assumes "m = fold status_perform ops (StatusManager_new now)"
  shows "last (Status (StatusManager_new now) # announced m) = Status m \<and>
    (set (map requested ops) \<subseteq> {None, Some dsInterrupted, Some dsInitializing} \<longrightarrow> sm_state m = dsInitializing)"
proof -
  let ?new = "StatusManager_new now"
  have "heard (fold status_perform ops m0) i = Status (fold status_perform ops m0)" if "heard m0 i = Status m0" for m0 i
    using that by (induction ops arbitrary: m0) (simp_all add: perform_heard)
  from this [of ?new "Status ?new"] have "heard m (Status ?new) = Status m"
    using assms by (simp add: heard_def StatusManager_new_def)
  moreover have "sm_state (fold status_perform ops m0) = dsInitializing"
    if "sm_state m0 = dsInitializing" "set (map requested ops) \<subseteq> {None, Some dsInterrupted, Some dsInitializing}" for m0
    using that by (induction ops arbitrary: m0) (auto simp: perform_state split: option.splits)
  ultimately show ?thesis using assms by (auto simp: heard_def StatusManager_new_def)
qed

theorem status_announced_witness:
  "\<exists>m. m = fold status_perform [OpSetStateKind 1 dsInterrupted ekNetworkError ''down'', OpSetErrorCode 2 503 ''busy''] (StatusManager_new 0) \<and>
     sm_state m = dsInitializing \<and> last (announced m) = Status m"
  using status_announced [OF refl, of 0 "[OpSetStateKind 1 dsInterrupted ekNetworkError ''down'', OpSetErrorCode 2 503 ''busy'']"]
  by (simp add: SetState_kind_def SetError_code_def)

end
