(* ===== verification/Doubles.thy ===== *)
theory Doubles
  imports Prelude "HOL-Library.Log_Nat"
begin

text \<open>
  The \<^verbatim>\<open>double\<close> of C++ on the platforms the SDK supports: IEEE 754 binary64 with
  rounding to nearest, ties to even. A finite double is its rational value (the two
  zeros are one value, which no operation used by the sources can tell apart); the
  arithmetic the sources use is the exact operation followed by the rounding. The
  lemmas give what the components use of rounding: it is monotone and keeps the
  representable numbers, as the locale \<open>rounding\<close> states.
\<close>

section \<open>Rounding\<close>

definition round_half_even :: "rat \<Rightarrow> int" where
  "round_half_even x =
     (let f = \<lfloor>x\<rfloor>; d = x - of_int f in
      if d < 1/2 then f else if 1/2 < d then f + 1 else if even f then f else f + 1)"

text \<open>The binary exponent of a positive rational: \<open>2 powi e \<le> x < 2 powi (e + 1)\<close>.\<close>

definition binary_exponent :: "rat \<Rightarrow> int" where
  "binary_exponent x =
     (let (n, d) = quotient_of x; e = bitlen n - bitlen d in
      if 2 powi e \<le> x then e else e - 1)"

definition ulp_exponent :: "rat \<Rightarrow> int" where
  "ulp_exponent x = max (binary_exponent x - 52) (- 1074)"

definition round_pos :: "rat \<Rightarrow> rat" where
  "round_pos x = of_int (round_half_even (x / 2 powi ulp_exponent x)) * 2 powi ulp_exponent x"

definition round_f64 :: "rat \<Rightarrow> rat" where
  "round_f64 x = (if x = 0 then 0 else if 0 < x then round_pos x else - round_pos (- x))"

section \<open>Doubles\<close>

datatype double = Fin rat | PInf | NInf | NaN

text \<open>The double nearest to a rational: an infinity from \<open>2 ^ 1024\<close> on.\<close>

definition to_double :: "rat \<Rightarrow> double" where
  "to_double x =
     (let r = round_f64 x in
      if 2 powi 1024 \<le> r then PInf else if r \<le> - (2 powi 1024) then NInf else Fin r)"

definition of_u64 :: "u64 \<Rightarrow> double" where
  "of_u64 w = to_double (of_int (uint w))"

fun double_less :: "double \<Rightarrow> double \<Rightarrow> bool" where
  "double_less NaN b \<longleftrightarrow> False"
| "double_less a NaN \<longleftrightarrow> False"
| "double_less (Fin a) (Fin b) \<longleftrightarrow> a < b"
| "double_less (Fin a) PInf \<longleftrightarrow> True"
| "double_less NInf (Fin b) \<longleftrightarrow> True"
| "double_less NInf PInf \<longleftrightarrow> True"
| "double_less a b \<longleftrightarrow> False"

definition double_eq :: "double \<Rightarrow> double \<Rightarrow> bool" where
  "double_eq a b \<longleftrightarrow> a \<noteq> NaN \<and> a = b"

fun double_add :: "double \<Rightarrow> double \<Rightarrow> double" where
  "double_add (Fin a) (Fin b) = to_double (a + b)"
| "double_add NaN b = NaN"
| "double_add a NaN = NaN"
| "double_add PInf NInf = NaN"
| "double_add NInf PInf = NaN"
| "double_add PInf b = PInf"
| "double_add NInf b = NInf"
| "double_add a PInf = PInf"
| "double_add a NInf = NInf"

text \<open>Division by a positive finite double, the only division the sources do.\<close>

fun double_div :: "double \<Rightarrow> rat \<Rightarrow> double" where
  "double_div (Fin a) b = to_double (a / b)"
| "double_div PInf b = PInf"
| "double_div NInf b = NInf"
| "double_div NaN b = NaN"

text \<open>\<^verbatim>\<open>std::trunc\<close>.\<close>

definition rat_trunc :: "rat \<Rightarrow> int" where
  "rat_trunc x = (if 0 \<le> x then \<lfloor>x\<rfloor> else \<lceil>x\<rceil>)"

fun double_trunc :: "double \<Rightarrow> double" where
  "double_trunc (Fin a) = Fin (of_int (rat_trunc a))"
| "double_trunc a = a"

section \<open>Monotonicity\<close>

lemma round_half_even_bounds: "\<lfloor>x\<rfloor> \<le> round_half_even x" "round_half_even x \<le> \<lfloor>x\<rfloor> + 1"
  by (simp_all add: round_half_even_def Let_def)

lemma round_half_even_of_int [simp]: "round_half_even (of_int i) = i"
  by (simp add: round_half_even_def)

lemma round_half_even_mono:
  assumes "x \<le> y"
  shows "round_half_even x \<le> round_half_even y"
proof (cases "\<lfloor>x\<rfloor> = \<lfloor>y\<rfloor>")
  case True
  then show ?thesis using assms by (auto simp: round_half_even_def Let_def)
next
  case False
  then have "\<lfloor>x\<rfloor> + 1 \<le> \<lfloor>y\<rfloor>" using floor_mono [OF assms] by linarith
  then show ?thesis using round_half_even_bounds [of x] round_half_even_bounds [of y] by linarith
qed

lemma bitlen_powi_bounds:
  assumes "0 < n"
  shows "2 powi (bitlen n - 1) \<le> (of_int n :: rat)" "(of_int n :: rat) < 2 powi bitlen n"
proof -
  have pos: "1 \<le> bitlen n" using assms bitlen_ge_iff_power [of 1 n] by simp
  have "2 ^ nat (bitlen n - 1) \<le> n" "n < 2 ^ nat (bitlen n)"
    using bitlen_bounds [OF assms] by auto
  then have "(of_int (2 ^ nat (bitlen n - 1)) :: rat) \<le> of_int n"
    and "(of_int n :: rat) < of_int (2 ^ nat (bitlen n))"
    by (simp_all only: of_int_le_iff of_int_less_iff)
  then show "2 powi (bitlen n - 1) \<le> (of_int n :: rat)" "(of_int n :: rat) < 2 powi bitlen n"
    using pos by (simp_all add: power_int_def)
qed

lemma binary_exponent_bounds:
  assumes "0 < x"
  shows "2 powi binary_exponent x \<le> x" "x < 2 powi (binary_exponent x + 1)"
proof -
  obtain n d where q: "quotient_of x = (n, d)" by force
  then have d: "0 < d" and x: "x = of_int n / of_int d"
    using quotient_of_denom_pos quotient_of_div by blast+
  then have n: "0 < n" using assms by (simp add: zero_less_divide_iff)
  define e where "e = bitlen n - bitlen d"
  have up: "x < 2 powi (e + 1)"
  proof -
    have "of_int n < (2 powi (e + 1)) * (2 powi (bitlen d - 1) :: rat)"
      using bitlen_powi_bounds(2) [OF n] by (simp flip: power_int_add add: e_def)
    also have "\<dots> \<le> 2 powi (e + 1) * of_int d"
      using bitlen_powi_bounds(1) [OF d] by (intro mult_left_mono) auto
    finally show ?thesis using d by (simp add: x pos_divide_less_eq)
  qed
  have lo: "2 powi (e - 1) \<le> x"
  proof -
    have "2 powi (e - 1) * of_int d \<le> 2 powi (e - 1) * (2 powi bitlen d :: rat)"
      using bitlen_powi_bounds(2) [OF d] by (intro mult_left_mono) auto
    also have "\<dots> = 2 powi (bitlen n - 1)"
      by (simp flip: power_int_add add: e_def)
    also have "\<dots> \<le> of_int n" using bitlen_powi_bounds(1) [OF n] .
    finally show ?thesis using d by (simp add: x pos_le_divide_eq)
  qed
  show "2 powi binary_exponent x \<le> x" "x < 2 powi (binary_exponent x + 1)"
    using up lo by (auto simp: binary_exponent_def q Let_def e_def)
qed

lemma binary_exponent_mono:
  assumes "0 < x" and "x \<le> y"
  shows "binary_exponent x \<le> binary_exponent y"
proof (rule ccontr)
  assume "\<not> ?thesis"
  then have "(2 :: rat) powi (binary_exponent y + 1) \<le> 2 powi binary_exponent x"
    by (intro power_int_increasing) auto
  then show False
    using binary_exponent_bounds [of x] binary_exponent_bounds [of y] assms by linarith
qed

lemma binary_exponent_eqI:
  assumes "2 powi e \<le> x" and "x < 2 powi (e + 1)"
  shows "binary_exponent x = e"
proof -
  have x: "0 < x" using assms(1) zero_less_power_int [of "2 :: rat" e] by linarith
  have le: "a \<le> b" if "2 powi a \<le> x" "x < 2 powi (b + 1)" for a b
  proof (rule ccontr)
    assume "\<not> a \<le> b"
    then have "(2 :: rat) powi (b + 1) \<le> 2 powi a" by (intro power_int_increasing) auto
    with that show False by linarith
  qed
  show ?thesis
    using le [OF assms(1) binary_exponent_bounds(2) [OF x]]
      le [OF binary_exponent_bounds(1) [OF x] assms(2)] by simp
qed

text \<open>
  Rounding on the grid of multiples of \<open>2 powi E\<close>: monotone, and the identity on the
  powers of two that lie on the grid.
\<close>

definition round_grid :: "int \<Rightarrow> rat \<Rightarrow> rat" where
  "round_grid E x = of_int (round_half_even (x / 2 powi E)) * 2 powi E"

lemma round_pos_grid: "round_pos x = round_grid (ulp_exponent x) x"
  by (simp add: round_pos_def round_grid_def)

lemma round_grid_mono: "x \<le> y \<Longrightarrow> round_grid E x \<le> round_grid E y"
  unfolding round_grid_def
  by (intro mult_right_mono) (auto intro!: round_half_even_mono divide_right_mono)

lemma round_grid_of_int: "round_grid E (of_int i * 2 powi E) = of_int i * 2 powi E"
  by (simp add: round_grid_def)

lemma round_grid_power:
  assumes "E \<le> e"
  shows "round_grid E (2 powi e) = 2 powi e"
proof -
  have "(2 :: rat) powi e = of_int (2 ^ nat (e - E)) * 2 powi E"
  proof -
    have "(2 :: rat) powi e = 2 powi (e - E) * 2 powi E"
      by (simp flip: power_int_add)
    also have "(2 :: rat) powi (e - E) = 2 ^ nat (e - E)"
      using assms by (simp add: power_int_def)
    finally show ?thesis by simp
  qed
  then show ?thesis using round_grid_of_int by metis
qed

lemma round_pos_mono:
  assumes "0 < x" and "x \<le> y"
  shows "round_pos x \<le> round_pos y"
proof (cases "ulp_exponent x = ulp_exponent y")
  case True
  then show ?thesis using assms(2) by (simp add: round_pos_grid round_grid_mono)
next
  case False
  let ?e = "binary_exponent y"
  have ee: "binary_exponent x \<le> ?e" using binary_exponent_mono [OF assms] .
  with False have uy: "ulp_exponent y = ?e - 52" and le: "ulp_exponent x \<le> ?e"
    and lt: "binary_exponent x + 1 \<le> ?e"
    by (auto simp: ulp_exponent_def max_def split: if_splits)
  have "x \<le> 2 powi (binary_exponent x + 1)"
    using binary_exponent_bounds(2) [OF assms(1)] by simp
  also have "(2 :: rat) powi (binary_exponent x + 1) \<le> 2 powi ?e"
    using lt by (intro power_int_increasing) auto
  finally have "round_pos x \<le> 2 powi ?e"
    using round_grid_mono [of x "2 powi ?e" "ulp_exponent x"] round_grid_power [OF le]
    by (simp add: round_pos_grid)
  also have "2 powi ?e = round_grid (ulp_exponent y) (2 powi ?e)"
    by (rule round_grid_power [symmetric]) (simp add: uy)
  also have "\<dots> \<le> round_pos y"
    using assms binary_exponent_bounds(1) [of y] by (simp add: round_pos_grid round_grid_mono)
  finally show ?thesis .
qed

lemma round_pos_nonneg: "0 < x \<Longrightarrow> 0 \<le> round_pos x"
  using round_grid_mono [of 0 x "ulp_exponent x"] round_grid_of_int [of "ulp_exponent x" 0]
  by (simp add: round_pos_grid)

lemma round_f64_mono:
  assumes "x \<le> y"
  shows "round_f64 x \<le> round_f64 y"
proof -
  have "round_pos (- y) \<le> round_pos (- x)" if "y < 0"
    using assms that by (intro round_pos_mono) auto
  moreover have "round_pos x \<le> round_pos y" if "0 < x"
    using assms that by (rule round_pos_mono [rotated])
  ultimately show ?thesis
    using assms round_pos_nonneg [of x] round_pos_nonneg [of y]
      round_pos_nonneg [of "- x"] round_pos_nonneg [of "- y"]
    by (auto simp: round_f64_def)
qed

section \<open>Representable numbers\<close>

lemma round_grid_multiple:
  assumes "E \<le> E'"
  shows "round_grid E (of_int i * 2 powi E') = of_int i * 2 powi E'"
proof -
  have "(2 :: rat) powi E' = 2 powi (E' - E) * 2 powi E"
    by (simp flip: power_int_add)
  also have "(2 :: rat) powi (E' - E) = 2 ^ nat (E' - E)"
    using assms by (simp add: power_int_def)
  finally have "of_int i * (2 :: rat) powi E' = of_int (i * 2 ^ nat (E' - E)) * 2 powi E"
    by simp
  then show ?thesis using round_grid_of_int by metis
qed

lemma round_pos_representable:
  assumes "0 < i" and "i < 2 ^ 53" and "- 1074 \<le> E"
  shows "round_pos (of_int i * 2 powi E) = of_int i * 2 powi E"
proof -
  let ?x = "of_int i * 2 powi E :: rat"
  have x: "0 < ?x" using assms(1) by simp
  have "2 powi binary_exponent ?x \<le> ?x" using binary_exponent_bounds(1) [OF x] .
  also have "\<dots> < 2 ^ 53 * 2 powi E"
  proof (intro mult_strict_right_mono)
    have "(of_int i :: rat) < of_int (2 ^ 53)"
      using assms(2) by (simp only: of_int_less_iff)
    then show "(of_int i :: rat) < 2 ^ 53" by simp
  qed simp
  also have "(2 :: rat) ^ 53 * 2 powi E = 2 powi (53 + E)"
    by (simp add: power_int_add)
  finally have less: "(2 :: rat) powi binary_exponent ?x < 2 powi (53 + E)" .
  have "binary_exponent ?x < 53 + E"
  proof (rule ccontr)
    assume "\<not> ?thesis"
    then have "(2 :: rat) powi (53 + E) \<le> 2 powi binary_exponent ?x"
      by (intro power_int_increasing) auto
    with less show False by simp
  qed
  then have "ulp_exponent ?x \<le> E" using assms(3) by (simp add: ulp_exponent_def)
  then show ?thesis by (simp add: round_pos_grid round_grid_multiple)
qed

lemma round_f64_representable:
  assumes "\<bar>i\<bar> < 2 ^ 53" and "- 1074 \<le> E"
  shows "round_f64 (of_int i * 2 powi E) = of_int i * 2 powi E"
proof -
  have pow: "(0 :: rat) < 2 powi E" by simp
  consider "i = 0" | "0 < i" | "i < 0" by linarith
  then show ?thesis
  proof cases
    case 2
    then show ?thesis
      using assms pow round_pos_representable [of i E] by (simp add: round_f64_def)
  next
    case 3
    then have "(of_int i :: rat) * 2 powi E < 0"
      using pow by (simp add: mult_neg_pos)
    then show ?thesis
      using 3 assms round_pos_representable [of "- i" E] by (simp add: round_f64_def)
  qed (simp add: round_f64_def)
qed

section \<open>What the components use of rounding\<close>

text \<open>
  The contract of the rounding mode for the arithmetic on buckets and weights: monotone,
  and exact on small integers and on powers of two.
\<close>

locale rounding =
  fixes rnd :: "rat \<Rightarrow> rat"
  assumes rnd_mono: "x \<le> y \<Longrightarrow> rnd x \<le> rnd y"
    and rnd_int: "\<bar>i\<bar> < 2 ^ 53 \<Longrightarrow> rnd (of_int i) = of_int i"
    and rnd_power: "- 1074 \<le> e \<Longrightarrow> rnd (2 powi e) = 2 powi e"
begin

lemma rnd_zero [simp]: "rnd 0 = 0"
  using rnd_int [of 0] by simp

lemma rnd_one [simp]: "rnd 1 = 1"
  using rnd_int [of 1] by simp

lemma rnd_numeral: "(numeral k :: int) < 2 ^ 53 \<Longrightarrow> rnd (numeral k) = numeral k"
  using rnd_int [of "numeral k"] by simp

lemma rnd_nonneg: "0 \<le> x \<Longrightarrow> 0 \<le> rnd x"
  using rnd_mono [of 0 x] by simp

lemma rnd_le_power: "x \<le> 2 powi e \<Longrightarrow> - 1074 \<le> e \<Longrightarrow> rnd x \<le> 2 powi e"
  using rnd_mono [of x "2 powi e"] rnd_power by simp

lemma rnd_le_one: "x \<le> 1 \<Longrightarrow> rnd x \<le> 1"
  using rnd_mono [of x 1] by simp

lemma rnd_add_ge: "0 \<le> w \<Longrightarrow> rnd s = s \<Longrightarrow> s \<le> rnd (s + w)"
  using rnd_mono [of s "s + w"] by simp

end

interpretation f64: rounding round_f64
proof
  show "round_f64 x \<le> round_f64 y" if "x \<le> y" for x y
    using that by (rule round_f64_mono)
  show "round_f64 (of_int i) = of_int i" if "\<bar>i\<bar> < 2 ^ 53" for i
    using round_f64_representable [OF that, of 0] by simp
  show "round_f64 (2 powi e) = 2 powi e" if "- 1074 \<le> e" for e
    using round_f64_representable [of 1 e] that by simp
qed

text \<open>A rational of at most \<open>2 ^ 1023\<close> in size rounds to a finite double.\<close>

lemma to_double_Fin:
  assumes "\<bar>x\<bar> \<le> 2 powi 1023"
  shows "to_double x = Fin (round_f64 x)"
proof -
  have "round_f64 x \<le> 2 powi 1023"
    using assms by (intro f64.rnd_le_power) linarith+
  moreover have "round_f64 (- x) \<le> 2 powi 1023"
    using assms by (intro f64.rnd_le_power) linarith+
  moreover have "round_f64 (- x) = - round_f64 x"
    by (simp add: round_f64_def)
  moreover have "(2 :: rat) powi 1023 < 2 powi 1024"
    by (rule power_int_strict_increasing) simp_all
  ultimately have "\<not> 2 powi 1024 \<le> round_f64 x" and "\<not> round_f64 x \<le> - (2 powi 1024)"
    by linarith+
  then show ?thesis by (simp only: to_double_def Let_def if_False)
qed

lemma to_double_unit: "0 \<le> x \<Longrightarrow> x \<le> 1 \<Longrightarrow> to_double x = Fin (round_f64 x)"
  using one_le_power_int [of "2 :: rat" 1023] by (intro to_double_Fin) simp

lemma of_int_uint_le: "(of_int (uint (w :: u64)) :: rat) < 2 powi 64"
proof -
  have "(of_int (uint w) :: rat) < of_int (2 ^ 64)"
    using uint_lt2p [of w] by (subst of_int_less_iff) simp
  then show ?thesis by simp
qed

lemma of_u64_Fin: "of_u64 w = Fin (round_f64 (of_int (uint w)))"
  unfolding of_u64_def
proof (rule to_double_Fin)
  have "(2 :: rat) powi 64 \<le> 2 powi 1023"
    by (rule power_int_increasing) simp_all
  moreover have "(0 :: rat) \<le> of_int (uint w)" by (subst of_int_0_le_iff) simp
  ultimately show "\<bar>of_int (uint w) :: rat\<bar> \<le> 2 powi 1023"
    using of_int_uint_le [of w] by linarith
qed

end
