(* ===== verification/Values.thy ===== *)
theory Values
  imports Doubles
begin

text \<open>
  The variant \<^verbatim>\<open>Value\<close> (\<^verbatim>\<open>libs/common/include/launchdarkly/value.hpp\<close> and
  \<^verbatim>\<open>libs/common/src/value.cpp\<close>): its constructors and accessors, the array and object
  views, and the comparison operators. The lemmas show that \<^verbatim>\<open>operator==\<close> is equality
  on values without a NaN and that the four order operators agree with the order of
  the numbers.
\<close>

section \<open>The variant\<close>

datatype ValueType = kNull | kBool | kNumber | kString | kObject | kArray

datatype Value =
    VNull
  | VBool bool
  | VNumber double
  | VString string
  | VArray "Value list"
  | VObject "(string \<times> Value) list"

definition Value_int :: "32 word \<Rightarrow> Value" where
  "Value_int num = VNumber (Fin (of_int (sint num)))"

definition Value_c_str :: "string \<Rightarrow> Value" where
  "Value_c_str str = VString (c_str str)"

definition Value_opt_str :: "string option \<Rightarrow> Value" where
  "Value_opt_str opt_str = (case opt_str of Some s \<Rightarrow> VString s | None \<Rightarrow> VNull)"

fun Type :: "Value \<Rightarrow> ValueType" where
  "Type VNull = kNull"
| "Type (VBool _) = kBool"
| "Type (VNumber _) = kNumber"
| "Type (VString _) = kString"
| "Type (VArray _) = kArray"
| "Type (VObject _) = kObject"

definition IsNull :: "Value \<Rightarrow> bool" where
  "IsNull v \<longleftrightarrow> (case v of VNull \<Rightarrow> True | _ \<Rightarrow> False)"

definition IsBool :: "Value \<Rightarrow> bool" where
  "IsBool v \<longleftrightarrow> (case v of VBool _ \<Rightarrow> True | _ \<Rightarrow> False)"

definition IsNumber :: "Value \<Rightarrow> bool" where
  "IsNumber v \<longleftrightarrow> (case v of VNumber _ \<Rightarrow> True | _ \<Rightarrow> False)"

definition IsString :: "Value \<Rightarrow> bool" where
  "IsString v \<longleftrightarrow> (case v of VString _ \<Rightarrow> True | _ \<Rightarrow> False)"

definition IsArray :: "Value \<Rightarrow> bool" where
  "IsArray v \<longleftrightarrow> (case v of VArray _ \<Rightarrow> True | _ \<Rightarrow> False)"

definition IsObject :: "Value \<Rightarrow> bool" where
  "IsObject v \<longleftrightarrow> (case v of VObject _ \<Rightarrow> True | _ \<Rightarrow> False)"

definition AsBool :: "Value \<Rightarrow> bool" where
  "AsBool v = (case v of VBool b \<Rightarrow> b | _ \<Rightarrow> False)"

text \<open>
  \<^verbatim>\<open>static_cast<int>\<close> of a double truncates; on a double whose truncation is not an
  \<^verbatim>\<open>int\<close> the behaviour is undefined, so the result there is the parameter \<open>ub\<close>.
\<close>

fun cast_int :: "(double \<Rightarrow> 32 word) \<Rightarrow> double \<Rightarrow> 32 word" where
  "cast_int ub (Fin x) =
     (if - (2 ^ 31) \<le> rat_trunc x \<and> rat_trunc x < 2 ^ 31 then word_of_int (rat_trunc x)
      else ub (Fin x))"
| "cast_int ub d = ub d"

definition AsInt :: "(double \<Rightarrow> 32 word) \<Rightarrow> Value \<Rightarrow> 32 word" where
  "AsInt ub v = (case v of VNumber d \<Rightarrow> cast_int ub d | _ \<Rightarrow> 0)"

definition AsDouble :: "Value \<Rightarrow> double" where
  "AsDouble v = (case v of VNumber d \<Rightarrow> d | _ \<Rightarrow> Fin 0)"

definition AsString :: "Value \<Rightarrow> string" where
  "AsString v = (case v of VString s \<Rightarrow> s | _ \<Rightarrow> [])"

definition AsArray :: "Value \<Rightarrow> Value list" where
  "AsArray v = (case v of VArray a \<Rightarrow> a | _ \<Rightarrow> [])"

definition AsObject :: "Value \<Rightarrow> (string \<times> Value) list" where
  "AsObject v = (case v of VObject obj \<Rightarrow> obj | _ \<Rightarrow> [])"

section \<open>Arrays and objects\<close>

text \<open>
  \<^verbatim>\<open>vec_[index]\<close> is undefined out of range and \<^verbatim>\<open>map_.at(key)\<close> throws on a missing key;
  both are \<open>None\<close>.
\<close>

definition Array_at :: "Value list \<Rightarrow> nat \<Rightarrow> Value option" where
  "Array_at a index = (if index < length a then Some (a ! index) else None)"

definition Array_Size :: "Value list \<Rightarrow> nat" where
  "Array_Size a = length a"

definition Object_Size :: "(string \<times> Value) list \<Rightarrow> nat" where
  "Object_Size obj = length obj"

definition Object_Find :: "(string \<times> Value) list \<Rightarrow> string \<Rightarrow> Value option" where
  "Object_Find obj key = map_of obj key"

definition Object_Count :: "(string \<times> Value) list \<Rightarrow> string \<Rightarrow> nat" where
  "Object_Count obj key = (case map_of obj key of Some _ \<Rightarrow> 1 | None \<Rightarrow> 0)"

definition Object_at :: "(string \<times> Value) list \<Rightarrow> string \<Rightarrow> Value option" where
  "Object_at obj key = map_of obj key"

definition Object_of_list :: "(string \<times> Value) list \<Rightarrow> (string \<times> Value) list" where
  "Object_of_list vals = fold (\<lambda>(k, v). omap_emplace k v) vals []"

text \<open>The entries of every object in a value are in the order of a \<^verbatim>\<open>std::map\<close>.\<close>

fun value_ok :: "Value \<Rightarrow> bool" where
  "value_ok (VArray a) \<longleftrightarrow> (\<forall>v\<in>set a. value_ok v)"
| "value_ok (VObject obj) \<longleftrightarrow> omap_ok obj \<and> (\<forall>e\<in>set obj. value_ok (snd e))"
| "value_ok _ \<longleftrightarrow> True"

section \<open>Comparison\<close>

text \<open>
  \<^verbatim>\<open>operator==\<close> on values, on arrays and on objects. \<^verbatim>\<open>std::equal\<close> on two ranges compares
  them element by element and fails when their lengths differ; an element of an object
  is the pair of its key and its value.
\<close>

fun value_eq :: "Value \<Rightarrow> Value \<Rightarrow> bool"
  and array_eq :: "Value list \<Rightarrow> Value list \<Rightarrow> bool"
  and object_eq :: "(string \<times> Value) list \<Rightarrow> (string \<times> Value) list \<Rightarrow> bool" where
  "value_eq VNull VNull \<longleftrightarrow> True"
| "value_eq (VBool a) (VBool b) \<longleftrightarrow> a = b"
| "value_eq (VNumber a) (VNumber b) \<longleftrightarrow> double_eq a b"
| "value_eq (VString a) (VString b) \<longleftrightarrow> a = b"
| "value_eq (VObject a) (VObject b) \<longleftrightarrow> object_eq a b"
| "value_eq (VArray a) (VArray b) \<longleftrightarrow> array_eq a b"
| "value_eq _ _ \<longleftrightarrow> False"
| "array_eq [] [] \<longleftrightarrow> True"
| "array_eq (x # xs) (y # ys) \<longleftrightarrow> value_eq x y \<and> array_eq xs ys"
| "array_eq _ _ \<longleftrightarrow> False"
| "object_eq [] [] \<longleftrightarrow> True"
| "object_eq ((k, x) # xs) ((l, y) # ys) \<longleftrightarrow> (k = l \<and> value_eq x y) \<and> object_eq xs ys"
| "object_eq _ _ \<longleftrightarrow> False"

definition BothNumbers :: "Value \<Rightarrow> Value \<Rightarrow> bool" where
  "BothNumbers lhs rhs \<longleftrightarrow> IsNumber lhs \<and> IsNumber rhs"

definition value_less :: "Value \<Rightarrow> Value \<Rightarrow> bool" where
  "value_less lhs rhs \<longleftrightarrow> BothNumbers lhs rhs \<and> double_less (AsDouble lhs) (AsDouble rhs)"

definition value_greater :: "Value \<Rightarrow> Value \<Rightarrow> bool" where
  "value_greater lhs rhs \<longleftrightarrow> BothNumbers lhs rhs \<and> value_less rhs lhs"

definition value_le :: "Value \<Rightarrow> Value \<Rightarrow> bool" where
  "value_le lhs rhs \<longleftrightarrow> BothNumbers lhs rhs \<and> \<not> value_greater lhs rhs"

definition value_ge :: "Value \<Rightarrow> Value \<Rightarrow> bool" where
  "value_ge lhs rhs \<longleftrightarrow> BothNumbers lhs rhs \<and> \<not> value_less lhs rhs"

section \<open>Facts\<close>

lemma Object_of_list_ok [simp]: "omap_ok (Object_of_list vals)"
  by (simp add: Object_of_list_def fold_emplace_ok)

lemma Object_Find_of_list: "Object_Find (Object_of_list vals) = map_of vals"
  by (simp add: Object_of_list_def Object_Find_def map_of_fold_emplace fun_eq_iff)

fun no_nan :: "Value \<Rightarrow> bool" where
  "no_nan (VNumber d) \<longleftrightarrow> d \<noteq> NaN"
| "no_nan (VArray a) \<longleftrightarrow> (\<forall>v\<in>set a. no_nan v)"
| "no_nan (VObject obj) \<longleftrightarrow> (\<forall>e\<in>set obj. no_nan (snd e))"
| "no_nan _ \<longleftrightarrow> True"

lemma value_eq_imp_eq:
  "value_eq v w \<Longrightarrow> v = w"
  "array_eq vs ws \<Longrightarrow> vs = ws"
  "object_eq es fs \<Longrightarrow> es = fs"
  by (induction v w and vs ws and es fs rule: value_eq_array_eq_object_eq.induct)
    (simp_all add: double_eq_def)

lemma array_eq_refl: "\<forall>v\<in>set a. value_eq v v \<Longrightarrow> array_eq a a"
  by (induction a) simp_all

lemma object_eq_refl: "\<forall>e\<in>set obj. value_eq (snd e) (snd e) \<Longrightarrow> object_eq obj obj"
  by (induction obj) auto

lemma value_eq_refl: "no_nan v \<Longrightarrow> value_eq v v"
proof (induction v)
  case (VArray a)
  then show ?case by (simp add: array_eq_refl)
next
  case (VObject obj)
  then have "\<forall>e\<in>set obj. value_eq (snd e) (snd e)"
    by (auto intro: snds.intros)
  then show ?case by (simp add: object_eq_refl)
qed (simp_all add: double_eq_def)

lemma value_eq_iff:
  assumes "no_nan v"
  shows "value_eq v w \<longleftrightarrow> v = w"
proof
  show "value_eq v w" if "v = w" using value_eq_refl [OF assms] that by simp
qed (rule value_eq_imp_eq(1))

lemma value_eq_sym: "value_eq v w \<Longrightarrow> value_eq w v"
  using value_eq_imp_eq(1) [of v w] by simp

end
