(* ===== verification/Attribute_Reference.thy ===== *)
theory Attribute_Reference
  imports Prelude
begin

text \<open>
  Attribute references (\<^verbatim>\<open>libs/common/src/attribute_reference.cpp\<close>): the character
  state machine \<open>ParseChar\<close>, the loop \<open>ParseRef\<close> that runs it over a string and the
  terminating NUL, the escaping of literals, the constructor, and the printing of a
  path. The lemmas show that the machine computes the reference decoder
  \<open>decode_ref\<close>, and that printing and parsing are inverse.
\<close>

section \<open>The parser\<close>

datatype ParseState =
    kBegin | kPlain | kTokenBegin | kSearchingEnd | kEscapeBegin | kRefEnd

datatype ParseEvent =
    kNoop | kChar | kTilde | kForwardSlash | kTokenEnd | kInputEnd | kError

fun ParseChar :: "ParseState \<Rightarrow> char \<Rightarrow> ParseState \<times> ParseEvent" where
  "ParseChar kBegin c =
     (if c = CHR ''/'' then (kTokenBegin, kNoop)
      else if c = NUL then (kRefEnd, kError)
      else (kPlain, kChar))"
| "ParseChar kPlain c =
     (if c = NUL then (kRefEnd, kInputEnd) else (kPlain, kChar))"
| "ParseChar kTokenBegin c =
     (if c = NUL \<or> c = CHR ''/'' then (kRefEnd, kError)
      else if c = CHR ''~'' then (kEscapeBegin, kNoop)
      else (kSearchingEnd, kChar))"
| "ParseChar kSearchingEnd c =
     (if c = NUL then (kRefEnd, kInputEnd)
      else if c = CHR ''~'' then (kEscapeBegin, kNoop)
      else if c = CHR ''/'' then (kTokenBegin, kTokenEnd)
      else (kSearchingEnd, kChar))"
| "ParseChar kEscapeBegin c =
     (if c = CHR ''0'' then (kSearchingEnd, kTilde)
      else if c = CHR ''1'' then (kSearchingEnd, kForwardSlash)
      else (kRefEnd, kError))"
| "ParseChar kRefEnd c = (kRefEnd, kNoop)"

text \<open>
  The loop of \<open>ParseRef\<close>: its state is the parse state, the token collected so far and
  the components pushed so far; its input is what is left of the string followed by the
  NUL that the source feeds at index \<^verbatim>\<open>str.size()\<close>.
\<close>

fun ParseRef_loop :: "ParseState \<Rightarrow> string \<Rightarrow> string list \<Rightarrow> string \<Rightarrow> bool \<times> string list" where
  "ParseRef_loop st tmp comps [] = (False, comps)"
| "ParseRef_loop st tmp comps (c # cs) =
     (case ParseChar st c of (st', ev) \<Rightarrow>
       (case ev of
          kNoop \<Rightarrow> ParseRef_loop st' tmp comps cs
        | kChar \<Rightarrow> ParseRef_loop st' (tmp @ [c]) comps cs
        | kForwardSlash \<Rightarrow> ParseRef_loop st' (tmp @ ''/'') comps cs
        | kTilde \<Rightarrow> ParseRef_loop st' (tmp @ ''~'') comps cs
        | kTokenEnd \<Rightarrow> ParseRef_loop st' [] (comps @ [tmp]) cs
        | kInputEnd \<Rightarrow> (True, comps @ [tmp])
        | kError \<Rightarrow> (False, comps)))"

definition ParseRef :: "string \<Rightarrow> bool \<times> string list" where
  "ParseRef str = ParseRef_loop kBegin [] [] (str @ [NUL])"

fun EscapeChars :: "string \<Rightarrow> string" where
  "EscapeChars [] = []"
| "EscapeChars (c # cs) =
     (if c = CHR ''~'' then ''~0''
      else if c = CHR ''/'' then ''~1''
      else [c]) @ EscapeChars cs"

definition EscapeLiteral :: "string \<Rightarrow> bool \<Rightarrow> string" where
  "EscapeLiteral literal prepend_slash =
     (if prepend_slash then ''/'' else []) @ EscapeChars literal"

section \<open>The class\<close>

record AttributeReference =
  ref_valid :: bool
  redaction_name :: string
  components :: "string list"

definition MakeAttributeReference :: "string \<Rightarrow> bool \<Rightarrow> AttributeReference" where
  "MakeAttributeReference str literal =
     (if str = [] then \<lparr>ref_valid = False, redaction_name = [], components = []\<rparr>
      else if literal then
        \<lparr>ref_valid = True,
         redaction_name = (if hd str = CHR ''/'' then EscapeLiteral str True else str),
         components = [str]\<rparr>
      else
        (case ParseRef str of (valid, comps) \<Rightarrow>
          \<lparr>ref_valid = valid, redaction_name = str,
           components = (if valid then comps else [])\<rparr>))"

definition FromLiteralStr :: "string \<Rightarrow> AttributeReference" where
  "FromLiteralStr lit_str = MakeAttributeReference lit_str True"

definition FromReferenceStr :: "string \<Rightarrow> AttributeReference" where
  "FromReferenceStr ref_str = MakeAttributeReference ref_str False"

definition Component :: "AttributeReference \<Rightarrow> nat \<Rightarrow> string" where
  "Component ref depth =
     (if depth < length (components ref) then components ref ! depth else [])"

definition Depth :: "AttributeReference \<Rightarrow> nat" where
  "Depth ref = length (components ref)"

definition IsKind :: "AttributeReference \<Rightarrow> bool" where
  "IsKind ref \<longleftrightarrow> Depth ref = 1 \<and> Component ref 0 = ''kind''"

text \<open>
  \<^verbatim>\<open>operator==\<close> compares components only, so a literal and a reference string with the
  same components are equal; \<^verbatim>\<open>operator<\<close> is the lexicographic order on the components.
\<close>

definition ref_eq :: "AttributeReference \<Rightarrow> AttributeReference \<Rightarrow> bool" where
  "ref_eq a b \<longleftrightarrow> components a = components b"

definition ref_eq_path :: "AttributeReference \<Rightarrow> string list \<Rightarrow> bool" where
  "ref_eq_path ref path \<longleftrightarrow> components ref = path"

definition ref_less :: "AttributeReference \<Rightarrow> AttributeReference \<Rightarrow> bool" where
  "ref_less a b \<longleftrightarrow> components a < components b"

text \<open>
  \<open>PathToStringReference\<close>: a component with a special character goes through
  \<^verbatim>\<open>EscapeLiteral(component.data(), false)\<close>, which reads it as a C string; the views that
  reach this function are views of whole \<^verbatim>\<open>std::string\<close>s.
\<close>

definition path_component :: "string \<Rightarrow> string" where
  "path_component c =
     (if CHR ''/'' \<in> set c \<or> CHR ''~'' \<in> set c then EscapeLiteral (c_str c) False else c)"

fun path_components :: "bool \<Rightarrow> string list \<Rightarrow> string" where
  "path_components first [] = []"
| "path_components first (c # cs) =
     (if first then [] else ''/'') @ path_component c @ path_components False cs"

definition PathToStringReference :: "string list \<Rightarrow> string" where
  "PathToStringReference path = ''/'' @ path_components True path"

section \<open>A reference decoder\<close>

text \<open>
  What a reference string means: a string that does not start with a slash is one
  attribute name; otherwise the parts between the slashes are the components, none of
  them empty, with \<^verbatim>\<open>~0\<close> read as a tilde and \<^verbatim>\<open>~1\<close> as a slash and no other use of the
  tilde.
\<close>

fun unescape :: "string \<Rightarrow> string option" where
  "unescape [] = Some []"
| "unescape (c # cs) =
     (if c = CHR ''~'' then
        (case cs of
           [] \<Rightarrow> None
         | d # ds \<Rightarrow>
             if d = CHR ''0'' then map_option (Cons (CHR ''~'')) (unescape ds)
             else if d = CHR ''1'' then map_option (Cons (CHR ''/'')) (unescape ds)
             else None)
      else map_option (Cons c) (unescape cs))"

fun split_slash :: "string \<Rightarrow> string list" where
  "split_slash [] = [[]]"
| "split_slash (c # cs) =
     (if c = CHR ''/'' then [] # split_slash cs
      else (case split_slash cs of [] \<Rightarrow> [[c]] | p # ps \<Rightarrow> (c # p) # ps))"

fun decode_parts :: "string list \<Rightarrow> string list option" where
  "decode_parts [] = Some []"
| "decode_parts (p # ps) =
     (if p = [] then None
      else (case unescape p of None \<Rightarrow> None
            | Some q \<Rightarrow> map_option (Cons q) (decode_parts ps)))"

definition decode_ref :: "string \<Rightarrow> string list option" where
  "decode_ref s =
     (case s of [] \<Rightarrow> None
      | c # cs \<Rightarrow> if c = CHR ''/'' then decode_parts (split_slash cs) else Some [s])"

section \<open>The state machine computes the reference decoder\<close>


definition dec_tail :: "string \<Rightarrow> string list \<Rightarrow> string list option" where
  "dec_tail tmp parts =
     (case parts of [] \<Rightarrow> None
      | p # ps \<Rightarrow> (case unescape p of None \<Rightarrow> None
                  | Some q \<Rightarrow> map_option (Cons (tmp @ q)) (decode_parts ps)))"

definition parses_as :: "string list \<Rightarrow> string list option \<Rightarrow> bool \<times> string list \<Rightarrow> bool" where
  "parses_as comps dec r \<longleftrightarrow>
     (case dec of None \<Rightarrow> \<not> fst r | Some ps \<Rightarrow> r = (True, comps @ ps))"

lemma split_slash_Cons: "\<exists>p ps. split_slash cs = p # ps"
  by (cases cs) (auto split: list.splits)

lemma parses_as_simps [simp]:
  "parses_as comps None (False, x)"
  "parses_as comps (Some [t]) (True, comps @ [t])"
  by (auto simp: parses_as_def)

lemma parses_as_push:
  "parses_as (comps @ [t]) dec r \<Longrightarrow> parses_as comps (map_option (Cons t) dec) r"
  by (auto simp: parses_as_def split: option.splits)

lemma dec_tail_Nil: "dec_tail tmp [[]] = Some [tmp]"
  by (simp add: dec_tail_def)

lemma dec_tail_slash: "dec_tail tmp ([] # ps) = map_option (Cons tmp) (decode_parts ps)"
  by (simp add: dec_tail_def)

lemma dec_tail_char:
  "c \<noteq> CHR ''~'' \<Longrightarrow> dec_tail tmp ((c # p) # ps) = dec_tail (tmp @ [c]) (p # ps)"
  by (auto simp: dec_tail_def split: option.splits)

lemma dec_tail_escape:
  "dec_tail tmp ((CHR ''~'' # CHR ''0'' # p) # ps) = dec_tail (tmp @ ''~'') (p # ps)"
  "dec_tail tmp ((CHR ''~'' # CHR ''1'' # p) # ps) = dec_tail (tmp @ ''/'') (p # ps)"
  by (auto simp: dec_tail_def split: option.splits)

lemma dec_tail_bad_escape:
  "d \<noteq> CHR ''0'' \<Longrightarrow> d \<noteq> CHR ''1'' \<Longrightarrow> dec_tail tmp ((CHR ''~'' # d # p) # ps) = None"
  "dec_tail tmp ([CHR ''~''] # ps) = None"
  by (auto simp: dec_tail_def)

lemma decode_parts_empty: "decode_parts ([] # ps) = None"
  by simp

lemma decode_parts_dec_tail: "p \<noteq> [] \<Longrightarrow> decode_parts (p # ps) = dec_tail [] (p # ps)"
  by (simp add: dec_tail_def split: option.split)


text \<open>
  The loop in the middle of a token, after a tilde in it, and at the start of a token.
  An escape consumes two characters, so the induction is on the length of the input; the
  first two lemmas take the claim about shorter inputs as a premise.
\<close>

definition token_ok :: "string \<Rightarrow> bool" where
  "token_ok cs \<longleftrightarrow> (NUL \<notin> set cs \<longrightarrow> (\<forall>tmp comps.
     parses_as comps (dec_tail tmp (split_slash cs))
       (ParseRef_loop kSearchingEnd tmp comps (cs @ [NUL]))))"

lemma ParseRef_loop_escape:
  assumes "\<And>ds. length ds < length cs \<Longrightarrow> token_ok ds" and "NUL \<notin> set cs"
  shows "parses_as comps (dec_tail tmp (split_slash (CHR ''~'' # cs)))
           (ParseRef_loop kEscapeBegin tmp comps (cs @ [NUL]))"
proof (cases cs)
  case Nil
  then show ?thesis by (simp add: dec_tail_bad_escape)
next
  case (Cons d ds)
  obtain p ps where sp: "split_slash ds = p # ps" using split_slash_Cons by blast
  have S: "parses_as comps (dec_tail t (split_slash ds))
             (ParseRef_loop kSearchingEnd t comps (ds @ [NUL]))" for t
    using assms Cons by (auto simp: token_ok_def)
  show ?thesis
    using S [of "tmp @ ''~''"] S [of "tmp @ ''/''"] Cons sp
    by (auto simp: dec_tail_escape dec_tail_bad_escape)
qed

lemma ParseRef_loop_token_begin:
  assumes S: "\<And>ds. length ds < length cs \<Longrightarrow> token_ok ds" and nul: "NUL \<notin> set cs"
  shows "parses_as comps (decode_parts (split_slash cs))
           (ParseRef_loop kTokenBegin [] comps (cs @ [NUL]))"
proof (cases cs)
  case (Cons c cs')
  obtain p ps where sp: "split_slash cs' = p # ps" using split_slash_Cons by blast
  have E: "parses_as comps (dec_tail [] (split_slash (CHR ''~'' # cs')))
             (ParseRef_loop kEscapeBegin [] comps (cs' @ [NUL]))"
    using S nul Cons by (intro ParseRef_loop_escape) auto
  have T: "parses_as comps (dec_tail [c] (split_slash cs'))
             (ParseRef_loop kSearchingEnd [c] comps (cs' @ [NUL]))"
    using S [of cs'] nul Cons by (auto simp: token_ok_def)
  show ?thesis
    using E T Cons sp nul
    by (auto simp: decode_parts_dec_tail decode_parts_empty dec_tail_char
        simp del: decode_parts.simps(2))
qed simp

lemma ParseRef_loop_token: "token_ok cs"
proof (induction cs rule: length_induct)
  case (1 cs)
  then have IH: "\<And>ds. length ds < length cs \<Longrightarrow> token_ok ds" by blast
  show ?case
  proof (cases cs)
    case Nil
    then show ?thesis by (simp add: token_ok_def dec_tail_Nil)
  next
    case (Cons c cs')
    obtain p ps where sp: "split_slash cs' = p # ps" using split_slash_Cons by blast
    have "parses_as comps (dec_tail tmp (split_slash cs))
            (ParseRef_loop kSearchingEnd tmp comps (cs @ [NUL]))"
      if nul: "NUL \<notin> set cs" for tmp comps
    proof -
      have B: "parses_as (comps @ [tmp]) (decode_parts (split_slash cs'))
                 (ParseRef_loop kTokenBegin [] (comps @ [tmp]) (cs' @ [NUL]))"
        using IH nul Cons by (intro ParseRef_loop_token_begin) auto
      have E: "parses_as comps (dec_tail tmp (split_slash (CHR ''~'' # cs')))
                 (ParseRef_loop kEscapeBegin tmp comps (cs' @ [NUL]))"
        using IH nul Cons by (intro ParseRef_loop_escape) auto
      have T: "parses_as comps (dec_tail (tmp @ [c]) (split_slash cs'))
                 (ParseRef_loop kSearchingEnd (tmp @ [c]) comps (cs' @ [NUL]))"
        using IH [of cs'] nul Cons by (auto simp: token_ok_def)
      show ?thesis
        using parses_as_push [OF B] E T Cons sp nul
        by (auto simp: dec_tail_char dec_tail_slash simp del: decode_parts.simps(2))
    qed
    then show ?thesis by (simp add: token_ok_def)
  qed
qed

lemma ParseRef_loop_plain:
  "NUL \<notin> set cs \<Longrightarrow> ParseRef_loop kPlain tmp comps (cs @ [NUL]) = (True, comps @ [tmp @ cs])"
  by (induction cs arbitrary: tmp) auto

lemma ParseRef_decode:
  assumes "NUL \<notin> set s"
  shows "parses_as [] (decode_ref s) (ParseRef s)"
proof (cases s)
  case (Cons c cs)
  have "parses_as [] (decode_parts (split_slash cs))
          (ParseRef_loop kTokenBegin [] [] (cs @ [NUL]))"
    using assms Cons by (intro ParseRef_loop_token_begin ParseRef_loop_token) auto
  then show ?thesis
    using Cons assms ParseRef_loop_plain [of cs "[c]" "[]"]
    by (cases "c = CHR ''/''") (auto simp: ParseRef_def decode_ref_def parses_as_def [of _ "Some _"])
qed (simp add: ParseRef_def decode_ref_def)

section \<open>Printing and parsing\<close>

lemma EscapeChars_no_slash: "CHR ''/'' \<notin> set (EscapeChars s)"
  by (induction s) auto

lemma EscapeChars_Nil_iff [simp]: "EscapeChars s = [] \<longleftrightarrow> s = []"
  by (cases s) auto

lemma EscapeChars_NUL [simp]: "NUL \<in> set (EscapeChars s) \<longleftrightarrow> NUL \<in> set s"
  by (induction s) auto

lemma unescape_EscapeChars: "unescape (EscapeChars s) = Some s"
  by (induction s) auto

lemma EscapeChars_id: "CHR ''/'' \<notin> set s \<Longrightarrow> CHR ''~'' \<notin> set s \<Longrightarrow> EscapeChars s = s"
  by (induction s) auto

lemma path_component_EscapeChars:
  "NUL \<notin> set c \<Longrightarrow> path_component c = EscapeChars c"
  by (auto simp: path_component_def EscapeLiteral_def EscapeChars_id)

lemma split_slash_part:
  "CHR ''/'' \<notin> set p \<Longrightarrow> split_slash p = [p]"
  "CHR ''/'' \<notin> set p \<Longrightarrow> split_slash (p @ CHR ''/'' # cs) = p # split_slash cs"
  by (induction p) auto

lemma split_slash_path:
  assumes "\<forall>c\<in>set (c0 # path). NUL \<notin> set c"
  shows "split_slash (path_components True (c0 # path)) = map EscapeChars (c0 # path)"
  using assms
proof (induction path arbitrary: c0)
  case Nil
  then show ?case
    by (simp add: path_component_EscapeChars split_slash_part EscapeChars_no_slash)
next
  case (Cons c1 path)
  have "path_components True (c0 # c1 # path) =
          path_component c0 @ CHR ''/'' # path_components True (c1 # path)"
    by simp
  then show ?case
    using Cons.IH [of c1] Cons.prems
    by (simp add: path_component_EscapeChars split_slash_part EscapeChars_no_slash
        del: path_components.simps(2))
qed

lemma decode_parts_EscapeChars:
  "[] \<notin> set path \<Longrightarrow> decode_parts (map EscapeChars path) = Some path"
  by (induction path) (auto simp: unescape_EscapeChars)

lemma decode_ref_path:
  assumes "path \<noteq> []" and "\<forall>c\<in>set path. c \<noteq> [] \<and> NUL \<notin> set c"
  shows "decode_ref (PathToStringReference path) = Some path"
proof -
  have "split_slash (path_components True path) = map EscapeChars path"
    using assms split_slash_path by (cases path) auto
  then show ?thesis
    using assms by (auto simp: decode_ref_def PathToStringReference_def intro!: decode_parts_EscapeChars)
qed


section \<open>Properties\<close>

lemma FromReferenceStr_eq:
  assumes "NUL \<notin> set s"
  shows "FromReferenceStr s =
    \<lparr>ref_valid = (decode_ref s \<noteq> None), redaction_name = s,
     components = (case decode_ref s of None \<Rightarrow> [] | Some ps \<Rightarrow> ps)\<rparr>"
proof (cases "s = []")
  case True
  then show ?thesis
    by (simp add: FromReferenceStr_def MakeAttributeReference_def decode_ref_def)
next
  case False
  then show ?thesis
    using ParseRef_decode [OF assms]
    by (cases "ParseRef s"; cases "decode_ref s")
      (simp_all add: FromReferenceStr_def MakeAttributeReference_def parses_as_def)
qed

lemma path_components_NUL:
  "\<forall>c\<in>set path. NUL \<notin> set c \<Longrightarrow> NUL \<notin> set (path_components b path)"
  by (induction path arbitrary: b) (auto simp: path_component_EscapeChars)

lemma FromReferenceStr_path:
  assumes "path \<noteq> []" and "\<forall>c\<in>set path. c \<noteq> [] \<and> NUL \<notin> set c"
  shows "FromReferenceStr (PathToStringReference path) =
    \<lparr>ref_valid = True, redaction_name = PathToStringReference path, components = path\<rparr>"
proof -
  have "NUL \<notin> set (PathToStringReference path)"
    using assms(2) path_components_NUL by (simp add: PathToStringReference_def)
  then show ?thesis
    using decode_ref_path [OF assms] by (simp add: FromReferenceStr_eq)
qed

lemma FromLiteralStr_eq:
  assumes "s \<noteq> []" and "NUL \<notin> set s"
  shows "FromLiteralStr s =
    \<lparr>ref_valid = True,
     redaction_name = (if hd s = CHR ''/'' then PathToStringReference [s] else s),
     components = [s]\<rparr>"
  using assms
  by (simp add: FromLiteralStr_def MakeAttributeReference_def EscapeLiteral_def
      PathToStringReference_def path_component_EscapeChars)

text \<open>
  Parsing a reference string gives exactly what the reference decoder gives: the
  reference is valid when the decoder accepts the string, its components are the decoded
  parts, and an invalid reference has no components.
\<close>

theorem FromReferenceStr_decodes:
  assumes "NUL \<notin> set s"
  shows "ref_valid (FromReferenceStr s) = (decode_ref s \<noteq> None) \<and>
         components (FromReferenceStr s) = (case decode_ref s of None \<Rightarrow> [] | Some ps \<Rightarrow> ps)"
  using assms by (simp add: FromReferenceStr_eq)

theorem FromReferenceStr_decodes_witness:
  "ref_valid (FromReferenceStr ''/a~1b/c'') \<and>
   components (FromReferenceStr ''/a~1b/c'') = [''a/b'', ''c''] \<and>
   \<not> ref_valid (FromReferenceStr ''/a//c'')"
  using FromReferenceStr_decodes [of "''/a~1b/c''"] FromReferenceStr_decodes [of "''/a//c''"]
  by (simp add: decode_ref_def)

text \<open>
  Printing a path and parsing the result gives the path back, whatever slashes and
  tildes its components contain.
\<close>

theorem PathToStringReference_roundtrip:
  assumes "path \<noteq> []" and "\<forall>c\<in>set path. c \<noteq> [] \<and> NUL \<notin> set c"
  shows "ref_valid (FromReferenceStr (PathToStringReference path)) \<and>
         components (FromReferenceStr (PathToStringReference path)) = path"
  by (simp add: FromReferenceStr_path [OF assms])

theorem PathToStringReference_roundtrip_witness:
  "ref_valid (FromReferenceStr (PathToStringReference [''a/b'', ''~c''])) \<and>
   components (FromReferenceStr (PathToStringReference [''a/b'', ''~c''])) = [''a/b'', ''~c'']"
  using PathToStringReference_roundtrip [of "[''a/b'', ''~c'']"] by simp

text \<open>
  The redaction name of a literal attribute name is a reference string for the same
  attribute: reading it back gives a valid reference equal to the literal one.
\<close>

theorem literal_redaction_name_roundtrip:
  assumes "s \<noteq> []" and "NUL \<notin> set s"
  shows "ref_valid (FromReferenceStr (redaction_name (FromLiteralStr s))) \<and>
         ref_eq (FromReferenceStr (redaction_name (FromLiteralStr s))) (FromLiteralStr s)"
proof (cases "hd s = CHR ''/''")
  case True
  then show ?thesis
    using assms by (simp add: FromLiteralStr_eq FromReferenceStr_path ref_eq_def)
next
  case False
  then have "decode_ref s = Some [s]"
    using assms(1) by (cases s) (simp_all add: decode_ref_def)
  then show ?thesis
    using False assms by (simp add: FromLiteralStr_eq FromReferenceStr_eq ref_eq_def)
qed

theorem literal_redaction_name_roundtrip_witness:
  "ref_valid (FromReferenceStr (redaction_name (FromLiteralStr ''/a~b''))) \<and>
   ref_eq (FromReferenceStr (redaction_name (FromLiteralStr ''/a~b''))) (FromLiteralStr ''/a~b'')"
  using literal_redaction_name_roundtrip [of "''/a~b''"] by simp

end
