(* ===== verification/Contexts.thy ===== *)
theory Contexts
  imports Values Attribute_Reference
begin

text \<open>
  Contexts: \<^verbatim>\<open>Attributes\<close> (\<^verbatim>\<open>attributes.hpp\<close>, \<^verbatim>\<open>attributes.cpp\<close>), \<^verbatim>\<open>Context\<close>
  (\<^verbatim>\<open>context.cpp\<close>), and their builders (\<^verbatim>\<open>attributes_builder.cpp\<close>,
  \<^verbatim>\<open>context_builder.cpp\<close>), all under \<^verbatim>\<open>libs/common\<close>. The lemmas show what makes a
  context valid, that a builder opened on a built context builds the same context, and
  that the canonical key tells contexts apart.
\<close>

section \<open>Attributes\<close>

text \<open>
  The set of private attributes is a \<^verbatim>\<open>std::set<AttributeReference>\<close>: ordered by the
  components of the references, the first of two equal references kept.
\<close>

type_synonym RefSet = "(string list, AttributeReference) omap"

definition RefSet_insert :: "AttributeReference \<Rightarrow> RefSet \<Rightarrow> RefSet" where
  "RefSet_insert ref s = omap_emplace (components ref) ref s"

record Attributes =
  attr_key :: Value
  attr_name :: Value
  attr_anonymous :: Value
  private_attributes :: RefSet
  custom_attributes :: Value

definition MakeAttributes ::
  "string \<Rightarrow> string option \<Rightarrow> bool \<Rightarrow> Value \<Rightarrow> RefSet \<Rightarrow> Attributes" where
  "MakeAttributes key name anonymous custom priv =
     \<lparr>attr_key = VString key, attr_name = Value_opt_str name,
      attr_anonymous = VBool anonymous, private_attributes = priv,
      custom_attributes = custom\<rparr>"

definition Key :: "Attributes \<Rightarrow> string" where
  "Key a = AsString (attr_key a)"

definition Name :: "Attributes \<Rightarrow> string" where
  "Name a = AsString (attr_name a)"

definition Anonymous :: "Attributes \<Rightarrow> bool" where
  "Anonymous a = AsBool (attr_anonymous a)"

text \<open>
  The walk of \<^verbatim>\<open>Attributes::Get\<close> down the custom attributes. The branch for a node that
  is not an object does not break out of the loop: it clears \<open>found\<close> and goes on.
\<close>

fun Get_walk :: "Value \<Rightarrow> bool \<Rightarrow> string list \<Rightarrow> bool \<times> Value" where
  "Get_walk node found [] = (found, node)"
| "Get_walk node found (component # rest) =
     (if IsObject node then
        (case Object_Find (AsObject node) component of
           Some child \<Rightarrow> Get_walk child found rest
         | None \<Rightarrow> (False, node))
      else Get_walk node False rest)"

definition Attributes_Get :: "Attributes \<Rightarrow> AttributeReference \<Rightarrow> Value" where
  "Attributes_Get a ref =
     (if \<not> ref_valid ref then VNull
      else if IsKind ref then VNull
      else if Depth ref = 1 \<and> Component ref 0 = ''key'' then attr_key a
      else if Depth ref = 1 \<and> Component ref 0 = ''name'' then attr_name a
      else if Depth ref = 1 \<and> Component ref 0 = ''anonymous'' then attr_anonymous a
      else (case Get_walk (custom_attributes a) True
                   (map (Component ref) [0..<Depth ref]) of
              (found, node) \<Rightarrow> if \<not> found then VNull else node))"

section \<open>The context\<close>

record Context =
  ctx_attributes :: "(string, Attributes) omap"
  ctx_kinds :: "string list"
  kinds_to_keys :: "(string, string) omap"
  ctx_valid :: bool
  ctx_errors :: string
  canonical_key :: string

definition NeedsEscape :: "string \<Rightarrow> bool" where
  "NeedsEscape s \<longleftrightarrow> CHR ''%'' \<in> set s \<or> CHR '':'' \<in> set s"

fun EscapeKey :: "string \<Rightarrow> string" where
  "EscapeKey [] = []"
| "EscapeKey (c # cs) =
     (if c = CHR ''%'' then ''%3A''
      else if c = CHR '':'' then ''%25''
      else [c]) @ EscapeKey cs"

fun canonical_loop :: "bool \<Rightarrow> (string \<times> string) list \<Rightarrow> string" where
  "canonical_loop first [] = []"
| "canonical_loop first ((kind, key) # rest) =
     (if first then [] else '':'') @
     (if NeedsEscape key then kind @ '':'' @ EscapeKey key else kind @ '':'' @ key) @
     canonical_loop False rest"

definition make_canonical_key :: "(string, string) omap \<Rightarrow> string" where
  "make_canonical_key k2k =
     (case if length k2k = 1 then map_of k2k ''user'' else None of
        Some key \<Rightarrow> key
      | None \<Rightarrow> canonical_loop True k2k)"

definition Context_error :: "string \<Rightarrow> Context" where
  "Context_error msg =
     \<lparr>ctx_attributes = [], ctx_kinds = [], kinds_to_keys = [], ctx_valid = False,
      ctx_errors = msg, canonical_key = []\<rparr>"

definition Context_attributes :: "(string, Attributes) omap \<Rightarrow> Context" where
  "Context_attributes attrs =
     (let k2k = fold (\<lambda>(kind, a). omap_set kind (Key a)) attrs [] in
      \<lparr>ctx_attributes = attrs, ctx_kinds = map fst attrs, kinds_to_keys = k2k,
       ctx_valid = True, ctx_errors = [], canonical_key = make_canonical_key k2k\<rparr>)"

definition Context_Get :: "Context \<Rightarrow> string \<Rightarrow> AttributeReference \<Rightarrow> Value" where
  "Context_Get ctx kind ref =
     (case map_of (ctx_attributes ctx) kind of
        Some a \<Rightarrow> Attributes_Get a ref
      | None \<Rightarrow> VNull)"

text \<open>\<^verbatim>\<open>attributes_.at(kind)\<close> throws on a missing kind.\<close>

definition Context_Attributes :: "Context \<Rightarrow> string \<Rightarrow> Attributes option" where
  "Context_Attributes ctx kind = map_of (ctx_attributes ctx) kind"

section \<open>The attributes builder\<close>

record AttributesBuilder =
  ab_kind :: string
  ab_key :: string
  ab_name :: string
  ab_anonymous :: bool
  ab_values :: "(string, Value) omap"
  ab_private :: RefSet

definition AttributesBuilder_key :: "string \<Rightarrow> string \<Rightarrow> AttributesBuilder" where
  "AttributesBuilder_key kind key =
     \<lparr>ab_kind = kind, ab_key = key, ab_name = [], ab_anonymous = False,
      ab_values = [], ab_private = []\<rparr>"

definition AttributesBuilder_attributes :: "string \<Rightarrow> Attributes \<Rightarrow> AttributesBuilder" where
  "AttributesBuilder_attributes kind a =
     \<lparr>ab_kind = kind, ab_key = Key a, ab_name = Name a, ab_anonymous = Anonymous a,
      ab_values = fold (\<lambda>(k, v). omap_set k v) (AsObject (custom_attributes a)) [],
      ab_private = private_attributes a\<rparr>"

definition SetName :: "string \<Rightarrow> AttributesBuilder \<Rightarrow> AttributesBuilder" where
  "SetName name b = b\<lparr>ab_name := name\<rparr>"

definition SetAnonymous :: "bool \<Rightarrow> AttributesBuilder \<Rightarrow> AttributesBuilder" where
  "SetAnonymous anonymous b = b\<lparr>ab_anonymous := anonymous\<rparr>"

definition SetKey :: "string \<Rightarrow> AttributesBuilder \<Rightarrow> AttributesBuilder" where
  "SetKey key b = b\<lparr>ab_key := key\<rparr>"

definition ProtectedAttributes :: "string list" where
  "ProtectedAttributes = [''key'', ''kind'', ''_meta'']"

definition TypedAttributes ::
  "(string \<times> ValueType \<times> (AttributesBuilder \<Rightarrow> Value \<Rightarrow> AttributesBuilder)) list" where
  "TypedAttributes =
     [(''anonymous'', kBool, \<lambda>b v. SetAnonymous (AsBool v) b),
      (''name'', kString, \<lambda>b v. SetName (AsString v) b)]"

definition SetValue ::
  "string \<Rightarrow> Value \<Rightarrow> bool \<Rightarrow> AttributesBuilder \<Rightarrow> AttributesBuilder" where
  "SetValue name v is_private b =
     (if name \<in> set ProtectedAttributes then b
      else
        (let typed = map_of TypedAttributes name;
             add = (\<lambda>b. if is_private
                        then b\<lparr>ab_private := RefSet_insert (FromReferenceStr name) (ab_private b)\<rparr>
                        else b)
         in case typed of
              Some (ty, setter) \<Rightarrow> if Type v \<noteq> ty then b else add (setter b v)
            | None \<Rightarrow> add (b\<lparr>ab_values := omap_set name v (ab_values b)\<rparr>)))"

definition SetPublic :: "string \<Rightarrow> Value \<Rightarrow> AttributesBuilder \<Rightarrow> AttributesBuilder" where
  "SetPublic name v b = SetValue name v False b"

definition SetPrivate :: "string \<Rightarrow> Value \<Rightarrow> AttributesBuilder \<Rightarrow> AttributesBuilder" where
  "SetPrivate name v b = SetValue name v True b"

definition AddPrivateAttribute :: "AttributeReference \<Rightarrow> AttributesBuilder \<Rightarrow> AttributesBuilder" where
  "AddPrivateAttribute ref b = b\<lparr>ab_private := RefSet_insert ref (ab_private b)\<rparr>"

definition AddPrivateAttributes ::
  "AttributeReference list \<Rightarrow> AttributesBuilder \<Rightarrow> AttributesBuilder" where
  "AddPrivateAttributes refs b = b\<lparr>ab_private := fold RefSet_insert refs (ab_private b)\<rparr>"

definition BuildAttributes :: "AttributesBuilder \<Rightarrow> Attributes" where
  "BuildAttributes b =
     MakeAttributes (ab_key b) (Some (ab_name b)) (ab_anonymous b) (VObject (ab_values b))
       (ab_private b)"

section \<open>The context builder\<close>

type_synonym ContextBuilder = "(string, AttributesBuilder) omap"

definition kInvalidKind :: string where
  \<open>kInvalidKind = ''"Kind contained invalid characters. A kind may contain ASCII letters or '' @
     ''numbers, as well as '.', '-', and '_'."''\<close>

definition kInvalidKey :: string where
  \<open>kInvalidKey = ''"The key for a context may not be empty."''\<close>

definition kMissingKinds :: string where
  \<open>kMissingKinds = ''"The context must contain at least 1 kind."''\<close>

definition is_kind_char :: "char \<Rightarrow> bool" where
  "is_kind_char c \<longleftrightarrow>
     c = CHR ''.'' \<or> c = CHR ''-'' \<or> c = CHR ''_'' \<or>
     (CHR ''0'' \<le> c \<and> c \<le> CHR ''9'') \<or>
     (CHR ''A'' \<le> c \<and> c \<le> CHR ''Z'') \<or>
     (CHR ''a'' \<le> c \<and> c \<le> CHR ''z'')"

definition ValidKind :: "string \<Rightarrow> bool" where
  "ValidKind kind \<longleftrightarrow>
     kind \<noteq> [] \<and> \<not> (kind = ''multi'' \<or> kind = ''kind'') \<and> list_all is_kind_char kind"

text \<open>\<open>builders_.at(kind)\<close> of a kind the context names throws when it is missing.\<close>

fun ContextBuilder_kinds :: "Context \<Rightarrow> string list \<Rightarrow> ContextBuilder \<Rightarrow> ContextBuilder option" where
  "ContextBuilder_kinds ctx [] b = Some b"
| "ContextBuilder_kinds ctx (kind # kinds) b =
     (case Context_Attributes ctx kind of
        None \<Rightarrow> None
      | Some a \<Rightarrow>
          ContextBuilder_kinds ctx kinds
            (omap_emplace kind (AttributesBuilder_attributes kind a) b))"

definition ContextBuilder_context :: "Context \<Rightarrow> ContextBuilder option" where
  "ContextBuilder_context ctx =
     (if \<not> ctx_valid ctx then Some [] else ContextBuilder_kinds ctx (ctx_kinds ctx) [])"

definition Kind :: "string \<Rightarrow> string \<Rightarrow> ContextBuilder \<Rightarrow> ContextBuilder" where
  "Kind kind key b =
     (case map_of b kind of
        Some existing \<Rightarrow> omap_set kind (SetKey key existing) b
      | None \<Rightarrow> omap_emplace kind (AttributesBuilder_key kind key) b)"

text \<open>
  What a caller does with the reference that \<^verbatim>\<open>Kind(kind)\<close> returns: change the builder
  of that kind, or nothing when the kind is missing (a null pointer).
\<close>

definition with_kind ::
  "string \<Rightarrow> (AttributesBuilder \<Rightarrow> AttributesBuilder) \<Rightarrow> ContextBuilder \<Rightarrow> ContextBuilder" where
  "with_kind kind f b =
     (case map_of b kind of Some ab \<Rightarrow> omap_set kind (f ab) b | None \<Rightarrow> b)"

text \<open>
  \<^verbatim>\<open>std::stringstream stream(errors)\<close> opens the stream for reading and writing at
  position 0: what is written replaces the characters that are there.
\<close>

definition stream_over :: "string \<Rightarrow> string \<Rightarrow> string" where
  "stream_over init written = written @ drop (length written) init"

definition Build_error :: "string \<Rightarrow> bool \<Rightarrow> bool \<Rightarrow> string \<Rightarrow> string" where
  "Build_error kind kind_valid key_valid errors =
     stream_over errors
       ((if length errors \<noteq> 0 then '', '' else []) @
        (if \<not> kind_valid then kind @ '': '' @ kInvalidKind @ (if \<not> key_valid then '', '' else [])
         else []) @
        (if \<not> key_valid then kind @ '': '' @ kInvalidKey else []))"

fun Build_loop :: "ContextBuilder \<Rightarrow> bool \<Rightarrow> string \<Rightarrow> bool \<times> string" where
  "Build_loop [] valid errors = (valid, errors)"
| "Build_loop ((kind, ab) # rest) valid errors =
     (let kind_valid = ValidKind kind; key_valid = (ab_key ab \<noteq> []) in
      if \<not> kind_valid \<or> \<not> key_valid
      then Build_loop rest False (Build_error kind kind_valid key_valid errors)
      else Build_loop rest valid errors)"

definition Build :: "ContextBuilder \<Rightarrow> Context" where
  "Build b =
     (let valid0 = (b \<noteq> []); errors0 = (if b = [] then kMissingKinds else []) in
      case Build_loop b valid0 errors0 of
        (valid, errors) \<Rightarrow>
          if valid
          then Context_attributes
                 (fold (\<lambda>(kind, ab). omap_emplace kind (BuildAttributes ab)) b [])
          else Context_error errors)"

section \<open>Building\<close>

definition builder_ok :: "ContextBuilder \<Rightarrow> bool" where
  "builder_ok b \<longleftrightarrow>
     omap_ok b \<and> (\<forall>(kind, ab)\<in>set b. ab_kind ab = kind \<and> omap_ok (ab_values ab))"

definition kinds_ok :: "ContextBuilder \<Rightarrow> bool" where
  "kinds_ok b \<longleftrightarrow> (\<forall>(kind, ab)\<in>set b. ValidKind kind \<and> ab_key ab \<noteq> [])"

lemma kinds_ok_simps [simp]:
  "kinds_ok []"
  "kinds_ok ((kind, ab) # b) \<longleftrightarrow> (ValidKind kind \<and> ab_key ab \<noteq> []) \<and> kinds_ok b"
  by (auto simp: kinds_ok_def)

lemma Build_loop_valid: "fst (Build_loop b valid errors) \<longleftrightarrow> valid \<and> kinds_ok b"
  by (induction b valid errors rule: Build_loop.induct) (auto simp: Let_def)

lemma Build_valid_iff: "ctx_valid (Build b) \<longleftrightarrow> b \<noteq> [] \<and> kinds_ok b"
  using Build_loop_valid [of b "b \<noteq> []" "if b = [] then kMissingKinds else []"]
  by (auto simp: Build_def Let_def Context_attributes_def Context_error_def split: prod.splits)

lemma Key_BuildAttributes [simp]: "Key (BuildAttributes ab) = ab_key ab"
  by (simp add: Key_def BuildAttributes_def MakeAttributes_def AsString_def)

lemma Build_valid_eq:
  assumes "omap_ok b" and "b \<noteq> []" and "kinds_ok b"
  shows "Build b =
    (let k2k = map (\<lambda>(kind, ab). (kind, ab_key ab)) b in
     \<lparr>ctx_attributes = map (\<lambda>(kind, ab). (kind, BuildAttributes ab)) b,
      ctx_kinds = map fst b, kinds_to_keys = k2k, ctx_valid = True, ctx_errors = [],
      canonical_key = make_canonical_key k2k\<rparr>)"
proof -
  let ?attrs = "map (\<lambda>(kind, ab). (kind, BuildAttributes ab)) b"
  obtain errors where loop: "Build_loop b True [] = (True, errors)"
    using Build_loop_valid [of b True "[]"] assms(3) by (metis prod.collapse)
  have attrs: "fold (\<lambda>(kind, ab). omap_emplace kind (BuildAttributes ab)) b [] = ?attrs"
    using fold_emplace_sorted [OF assms(1), of "\<lambda>_. BuildAttributes"] by simp
  have "fold (\<lambda>(kind, a). omap_set kind (Key a)) ?attrs [] = map (\<lambda>(kind, a). (kind, Key a)) ?attrs"
    using fold_set_sorted [OF omap_ok_map [OF assms(1)], of "\<lambda>_. Key"] by simp
  also have "\<dots> = map (\<lambda>(kind, ab). (kind, ab_key ab)) b"
    by (simp add: case_prod_unfold)
  finally show ?thesis
    using attrs assms(2) loop
    by (simp add: Build_def Context_attributes_def Let_def comp_def case_prod_unfold)
qed

lemma AttributesBuilder_BuildAttributes:
  assumes "omap_ok (ab_values ab)"
  shows "AttributesBuilder_attributes (ab_kind ab) (BuildAttributes ab) = ab"
  using fold_set_sorted [OF assms, of "\<lambda>_ v. v"]
  by (simp add: AttributesBuilder_attributes_def BuildAttributes_def MakeAttributes_def Key_def
      Name_def Anonymous_def AsString_def AsBool_def AsObject_def Value_opt_str_def)

lemma ContextBuilder_kinds_eq:
  assumes "\<forall>(kind, ab)\<in>set b. map_of (ctx_attributes ctx) kind = Some (BuildAttributes ab) \<and>
      AttributesBuilder_attributes kind (BuildAttributes ab) = ab"
  shows "ContextBuilder_kinds ctx (map fst b) acc =
    Some (fold (\<lambda>(kind, ab). omap_emplace kind ab) b acc)"
  using assms
  by (induction b arbitrary: acc) (auto simp: Context_Attributes_def)

lemma ContextBuilder_Build:
  assumes "builder_ok b" and "ctx_valid (Build b)"
  shows "ContextBuilder_context (Build b) = Some b"
proof -
  have ok: "omap_ok b" and ab: "\<forall>(kind, ab)\<in>set b. ab_kind ab = kind \<and> omap_ok (ab_values ab)"
    using assms(1) by (auto simp: builder_ok_def)
  have eq: "ctx_attributes (Build b) = map (\<lambda>(kind, ab). (kind, BuildAttributes ab)) b"
    "ctx_kinds (Build b) = map fst b"
    using assms(2) ok Build_valid_eq [of b] by (auto simp: Build_valid_iff Let_def)
  have "map_of (ctx_attributes (Build b)) kind = Some (BuildAttributes ab)"
    if "(kind, ab) \<in> set b" for kind ab
    using that omap_ok_distinct [OF ok] by (simp add: eq map_of_map)
  moreover have "AttributesBuilder_attributes kind (BuildAttributes ab) = ab"
    if "(kind, ab) \<in> set b" for kind ab
    using that ab AttributesBuilder_BuildAttributes [of ab] by auto
  ultimately have "ContextBuilder_kinds (Build b) (map fst b) [] =
      Some (fold (\<lambda>(kind, ab). omap_emplace kind ab) b [])"
    by (intro ContextBuilder_kinds_eq) auto
  then show ?thesis
    using assms(2) fold_emplace_sorted [OF ok, of "\<lambda>_ v. v"]
    by (simp add: ContextBuilder_context_def eq)
qed

section \<open>The builder's invariant\<close>

lemma builder_ok_set:
  assumes "builder_ok b" and "ab_kind ab = kind" and "omap_ok (ab_values ab)"
  shows "builder_ok (omap_set kind ab b)"
proof -
  have "set (omap_set kind ab b) \<subseteq> insert (kind, ab) (set b)"
    by (induction kind ab b rule: omap_set.induct) auto
  then show ?thesis using assms by (auto simp: builder_ok_def)
qed

lemma builder_ok_find:
  "builder_ok b \<Longrightarrow> map_of b kind = Some ab \<Longrightarrow> ab_kind ab = kind \<and> omap_ok (ab_values ab)"
  by (auto simp: builder_ok_def dest: map_of_SomeD)

lemma builder_ok_Nil [simp]: "builder_ok []"
  by (simp add: builder_ok_def)

lemma builder_ok_Kind [inv_intros]: "builder_ok b \<Longrightarrow> builder_ok (Kind kind key b)"
  by (auto simp: Kind_def omap_emplace_def SetKey_def AttributesBuilder_key_def
      intro!: builder_ok_set dest: builder_ok_find split: option.splits)

definition keeps_builder :: "(AttributesBuilder \<Rightarrow> AttributesBuilder) \<Rightarrow> bool" where
  "keeps_builder f \<longleftrightarrow>
     (\<forall>ab. omap_ok (ab_values ab) \<longrightarrow> ab_kind (f ab) = ab_kind ab \<and> omap_ok (ab_values (f ab)))"

lemma builder_ok_with_kind [inv_intros]:
  "keeps_builder f \<Longrightarrow> builder_ok b \<Longrightarrow> builder_ok (with_kind kind f b)"
  by (auto simp: with_kind_def keeps_builder_def intro!: builder_ok_set dest: builder_ok_find
      split: option.splits)

lemma keeps_builder_ops [inv_intros]:
  "keeps_builder (SetName name)"
  "keeps_builder (SetAnonymous anonymous)"
  "keeps_builder (SetKey key)"
  "keeps_builder (SetPublic name v)"
  "keeps_builder (SetPrivate name v)"
  "keeps_builder (AddPrivateAttribute ref)"
  "keeps_builder (AddPrivateAttributes refs)"
  by (simp_all add: keeps_builder_def SetName_def SetAnonymous_def SetKey_def SetPublic_def
      SetPrivate_def SetValue_def AddPrivateAttribute_def AddPrivateAttributes_def
      TypedAttributes_def Let_def)

section \<open>The canonical key\<close>

lemma EscapeKey_colon: "CHR '':'' \<notin> set (EscapeKey s)"
  by (induction s rule: EscapeKey.induct) auto

lemma EscapeKey_id: "\<not> NeedsEscape s \<Longrightarrow> EscapeKey s = s"
  by (induction s rule: EscapeKey.induct) (auto simp: NeedsEscape_def)

lemma EscapeKey_inj: "EscapeKey s = EscapeKey t \<Longrightarrow> s = t"
proof (induction s arbitrary: t rule: EscapeKey.induct)
  case 1
  then show ?case by (cases t) (auto split: if_splits)
next
  case (2 c cs)
  then show ?case by (cases t) (auto split: if_splits)
qed

lemma canonical_loop_Cons:
  "canonical_loop True ((kind, key) # rest) =
     kind @ CHR '':'' # EscapeKey key @ canonical_loop False rest"
  using EscapeKey_id [of key] by auto

lemma canonical_loop_False:
  "canonical_loop False rest = (if rest = [] then [] else CHR '':'' # canonical_loop True rest)"
  by (cases rest) auto

lemma canonical_loop_inj:
  assumes "canonical_loop True xs = canonical_loop True ys"
    and "\<forall>e\<in>set xs. CHR '':'' \<notin> set (fst e)" and "\<forall>e\<in>set ys. CHR '':'' \<notin> set (fst e)"
    and "xs \<noteq> []" and "ys \<noteq> []"
  shows "xs = ys"
  using assms
proof (induction xs arbitrary: ys)
  case (Cons x xs)
  obtain k s where x: "x = (k, s)" by force
  obtain l t ys' where ys: "ys = (l, t) # ys'" using Cons.prems(5) by (cases ys) auto
  let ?tail = "\<lambda>s zs. EscapeKey s @ canonical_loop False zs"
  have "k = l \<and> ?tail s xs = ?tail t ys'"
  proof (rule append_separator_eq)
    show "k @ CHR '':'' # ?tail s xs = l @ CHR '':'' # ?tail t ys'"
      using Cons.prems(1) by (simp only: x ys canonical_loop_Cons)
  qed (use Cons.prems x ys in auto)
  then have k: "k = l" and tails: "?tail s xs = ?tail t ys'" by auto
  have "takeWhile (\<lambda>c. c \<noteq> CHR '':'') (?tail s zs) = EscapeKey s" for s zs
    using EscapeKey_colon [of s]
    by (subst takeWhile_append2) (auto simp: canonical_loop_False)
  then have s: "s = t" using tails EscapeKey_inj by metis
  with tails have "canonical_loop False xs = canonical_loop False ys'" by simp
  then have "xs = ys'"
    using Cons by (auto simp: canonical_loop_False ys split: if_splits)
  then show ?case by (simp add: x ys k s)
qed simp

lemma colon_not_kind_char: "\<not> is_kind_char (CHR '':'')"
  by code_simp

lemma ValidKind_no_colon: "ValidKind kind \<Longrightarrow> CHR '':'' \<notin> set kind"
  using colon_not_kind_char by (auto simp: ValidKind_def list_all_iff)

text \<open>The canonical key of a context other than a single \<^verbatim>\<open>user\<close>.\<close>

lemma make_canonical_key_user:
  "map fst k2k = [''user''] \<Longrightarrow> k2k = [(''user'', make_canonical_key k2k)]"
  by (cases k2k) (auto simp: make_canonical_key_def)

lemma make_canonical_key_loop:
  assumes "map fst k2k \<noteq> [''user'']"
  shows "make_canonical_key k2k = canonical_loop True k2k"
proof (cases "length k2k = 1")
  case True
  then obtain e where e: "k2k = [e]" by (auto simp: length_Suc_conv)
  then have "fst e \<noteq> ''user''" using assms by auto
  then show ?thesis by (cases e) (auto simp: make_canonical_key_def e)
qed (simp add: make_canonical_key_def)

section \<open>Error messages\<close>

lemma Build_error_prefix:
  "errors \<noteq> [] \<Longrightarrow> take 2 (Build_error kind kind_valid key_valid errors) = '', ''"
  by (simp add: Build_error_def stream_over_def)

lemma Build_error_nonempty:
  "\<not> kind_valid \<or> \<not> key_valid \<Longrightarrow> Build_error kind kind_valid key_valid errors \<noteq> []"
  by (auto simp: Build_error_def stream_over_def)

lemma Build_loop_keeps_comma:
  "take 2 errors = '', '' \<Longrightarrow> take 2 (snd (Build_loop b valid errors)) = '', ''"
proof (induction b arbitrary: valid errors)
  case (Cons e b)
  then have "errors \<noteq> []" by auto
  then show ?case
    using Cons by (cases e) (simp add: Let_def Build_error_prefix)
qed simp

lemma Build_loop_comma:
  "errors \<noteq> [] \<Longrightarrow> \<not> kinds_ok b \<Longrightarrow> take 2 (snd (Build_loop b valid errors)) = '', ''"
proof (induction b valid errors rule: Build_loop.induct)
  case (2 kind ab rest valid errors)
  then show ?case
    using Build_loop_keeps_comma [OF Build_error_prefix [OF 2(3)]] by (auto simp: Let_def)
qed simp

lemma Build_loop_twice:
  "\<not> kinds_ok b \<Longrightarrow> \<not> kinds_ok c \<Longrightarrow> take 2 (snd (Build_loop (b @ c) valid errors)) = '', ''"
proof (induction b arbitrary: valid errors)
  case (Cons e b)
  obtain kind ab where e: "e = (kind, ab)" by force
  show ?case
  proof (cases "ValidKind kind \<and> ab_key ab \<noteq> []")
    case True
    then show ?thesis using Cons by (simp add: e Let_def)
  next
    case False
    moreover from False have "take 2 (snd (Build_loop (b @ c) False
        (Build_error kind (ValidKind kind) (ab_key ab \<noteq> []) errors))) = '', ''"
      using Cons.prems(2)
      by (intro Build_loop_comma Build_error_nonempty) (auto simp: kinds_ok_def)
    ultimately show ?thesis by (auto simp: e Let_def)
  qed
qed simp

section \<open>Properties\<close>

text \<open>
  A built context is valid exactly when the builder has a kind, every kind is a
  legal name and every key is non-empty; its kinds, its keys and its attributes are then
  those of the builder, in the order of the kinds.
\<close>

theorem Build_spec:
  assumes "builder_ok b"
  shows "ctx_valid (Build b) = (b \<noteq> [] \<and> (\<forall>(kind, ab)\<in>set b. ValidKind kind \<and> ab_key ab \<noteq> [])) \<and>
    (ctx_valid (Build b) \<longrightarrow>
       ctx_kinds (Build b) = map fst b \<and>
       kinds_to_keys (Build b) = map (\<lambda>(kind, ab). (kind, ab_key ab)) b \<and>
       ctx_attributes (Build b) = map (\<lambda>(kind, ab). (kind, BuildAttributes ab)) b)"
  using assms Build_valid_eq [of b] Build_valid_iff [of b]
  by (auto simp: builder_ok_def kinds_ok_def [symmetric] Let_def)

theorem Build_spec_witness:
  "ctx_valid (Build (Kind ''user'' ''bob'' (Kind ''org'' ''x'' []))) \<and>
   ctx_kinds (Build (Kind ''user'' ''bob'' (Kind ''org'' ''x'' []))) = [''org'', ''user'']"
proof -
  have b: "Kind ''user'' ''bob'' (Kind ''org'' ''x'' []) =
    [(''org'', AttributesBuilder_key ''org'' ''x''), (''user'', AttributesBuilder_key ''user'' ''bob'')]"
    by (simp add: Kind_def omap_emplace_def less_char_def)
  have "ValidKind ''org''" "ValidKind ''user''" by code_simp+
  then show ?thesis
    using Build_spec [of "Kind ''user'' ''bob'' (Kind ''org'' ''x'' [])"]
    by (simp add: builder_ok_Kind) (simp add: b AttributesBuilder_key_def)
qed

text \<open>
  A builder opened on a context that another builder built holds what that builder
  held, and so builds the same context.
\<close>

theorem ContextBuilder_roundtrip:
  assumes "builder_ok b" and "ctx_valid (Build b)"
  shows "map_option Build (ContextBuilder_context (Build b)) = Some (Build b)"
  by (simp add: ContextBuilder_Build [OF assms])

theorem ContextBuilder_roundtrip_witness:
  "map_option Build (ContextBuilder_context (Build (Kind ''user'' ''bob'' [])))
     = Some (Build (Kind ''user'' ''bob'' []))"
proof -
  have "ValidKind ''user''" by code_simp
  then have "ctx_valid (Build (Kind ''user'' ''bob'' []))"
    by (simp add: Build_valid_iff Kind_def omap_emplace_def AttributesBuilder_key_def)
  then show ?thesis
    using ContextBuilder_roundtrip [of "Kind ''user'' ''bob'' []"] by (simp add: builder_ok_Kind)
qed

text \<open>
  C21. The canonical key identifies a context: two valid contexts that are both a single
  \<^verbatim>\<open>user\<close>, or neither, and that have the same canonical key have the same kinds with the
  same keys.
\<close>

theorem canonical_key_inj:
  assumes "builder_ok a" "builder_ok b" "ctx_valid (Build a)" "ctx_valid (Build b)"
    and "(ctx_kinds (Build a) = [''user'']) = (ctx_kinds (Build b) = [''user''])"
    and "canonical_key (Build a) = canonical_key (Build b)"
  shows "kinds_to_keys (Build a) = kinds_to_keys (Build b)"
proof -
  let ?k = "map (\<lambda>(kind, ab). (kind, ab_key ab))"
  have eq: "Build c = (let k2k = ?k c in
     \<lparr>ctx_attributes = map (\<lambda>(kind, ab). (kind, BuildAttributes ab)) c,
      ctx_kinds = map fst c, kinds_to_keys = k2k, ctx_valid = True, ctx_errors = [],
      canonical_key = make_canonical_key k2k\<rparr>)" if "builder_ok c" "ctx_valid (Build c)" for c
    using that Build_valid_eq [of c] by (simp add: builder_ok_def Build_valid_iff)
  have keys: "map fst (?k c) = map fst c" for c :: ContextBuilder by (induction c) auto
  have colon: "\<forall>e\<in>set (?k c). CHR '':'' \<notin> set (fst e)" "?k c \<noteq> []"
    if "ctx_valid (Build c)" for c
    using that ValidKind_no_colon by (auto simp: Build_valid_iff kinds_ok_def)
  have same: "make_canonical_key (?k a) = make_canonical_key (?k b)"
    using assms(6) by (simp add: eq [OF assms(1,3)] eq [OF assms(2,4)] Let_def)
  have "?k a = ?k b"
  proof (cases "map fst a = [''user'']")
    case True
    then have "map fst b = [''user'']"
      using assms(5) by (simp add: eq [OF assms(1,3)] eq [OF assms(2,4)] Let_def)
    with True show ?thesis
      using make_canonical_key_user [of "?k a"] make_canonical_key_user [of "?k b"] same keys
      by metis
  next
    case False
    then have "map fst b \<noteq> [''user'']"
      using assms(5) by (simp add: eq [OF assms(1,3)] eq [OF assms(2,4)] Let_def)
    with False have "canonical_loop True (?k a) = canonical_loop True (?k b)"
      using same make_canonical_key_loop keys by metis
    then show ?thesis
      using colon [OF assms(3)] colon [OF assms(4)] by (intro canonical_loop_inj)
  qed
  then show ?thesis by (simp add: eq [OF assms(1,3)] eq [OF assms(2,4)] Let_def)
qed

theorem canonical_key_inj_witness:
  "kinds_to_keys (Build (Kind ''org'' ''a:b'' [])) =
   kinds_to_keys (Build (with_kind ''org'' (SetName ''Acme'') (Kind ''org'' ''a:b'' [])))"
proof -
  have "canonical_key (Build (Kind ''org'' ''a:b'' [])) =
      canonical_key (Build (with_kind ''org'' (SetName ''Acme'') (Kind ''org'' ''a:b'' [])))"
    and "ctx_valid (Build (Kind ''org'' ''a:b'' []))"
    and "ctx_valid (Build (with_kind ''org'' (SetName ''Acme'') (Kind ''org'' ''a:b'' [])))"
    and "ctx_kinds (Build (Kind ''org'' ''a:b'' [])) = [''org'']"
    and "ctx_kinds (Build (with_kind ''org'' (SetName ''Acme'') (Kind ''org'' ''a:b'' []))) = [''org'']"
    by code_simp+
  then show ?thesis
    by (intro canonical_key_inj) (simp_all add: inv_intros)
qed

text \<open>
  When two kinds of a builder are invalid, the message of the built context starts
  with the separator: the text written for the second kind replaces the beginning of
  the text collected so far instead of following it, so the first message is damaged.
\<close>

theorem Build_errors_overwritten:
  assumes "(kind1, ab1) \<in> set b1" and "\<not> ValidKind kind1 \<or> ab_key ab1 = []"
    and "(kind2, ab2) \<in> set b2" and "\<not> ValidKind kind2 \<or> ab_key ab2 = []"
  shows "take 2 (ctx_errors (Build (b1 @ b2))) = '', ''"
proof -
  have bad: "\<not> kinds_ok b1" "\<not> kinds_ok b2" using assms by (auto simp: kinds_ok_def)
  then have "take 2 (snd (Build_loop (b1 @ b2) True [])) = '', ''" by (rule Build_loop_twice)
  moreover have "\<not> fst (Build_loop (b1 @ b2) True [])"
    using bad by (auto simp: Build_loop_valid kinds_ok_def)
  moreover have "b1 @ b2 \<noteq> []" using assms(1) by auto
  ultimately show ?thesis
    by (auto simp: Build_def Let_def Context_error_def split: prod.splits)
qed

theorem Build_errors_overwritten_witness:
  "take 2 (ctx_errors (Build ([(''a'', AttributesBuilder_key ''a'' [])] @
     [(''b'', AttributesBuilder_key ''b'' [])]))) = '', ''"
  by (rule Build_errors_overwritten [of "''a''" "AttributesBuilder_key ''a'' []" _
        "''b''" "AttributesBuilder_key ''b'' []"])
    (simp_all add: AttributesBuilder_key_def)

end
