(* ===== verification/Data_Model.thy ===== *)
theory Data_Model
  imports Contexts
begin

text \<open>
  The data model of flags and segments (\<^verbatim>\<open>libs/internal/include/launchdarkly/data_model\<close>,
  \<^verbatim>\<open>libs/internal/src/data_model\<close>) and the result of an evaluation
  (\<^verbatim>\<open>libs/common/src/data/evaluation_reason.cpp\<close>, \<^verbatim>\<open>evaluation_detail.cpp\<close>). A strong
  typedef of a string is a string; an \<^verbatim>\<open>ItemDescriptor\<close> is a version with an item, or a
  tombstone.
\<close>

section \<open>Evaluation reasons and details\<close>

datatype ReasonKind =
  kOff | kFallthrough | kTargetMatch | kRuleMatch | kPrerequisiteFailed | kError

datatype ErrorKind =
  kClientNotReady | kUserNotSpecified | kFlagNotFound | kWrongType | kMalformedFlag | kException

datatype BigSegmentsStatus = kNone | kHealthy | kStale | kNotConfigured | kStoreError

record EvaluationReason =
  reason_kind :: ReasonKind
  error_kind :: "ErrorKind option"
  rule_index :: "u64 option"
  rule_id :: "string option"
  prerequisite_key :: "string option"
  in_experiment :: bool
  big_segments_status :: BigSegmentsStatus
  big_segment_status :: "string option"

definition EvaluationReason7 ::
  "ReasonKind \<Rightarrow> ErrorKind option \<Rightarrow> u64 option \<Rightarrow> string option \<Rightarrow> string option \<Rightarrow> bool \<Rightarrow>
   BigSegmentsStatus \<Rightarrow> EvaluationReason" where
  "EvaluationReason7 kind err index rid prereq inexp status =
     \<lparr>reason_kind = kind, error_kind = err, rule_index = index, rule_id = rid,
      prerequisite_key = prereq, in_experiment = inexp, big_segments_status = status,
      big_segment_status = None\<rparr>"

definition EvaluationReason_deprecated ::
  "ReasonKind \<Rightarrow> ErrorKind option \<Rightarrow> u64 option \<Rightarrow> string option \<Rightarrow> string option \<Rightarrow> bool \<Rightarrow>
   string option \<Rightarrow> EvaluationReason" where
  "EvaluationReason_deprecated kind err index rid prereq inexp status =
     \<lparr>reason_kind = kind, error_kind = err, rule_index = index, rule_id = rid,
      prerequisite_key = prereq, in_experiment = inexp, big_segments_status = kNone,
      big_segment_status = status\<rparr>"

definition EvaluationReason_error :: "ErrorKind \<Rightarrow> EvaluationReason" where
  "EvaluationReason_error k = EvaluationReason7 kError (Some k) None None None False kNone"

definition Off :: EvaluationReason where
  "Off = EvaluationReason7 kOff None None None None False kNone"

definition PrerequisiteFailed :: "string \<Rightarrow> EvaluationReason" where
  "PrerequisiteFailed key = EvaluationReason7 kPrerequisiteFailed None None None (Some key) False kNone"

definition TargetMatch :: EvaluationReason where
  "TargetMatch = EvaluationReason7 kTargetMatch None None None None False kNone"

definition Fallthrough :: "bool \<Rightarrow> EvaluationReason" where
  "Fallthrough inexp = EvaluationReason7 kFallthrough None None None None inexp kNone"

definition RuleMatch :: "u64 \<Rightarrow> string option \<Rightarrow> bool \<Rightarrow> EvaluationReason" where
  "RuleMatch index rid inexp = EvaluationReason7 kRuleMatch None (Some index) rid None inexp kNone"

definition MalformedFlag :: EvaluationReason where
  "MalformedFlag = EvaluationReason_error kMalformedFlag"

lemmas reason_defs =
  EvaluationReason7_def EvaluationReason_error_def Off_def PrerequisiteFailed_def TargetMatch_def
  Fallthrough_def RuleMatch_def MalformedFlag_def

record 'a EvaluationDetail =
  detail_value :: 'a
  variation_index :: "u64 option"
  detail_reason :: "EvaluationReason option"

definition EvaluationDetail3 ::
  "'a \<Rightarrow> u64 option \<Rightarrow> EvaluationReason option \<Rightarrow> 'a EvaluationDetail" where
  "EvaluationDetail3 v index reason =
     \<lparr>detail_value = v, variation_index = index, detail_reason = reason\<rparr>"

definition EvaluationDetail_error :: "ErrorKind \<Rightarrow> 'a \<Rightarrow> 'a EvaluationDetail" where
  "EvaluationDetail_error k dflt =
     \<lparr>detail_value = dflt, variation_index = None,
      detail_reason = Some (EvaluationReason_error k)\<rparr>"

text \<open>The constructor from a reason; the value is the default \<^verbatim>\<open>Value\<close>, null.\<close>

definition EvaluationDetail_reason :: "EvaluationReason \<Rightarrow> Value EvaluationDetail" where
  "EvaluationDetail_reason reason =
     \<lparr>detail_value = VNull, variation_index = None, detail_reason = Some reason\<rparr>"

definition IsError :: "'a EvaluationDetail \<Rightarrow> bool" where
  "IsError d \<longleftrightarrow>
     (case detail_reason d of None \<Rightarrow> False | Some r \<Rightarrow> error_kind r \<noteq> None)"

lemmas detail_defs = EvaluationDetail3_def EvaluationDetail_error_def EvaluationDetail_reason_def

section \<open>Clauses\<close>

datatype Op =
    kUnrecognized | kIn | kStartsWith | kEndsWith | kMatches | kContains
  | kLessThan | kLessThanOrEqual | kGreaterThan | kGreaterThanOrEqual
  | kBefore | kAfter | kSemVerEqual | kSemVerLessThan | kSemVerGreaterThan | kSegmentMatch

record Clause =
  clause_op :: Op
  clause_values :: "Value list"
  negate :: bool
  clause_contextKind :: string
  clause_attribute :: AttributeReference

definition IsUser :: "string \<Rightarrow> bool" where
  "IsUser kind \<longleftrightarrow> kind = ''user''"

section \<open>Flags\<close>

datatype RolloutKind = kRolloutUnrecognized | kExperiment | kRollout

record WeightedVariation =
  wv_variation :: i64
  wv_weight :: i64
  untracked :: bool

definition WeightedVariation2 :: "i64 \<Rightarrow> i64 \<Rightarrow> WeightedVariation" where
  "WeightedVariation2 v w = \<lparr>wv_variation = v, wv_weight = w, untracked = False\<rparr>"

definition Untracked :: "i64 \<Rightarrow> i64 \<Rightarrow> WeightedVariation" where
  "Untracked v w = \<lparr>wv_variation = v, wv_weight = w, untracked = True\<rparr>"

definition WeightedVariation0 :: WeightedVariation where
  "WeightedVariation0 = \<lparr>wv_variation = 0, wv_weight = 0, untracked = False\<rparr>"

record Rollout =
  rollout_variations :: "WeightedVariation list"
  rollout_kind :: RolloutKind
  seed :: "i64 option"
  rollout_bucketBy :: AttributeReference
  rollout_contextKind :: string

definition Rollout1 :: "WeightedVariation list \<Rightarrow> Rollout" where
  "Rollout1 vs =
     \<lparr>rollout_variations = vs, rollout_kind = kRollout, seed = None,
      rollout_bucketBy = FromReferenceStr ''key'', rollout_contextKind = ''user''\<rparr>"

datatype VariationOrRollout = VVariation "i64 option" | VRollout Rollout

record Prerequisite =
  prereq_key :: string
  prereq_variation :: i64

record Target =
  target_values :: "string list"
  target_variation :: i64
  target_contextKind :: string

record Rule =
  rule_clauses :: "Clause list"
  variationOrRollout :: VariationOrRollout
  rule_trackEvents :: bool
  flag_rule_id :: "string option"

record Flag =
  flag_key :: string
  flag_version :: u64
  flag_on :: bool
  fallthrough :: VariationOrRollout
  variations :: "Value list"
  prerequisites :: "Prerequisite list"
  targets :: "Target list"
  contextTargets :: "Target list"
  flag_rules :: "Rule list"
  offVariation :: "i64 option"
  clientSide :: bool
  usingMobileKey :: bool
  usingEnvironmentId :: bool
  flag_salt :: "string option"
  trackEvents :: bool
  trackEventsFallthrough :: bool
  debugEventsUntilDate :: "u64 option"

definition IsExperimentationEnabled :: "Flag \<Rightarrow> EvaluationReason option \<Rightarrow> bool" where
  "IsExperimentationEnabled flag reason \<longleftrightarrow>
     (case reason of None \<Rightarrow> False
      | Some r \<Rightarrow>
          if in_experiment r then True
          else (case reason_kind r of
                  kFallthrough \<Rightarrow> trackEventsFallthrough flag
                | kRuleMatch \<Rightarrow>
                    (case rule_index r of
                       None \<Rightarrow> False
                     | Some i \<Rightarrow>
                         if length (flag_rules flag) \<le> unat i then False
                         else rule_trackEvents (flag_rules flag ! unat i))
                | _ \<Rightarrow> False))"

section \<open>Segments\<close>

record SegmentTarget =
  starget_contextKind :: string
  starget_values :: "string list"

record SegmentRule =
  srule_clauses :: "Clause list"
  srule_id :: "string option"
  srule_weight :: "u64 option"
  rolloutContextKind :: string
  srule_bucketBy :: AttributeReference

record Segment =
  segment_key :: string
  segment_version :: u64
  included :: "string list"
  excluded :: "string list"
  includedContexts :: "SegmentTarget list"
  excludedContexts :: "SegmentTarget list"
  segment_rules :: "SegmentRule list"
  segment_salt :: "string option"
  unbounded :: bool
  unboundedContextKind :: "string option"
  generation :: "u64 option"

section \<open>Descriptors, data sets and change sets\<close>

record 'a ItemDescriptor =
  descr_version :: u64
  descr_item :: "'a option"

type_synonym FlagDescriptor = "Flag ItemDescriptor"
type_synonym SegmentDescriptor = "Segment ItemDescriptor"

definition Tombstone :: "u64 \<Rightarrow> 'a ItemDescriptor" where
  "Tombstone v = \<lparr>descr_version = v, descr_item = None\<rparr>"

definition FlagDescriptor_of :: "Flag \<Rightarrow> FlagDescriptor" where
  "FlagDescriptor_of f = \<lparr>descr_version = flag_version f, descr_item = Some f\<rparr>"

definition SegmentDescriptor_of :: "Segment \<Rightarrow> SegmentDescriptor" where
  "SegmentDescriptor_of s = \<lparr>descr_version = segment_version s, descr_item = Some s\<rparr>"

text \<open>
  \<^verbatim>\<open>std::unordered_map\<close> from keys to descriptors: a list of entries with distinct keys,
  in the order in which its iterators happen to visit them.
\<close>

type_synonym 'a Collection = "(string \<times> 'a ItemDescriptor) list"

record SDKDataSet =
  ds_flags :: "Flag Collection"
  ds_segments :: "Segment Collection"

datatype ChangeSetType = kFull | kPartial | kNoChange

record SelectorState =
  sel_version :: i64
  sel_state :: string

type_synonym Selector = "SelectorState option"

record 'a ChangeSet =
  cs_type :: ChangeSetType
  cs_data :: 'a
  cs_selector :: Selector

end
