(* ===== verification/SemVer.thy ===== *)
theory SemVer
  imports Data_Model "HOL-Library.Product_Lexorder"
begin

text \<open>
  Semantic versions (\<^verbatim>\<open>libs/server-sdk/src/evaluation/detail/semver_operations.cpp\<close>): the
  parser, the printer and the comparison operators. The theory also fixes the record of
  the functions outside the sources that evaluation calls. The lemmas show that the
  comparison is the precedence of the semantic versioning specification, a linear order.
\<close>

section \<open>Functions outside the sources\<close>

text \<open>
  What evaluation calls of libraries that are not part of the sources, and the results of
  conversions that C++ leaves undefined:

  \<^item> \<open>sha1\<close>: OpenSSL's digest of a string, 20 bytes;
  \<^item> \<open>regex_search\<close>: \<^verbatim>\<open>boost::regex_search\<close> of a text for a pattern, \<open>None\<close> when the
    pattern does not compile or the search throws;
  \<^item> \<open>regex_match\<close>: \<^verbatim>\<open>boost::regex_match\<close> of a text against a pattern, giving the named
    groups that matched; \<open>None\<close> when there is no match or it throws;
  \<^item> \<open>lexical_cast_u64\<close>: \<^verbatim>\<open>boost::lexical_cast<std::uint64_t>\<close>, \<open>None\<close> when it throws;
  \<^item> \<open>timestamp_parse\<close>: the RFC 3339 parser of the c-timestamp library, seconds and
    nanoseconds;
  \<^item> \<open>cast_int_ub\<close>, \<open>cast_i64_ub\<close>: the result of casting a double that is out of the
    range of the integer type.
\<close>

record env =
  sha1 :: "string \<Rightarrow> 8 word list"
  regex_search :: "string \<Rightarrow> string \<Rightarrow> bool option"
  regex_match :: "string \<Rightarrow> string \<Rightarrow> (string \<Rightarrow> string option) option"
  lexical_cast_u64 :: "string \<Rightarrow> u64 option"
  timestamp_parse :: "string \<Rightarrow> (i64 \<times> 32 word) option"
  cast_int_ub :: "double \<Rightarrow> 32 word"
  cast_i64_ub :: "double \<Rightarrow> i64"

section \<open>Versions\<close>

text \<open>\<^verbatim>\<open>SemVer::Token\<close>, a variant: a number at index 0 or a string at index 1.\<close>

datatype Token = TNum u64 | TStr string

fun token_index :: "Token \<Rightarrow> nat" where
  "token_index (TNum _) = 0"
| "token_index (TStr _) = 1"

fun token_less :: "Token \<Rightarrow> Token \<Rightarrow> bool" where
  "token_less lhs rhs =
     (if token_index lhs \<noteq> token_index rhs then token_index lhs < token_index rhs
      else (case (lhs, rhs) of
              (TNum a, TNum b) \<Rightarrow> a < b
            | (TStr a, TStr b) \<Rightarrow> a < b
            | _ \<Rightarrow> False))"

instantiation Token :: linorder
begin

definition less_Token :: "Token \<Rightarrow> Token \<Rightarrow> bool" where
  "less_Token a b \<longleftrightarrow> token_less a b"

definition less_eq_Token :: "Token \<Rightarrow> Token \<Rightarrow> bool" where
  "less_eq_Token a b \<longleftrightarrow> a = b \<or> token_less a b"

instance
proof
  fix a b c :: Token
  show "(a < b) = (a \<le> b \<and> \<not> b \<le> a)"
    by (cases a; cases b) (auto simp: less_Token_def less_eq_Token_def)
  show "a \<le> a" by (simp add: less_eq_Token_def)
  show "a \<le> b \<Longrightarrow> b \<le> c \<Longrightarrow> a \<le> c"
    by (cases a; cases b; cases c) (auto simp: less_eq_Token_def)
  show "a \<le> b \<Longrightarrow> b \<le> a \<Longrightarrow> a = b"
    by (cases a; cases b) (auto simp: less_eq_Token_def)
  show "a \<le> b \<or> b \<le> a"
    by (cases a; cases b) (auto simp: less_eq_Token_def)
qed

end

record SemVer =
  sv_major :: u64
  sv_minor :: u64
  sv_patch :: u64
  sv_prerelease :: "Token list option"

definition semver_eq :: "SemVer \<Rightarrow> SemVer \<Rightarrow> bool" where
  "semver_eq lhs rhs \<longleftrightarrow>
     sv_major lhs = sv_major rhs \<and> sv_minor lhs = sv_minor rhs \<and>
     sv_patch lhs = sv_patch rhs \<and> sv_prerelease lhs = sv_prerelease rhs"

definition semver_less :: "SemVer \<Rightarrow> SemVer \<Rightarrow> bool" where
  "semver_less lhs rhs \<longleftrightarrow>
     (if sv_major lhs < sv_major rhs then True
      else if sv_major lhs > sv_major rhs then False
      else if sv_minor lhs < sv_minor rhs then True
      else if sv_minor lhs > sv_minor rhs then False
      else if sv_patch lhs < sv_patch rhs then True
      else if sv_patch lhs > sv_patch rhs then False
      else (case (sv_prerelease lhs, sv_prerelease rhs) of
              (None, None) \<Rightarrow> False
            | (Some _, None) \<Rightarrow> True
            | (None, Some _) \<Rightarrow> False
            | (Some p, Some q) \<Rightarrow> p < q))"

definition semver_greater :: "SemVer \<Rightarrow> SemVer \<Rightarrow> bool" where
  "semver_greater lhs rhs \<longleftrightarrow> semver_less rhs lhs"

section \<open>Parsing and printing\<close>

abbreviation backslash :: char where
  "backslash \<equiv> CHR 0x5C"

definition kSemVerRegex :: string where
  "kSemVerRegex =
    ''^(?<major>0|[1-9]'' @ backslash # ''d*)('' @ backslash # ''.(?<minor>0|[1-9]'' @
    backslash # ''d*))?('' @ backslash # ''.(?<patch>0|[1-9]'' @
    backslash # ''d*))?(?:-(?<prerelease>(?:0|[1-9]'' @ backslash # ''d*|'' @
    backslash # ''d*[a-zA-Z-][0-9a-zA-Z-]*)(?:'' @ backslash # ''.(?:0|[1-9]'' @
    backslash # ''d*|'' @ backslash # ''d*[a-zA-Z-][0-9a-zA-Z-]*))*))?(?:'' @
    backslash # ''+([0-9a-zA-Z-]+(?:'' @ backslash # ''.[0-9a-zA-Z-]+)*))?$''"

text \<open>\<^verbatim>\<open>boost::split\<close> at the dots.\<close>

fun split_dot :: "string \<Rightarrow> string list" where
  "split_dot [] = [[]]"
| "split_dot (c # cs) =
     (if c = CHR ''.'' then [] # split_dot cs
      else (case split_dot cs of [] \<Rightarrow> [[c]] | p # ps \<Rightarrow> (c # p) # ps))"

definition parse_token :: "env \<Rightarrow> string \<Rightarrow> Token" where
  "parse_token e token =
     (case lexical_cast_u64 e token of Some n \<Rightarrow> TNum n | None \<Rightarrow> TStr token)"

text \<open>A version field: 0 when its group did not match, \<open>None\<close> when the cast throws.\<close>

definition parse_field :: "env \<Rightarrow> (string \<Rightarrow> string option) \<Rightarrow> string \<Rightarrow> u64 option" where
  "parse_field e m name =
     (case m name of None \<Rightarrow> Some 0 | Some text \<Rightarrow> lexical_cast_u64 e text)"

definition SemVer_Parse :: "env \<Rightarrow> string \<Rightarrow> SemVer option" where
  "SemVer_Parse e text =
     (if text = [] then None
      else
        (case regex_match e text kSemVerRegex of
           None \<Rightarrow> None
         | Some m \<Rightarrow>
             (case parse_field e m ''major'' of None \<Rightarrow> None | Some maj \<Rightarrow>
              (case parse_field e m ''minor'' of None \<Rightarrow> None | Some mnr \<Rightarrow>
               (case parse_field e m ''patch'' of None \<Rightarrow> None | Some pat \<Rightarrow>
                (case m ''prerelease'' of
                   None \<Rightarrow>
                     Some \<lparr>sv_major = maj, sv_minor = mnr, sv_patch = pat, sv_prerelease = None\<rparr>
                 | Some pre \<Rightarrow>
                     Some \<lparr>sv_major = maj, sv_minor = mnr, sv_patch = pat,
                           sv_prerelease = Some (map (parse_token e) (split_dot pre))\<rparr>))))))"

fun token_str :: "Token \<Rightarrow> string" where
  "token_str (TNum n) = nat_str (unat n)"
| "token_str (TStr s) = s"

fun tokens_str :: "Token list \<Rightarrow> string" where
  "tokens_str [] = []"
| "tokens_str (t # ts) = token_str t @ (if ts \<noteq> [] then ''.'' else []) @ tokens_str ts"

definition semver_str :: "SemVer \<Rightarrow> string" where
  "semver_str v =
     nat_str (unat (sv_major v)) @ ''.'' @ nat_str (unat (sv_minor v)) @ ''.'' @
     nat_str (unat (sv_patch v)) @
     (case sv_prerelease v of None \<Rightarrow> [] | Some p \<Rightarrow> ''-'' @ tokens_str p)"

section \<open>Precedence\<close>

text \<open>
  The precedence of the specification: major, minor and patch compared as numbers, a
  version with a pre-release below the one without, then the identifiers of the
  pre-release from left to right, a shorter list below its extensions.
\<close>

definition precedence :: "SemVer \<Rightarrow> u64 \<times> u64 \<times> u64 \<times> bool \<times> Token list" where
  "precedence v =
     (sv_major v, sv_minor v, sv_patch v, sv_prerelease v = None,
      case sv_prerelease v of None \<Rightarrow> [] | Some p \<Rightarrow> p)"

text \<open>
  The comparison of semantic versions is the precedence of the specification: one
  version is less than another exactly when its precedence is less, and equal exactly
  when its precedence is equal. So it is a linear order.
\<close>

theorem semver_less_precedence:
  "semver_less a b = (precedence a < precedence b) \<and>
   semver_eq a b = (precedence a = precedence b)"
  by (cases "sv_prerelease a"; cases "sv_prerelease b")
    (auto simp: semver_less_def semver_eq_def precedence_def less_prod_def)

end
