(* ===== verification/Operators.thy ===== *)
theory Operators
  imports SemVer
begin

text \<open>
  The clause operators (\<^verbatim>\<open>libs/server-sdk/src/evaluation/operators.cpp\<close>) and the
  conversion of values to points in time (\<^verbatim>\<open>detail/timestamp_operations.cpp\<close>). The
  lemmas characterise the string operators and relate the operators that are each
  other's converse.
\<close>

section \<open>Points in time\<close>

text \<open>
  A time point is the 64-bit signed count of nanoseconds that libstdc++ keeps for
  \<^verbatim>\<open>std::chrono::system_clock\<close>; a count that does not fit wraps around.
\<close>

type_synonym Timepoint = i64

fun cast_i64 :: "env \<Rightarrow> double \<Rightarrow> i64" where
  "cast_i64 e (Fin x) =
     (if - (2 ^ 63) \<le> rat_trunc x \<and> rat_trunc x < 2 ^ 63 then word_of_int (rat_trunc x)
      else cast_i64_ub e (Fin x))"
| "cast_i64 e d = cast_i64_ub e d"

definition MillisecondsToTimepoint :: "env \<Rightarrow> double \<Rightarrow> Timepoint option" where
  "MillisecondsToTimepoint e ms =
     (if double_less ms (Fin 0) then None
      else if double_eq (double_trunc ms) ms then Some (cast_i64 e ms * 1000000)
      else None)"

definition RFC3339ToTimepoint :: "env \<Rightarrow> string \<Rightarrow> Timepoint option" where
  "RFC3339ToTimepoint e timestamp =
     (if timestamp = [] then None
      else (case timestamp_parse e timestamp of
              None \<Rightarrow> None
            | Some (sec, nsec) \<Rightarrow> Some (0 + sec * 1000000000 + scast nsec)))"

definition ToTimepoint :: "env \<Rightarrow> Value \<Rightarrow> Timepoint option" where
  "ToTimepoint e v =
     (if Type v = kNumber then MillisecondsToTimepoint e (AsDouble v)
      else if Type v = kString then RFC3339ToTimepoint e (AsString v)
      else None)"

section \<open>Operators\<close>

definition StringOp :: "Value \<Rightarrow> Value \<Rightarrow> (string \<Rightarrow> string \<Rightarrow> bool) \<Rightarrow> bool" where
  "StringOp context_value clause_value op \<longleftrightarrow>
     (if \<not> (Type context_value = kString \<and> Type clause_value = kString) then False
      else op (AsString context_value) (AsString clause_value))"

definition SemverOp :: "env \<Rightarrow> Value \<Rightarrow> Value \<Rightarrow> (SemVer \<Rightarrow> SemVer \<Rightarrow> bool) \<Rightarrow> bool" where
  "SemverOp e context_value clause_value op \<longleftrightarrow>
     StringOp context_value clause_value
       (\<lambda>ctx cls.
          (case SemVer_Parse e ctx of
             None \<Rightarrow> False
           | Some context_semver \<Rightarrow>
               (case SemVer_Parse e cls of
                  None \<Rightarrow> False
                | Some clause_semver \<Rightarrow> op context_semver clause_semver)))"

definition TimeOp :: "env \<Rightarrow> Value \<Rightarrow> Value \<Rightarrow> (Timepoint \<Rightarrow> Timepoint \<Rightarrow> bool) \<Rightarrow> bool" where
  "TimeOp e context_value clause_value op \<longleftrightarrow>
     (case ToTimepoint e context_value of
        None \<Rightarrow> False
      | Some context_tp \<Rightarrow>
          (case ToTimepoint e clause_value of
             None \<Rightarrow> False
           | Some clause_tp \<Rightarrow> op context_tp clause_tp))"

text \<open>\<^verbatim>\<open>std::equal\<close> of a range with the beginning of another that is at least as long.\<close>

fun std_equal :: "'a list \<Rightarrow> 'a list \<Rightarrow> bool" where
  "std_equal [] ys \<longleftrightarrow> True"
| "std_equal (x # xs) (y # ys) \<longleftrightarrow> x = y \<and> std_equal xs ys"
| "std_equal (x # xs) [] \<longleftrightarrow> False"

definition StartsWith :: "string \<Rightarrow> string \<Rightarrow> bool" where
  "StartsWith context_value clause_value \<longleftrightarrow>
     length clause_value \<le> length context_value \<and> std_equal clause_value context_value"

definition EndsWith :: "string \<Rightarrow> string \<Rightarrow> bool" where
  "EndsWith context_value clause_value \<longleftrightarrow>
     length clause_value \<le> length context_value \<and>
     std_equal (rev clause_value) (rev context_value)"

text \<open>\<^verbatim>\<open>std::string::find\<close>: the first position at which the other string occurs.\<close>

fun string_find :: "string \<Rightarrow> string \<Rightarrow> nat option" where
  "string_find [] sub = (if sub = [] then Some 0 else None)"
| "string_find (c # cs) sub =
     (if std_equal sub (c # cs) then Some 0 else map_option Suc (string_find cs sub))"

definition StringContains :: "string \<Rightarrow> string \<Rightarrow> bool" where
  "StringContains context_value clause_value \<longleftrightarrow> string_find context_value clause_value \<noteq> None"

definition RegexMatch :: "env \<Rightarrow> string \<Rightarrow> string \<Rightarrow> bool" where
  "RegexMatch e context_value clause_value \<longleftrightarrow>
     (case regex_search e context_value clause_value of Some found \<Rightarrow> found | None \<Rightarrow> False)"

definition OpMatch :: "env \<Rightarrow> Op \<Rightarrow> Value \<Rightarrow> Value \<Rightarrow> bool" where
  "OpMatch e op context_value clause_value \<longleftrightarrow>
     (case op of
        kIn \<Rightarrow> value_eq context_value clause_value
      | kStartsWith \<Rightarrow> StringOp context_value clause_value StartsWith
      | kEndsWith \<Rightarrow> StringOp context_value clause_value EndsWith
      | kMatches \<Rightarrow> StringOp context_value clause_value (RegexMatch e)
      | kContains \<Rightarrow> StringOp context_value clause_value StringContains
      | kLessThan \<Rightarrow> value_less context_value clause_value
      | kLessThanOrEqual \<Rightarrow> value_le context_value clause_value
      | kGreaterThan \<Rightarrow> value_greater context_value clause_value
      | kGreaterThanOrEqual \<Rightarrow> value_ge context_value clause_value
      | kBefore \<Rightarrow> TimeOp e context_value clause_value (\<lambda>lhs rhs. sint lhs < sint rhs)
      | kAfter \<Rightarrow> TimeOp e context_value clause_value (\<lambda>lhs rhs. sint lhs > sint rhs)
      | kSemVerEqual \<Rightarrow> SemverOp e context_value clause_value semver_eq
      | kSemVerLessThan \<Rightarrow> SemverOp e context_value clause_value semver_less
      | kSemVerGreaterThan \<Rightarrow> SemverOp e context_value clause_value semver_greater
      | _ \<Rightarrow> False)"

section \<open>Facts\<close>

lemma std_equal_prefix: "std_equal xs ys \<longleftrightarrow> (\<exists>zs. ys = xs @ zs)"
  by (induction xs ys rule: std_equal.induct) auto

lemma StartsWith_iff: "StartsWith s p \<longleftrightarrow> (\<exists>r. s = p @ r)"
  by (auto simp: StartsWith_def std_equal_prefix)

lemma EndsWith_iff: "EndsWith s p \<longleftrightarrow> (\<exists>r. s = r @ p)"
proof
  assume "EndsWith s p"
  then obtain r where "rev s = rev p @ r" by (auto simp: EndsWith_def std_equal_prefix)
  then have "s = rev r @ p" by (metis rev_append rev_rev_ident)
  then show "\<exists>r. s = r @ p" by blast
qed (auto simp: EndsWith_def std_equal_prefix)

lemma string_find_iff: "string_find s p \<noteq> None \<longleftrightarrow> (\<exists>l r. s = l @ p @ r)"
proof (induction s p rule: string_find.induct)
  case (2 c cs sub)
  show ?case
  proof (cases "std_equal sub (c # cs)")
    case True
    then show ?thesis by (force simp: std_equal_prefix)
  next
    case False
    then have "(\<exists>l r. c # cs = l @ sub @ r) \<longleftrightarrow> (\<exists>l r. cs = l @ sub @ r)"
      by (auto simp: std_equal_prefix Cons_eq_append_conv)
    then show ?thesis using 2 False by auto
  qed
qed auto

lemma StringContains_iff: "StringContains s p \<longleftrightarrow> (\<exists>l r. s = l @ p @ r)"
  by (simp only: StringContains_def string_find_iff)

text \<open>
  The string operators are what their names say: \<^verbatim>\<open>startsWith\<close> holds exactly for a
  prefix, \<^verbatim>\<open>endsWith\<close> exactly for a suffix and \<^verbatim>\<open>contains\<close> exactly for a substring of the
  context's string, and none of them holds for a value that is not a string.
\<close>

theorem string_operators_spec:
  "OpMatch e kStartsWith v w = (\<exists>s p r. v = VString s \<and> w = VString p \<and> s = p @ r) \<and>
   OpMatch e kEndsWith v w = (\<exists>s p l. v = VString s \<and> w = VString p \<and> s = l @ p) \<and>
   OpMatch e kContains v w = (\<exists>s p l r. v = VString s \<and> w = VString p \<and> s = l @ p @ r)"
  by (cases v; cases w)
    (auto simp: OpMatch_def StringOp_def AsString_def StartsWith_iff EndsWith_iff
      StringContains_iff)

text \<open>
  The comparison operators come in converse pairs, for numbers, times and versions:
  one holds of two values exactly when the other holds of the values exchanged.
\<close>

theorem operators_converse:
  "OpMatch e kLessThan v w = OpMatch e kGreaterThan w v \<and>
   OpMatch e kLessThanOrEqual v w = OpMatch e kGreaterThanOrEqual w v \<and>
   OpMatch e kBefore v w = OpMatch e kAfter w v \<and>
   OpMatch e kSemVerLessThan v w = OpMatch e kSemVerGreaterThan w v \<and>
   OpMatch e kSemVerEqual v w = OpMatch e kSemVerEqual w v"
  by (auto simp: OpMatch_def value_less_def value_greater_def value_le_def value_ge_def
      BothNumbers_def TimeOp_def SemverOp_def StringOp_def semver_greater_def semver_eq_def
      split: option.splits)

end
