(* ===== verification/Bucketing.thy ===== *)
theory Bucketing
  imports Operators
begin

text \<open>
  Bucketing (\<^verbatim>\<open>libs/server-sdk/src/evaluation/bucketing.cpp\<close>, \<^verbatim>\<open>evaluation_error.cpp\<close> and
  \<^verbatim>\<open>libs/internal/include/launchdarkly/encoding/base_16.hpp\<close>): the hash of a context's
  attribute as a double, and the choice of a variation by comparing it with the running
  sum of the weights. The lemmas bound the hash, say which variation is chosen, and show
  that giving the first variation more weight never takes a context out of it.
\<close>

section \<open>Errors\<close>

datatype Error =
    CyclicSegmentReference string
  | CyclicPrerequisiteReference string
  | MissingSalt string
  | RolloutMissingVariations
  | InvalidAttributeReference string
  | NonexistentVariationIndex i64

section \<open>Hexadecimal\<close>

definition hex_digit :: "nat \<Rightarrow> char" where
  "hex_digit d = (if d < 10 then char_of (48 + d) else char_of (87 + d))"

definition hex_byte :: "8 word \<Rightarrow> string" where
  "hex_byte b = [hex_digit (unat b div 16), hex_digit (unat b mod 16)]"

definition Base16Encode :: "8 word list \<Rightarrow> string" where
  "Base16Encode arr = concat (map hex_byte arr)"

definition hex_value :: "char \<Rightarrow> nat option" where
  "hex_value c =
     (let n = of_char c :: nat in
      if 48 \<le> n \<and> n \<le> 57 then Some (n - 48)
      else if 97 \<le> n \<and> n \<le> 102 then Some (n - 87)
      else if 65 \<le> n \<and> n \<le> 70 then Some (n - 55)
      else None)"

text \<open>
  \<^verbatim>\<open>std::stoull(s, nullptr, 16)\<close> on a string that starts with no space, sign or
  \<^verbatim>\<open>0x\<close>: the value of the longest prefix of digits; it throws when that prefix is empty
  and when the value does not fit. Its argument here is always an output of
  \<open>Base16Encode\<close>.
\<close>

fun hex_prefix :: "nat \<Rightarrow> string \<Rightarrow> nat" where
  "hex_prefix acc [] = acc"
| "hex_prefix acc (c # cs) =
     (case hex_value c of Some d \<Rightarrow> hex_prefix (16 * acc + d) cs | None \<Rightarrow> acc)"

definition stoull16 :: "string \<Rightarrow> u64 option" where
  "stoull16 s =
     (case s of
        [] \<Rightarrow> None
      | c # cs \<Rightarrow>
          if hex_value c = None then None
          else (let n = hex_prefix 0 s in if n < 2 ^ 64 then Some (of_nat n) else None))"

section \<open>The hash of a context\<close>

definition kBucketHashScale :: rat where
  "kBucketHashScale = round_f64 (of_nat (16 ^ 15 - 1))"

definition kBucketScale :: rat where
  "kBucketScale = 100000"

datatype RolloutKindLookup = kPresent | kAbsent

datatype BucketPrefix = PKeyAndSalt string string | PSeed i64

fun prefix_str :: "BucketPrefix \<Rightarrow> string" where
  "prefix_str (PKeyAndSalt key salt) = key @ ''.'' @ salt"
| "prefix_str (PSeed s) = int_str (sint s)"

definition KeyRef :: AttributeReference where
  "KeyRef = FromReferenceStr ''key''"

definition IsIntegral :: "double \<Rightarrow> bool" where
  "IsIntegral f \<longleftrightarrow> double_eq (double_trunc f) f"

definition BucketValue :: "env \<Rightarrow> Value \<Rightarrow> string option" where
  "BucketValue e v =
     (case Type v of
        kString \<Rightarrow> Some (AsString v)
      | kNumber \<Rightarrow>
          if IsIntegral (AsDouble v) then Some (int_str (sint (AsInt (cast_int_ub e) v))) else None
      | _ \<Rightarrow> None)"

definition ContextHash :: "env \<Rightarrow> Value \<Rightarrow> BucketPrefix \<Rightarrow> double option" where
  "ContextHash e v prefix =
     (case BucketValue e v of
        None \<Rightarrow> None
      | Some ident \<Rightarrow>
          (let sha1hash = sha1 e (prefix_str prefix @ ''.'' @ ident);
               first_15 = take 15 (Base16Encode sha1hash)
           in case stoull16 first_15 of
                None \<Rightarrow> None
              | Some as_number \<Rightarrow> Some (double_div (of_u64 as_number) kBucketHashScale)))"

definition Bucket ::
  "env \<Rightarrow> Context \<Rightarrow> AttributeReference \<Rightarrow> BucketPrefix \<Rightarrow> bool \<Rightarrow> string \<Rightarrow>
   Error + double \<times> RolloutKindLookup" where
  "Bucket e ctx by_attr prefix is_experiment context_kind =
     (let ref = (if is_experiment then KeyRef else by_attr) in
      if \<not> ref_valid ref then Inl (InvalidAttributeReference (redaction_name ref))
      else
        (let v = Context_Get ctx context_kind ref in
         if Type v = kNumber \<or> Type v = kString then
           Inr (case ContextHash e v prefix of Some h \<Rightarrow> h | None \<Rightarrow> Fin 0, kPresent)
         else
           Inr (Fin 0, if context_kind \<in> set (ctx_kinds ctx) then kPresent else kAbsent)))"

section \<open>The choice of a variation\<close>

record BucketResult =
  VariationIndex :: u64
  InExperiment :: bool

definition BucketResult_weighted :: "WeightedVariation \<Rightarrow> bool \<Rightarrow> BucketResult" where
  "BucketResult_weighted wv is_experiment =
     \<lparr>VariationIndex = wv_variation wv, InExperiment = (is_experiment \<and> \<not> untracked wv)\<rparr>"

definition BucketResult_variation :: "i64 \<Rightarrow> BucketResult" where
  "BucketResult_variation v = \<lparr>VariationIndex = v, InExperiment = False\<rparr>"

definition of_i64 :: "i64 \<Rightarrow> double" where
  "of_i64 w = to_double (of_int (sint w))"

text \<open>
  The loop over the weighted variations; \<open>dflt\<close> is \<^verbatim>\<open>variations.back()\<close>, which the code
  returns when the sum never exceeds the bucket.
\<close>

fun Variation_loop ::
  "double \<Rightarrow> double \<Rightarrow> WeightedVariation \<Rightarrow> WeightedVariation list \<Rightarrow> WeightedVariation" where
  "Variation_loop bucket acc dflt [] = dflt"
| "Variation_loop bucket acc dflt (wv # rest) =
     (let acc' = double_add acc (double_div (of_i64 (wv_weight wv)) kBucketScale) in
      if double_less bucket acc' then wv else Variation_loop bucket acc' dflt rest)"

definition Variation ::
  "env \<Rightarrow> VariationOrRollout \<Rightarrow> string \<Rightarrow> Context \<Rightarrow> string option \<Rightarrow> Error + BucketResult" where
  "Variation e vr key ctx salt =
     (case salt of
        None \<Rightarrow> Inl (MissingSalt key)
      | Some slt \<Rightarrow>
          (case vr of
             VVariation None \<Rightarrow> Inl RolloutMissingVariations
           | VVariation (Some v) \<Rightarrow> Inr (BucketResult_variation v)
           | VRollout ro \<Rightarrow>
               if rollout_variations ro = [] then Inl RolloutMissingVariations
               else
                 (let is_experiment = (rollout_kind ro = kExperiment);
                      prefix = (case seed ro of Some s \<Rightarrow> PSeed s | None \<Rightarrow> PKeyAndSalt key slt)
                  in case Bucket e ctx (rollout_bucketBy ro) prefix is_experiment
                            (rollout_contextKind ro) of
                       Inl err \<Rightarrow> Inl err
                     | Inr (bucket, lookup) \<Rightarrow>
                         Inr (BucketResult_weighted
                                (Variation_loop bucket (Fin 0) (last (rollout_variations ro))
                                   (rollout_variations ro))
                                (is_experiment \<and> lookup = kPresent)))))"

section \<open>The range of the hash\<close>

lemma hex_value_less: "hex_value c = Some d \<Longrightarrow> d < 16"
  by (auto simp: hex_value_def Let_def split: if_splits)

lemma hex_prefix_less:
  "hex_prefix acc s < (acc + 1) * 16 ^ length s"
proof (induction acc s rule: hex_prefix.induct)
  case (2 acc c cs)
  have pow: "(1 :: nat) \<le> 16 ^ length cs" by simp
  show ?case
  proof (cases "hex_value c")
    case None
    have "(acc + 1) * 1 \<le> (acc + 1) * (16 * 16 ^ length cs)"
      using pow by (intro mult_le_mono) simp_all
    then have "acc < (acc + 1) * (16 * 16 ^ length cs)" by simp
    then show ?thesis by (simp add: None)
  next
    case (Some d)
    then have "16 * acc + d + 1 \<le> (acc + 1) * 16" using hex_value_less by fastforce
    then have "(16 * acc + d + 1) * 16 ^ length cs \<le> ((acc + 1) * 16) * 16 ^ length cs"
      by (rule mult_le_mono1)
    then have "hex_prefix (16 * acc + d) cs < (acc + 1) * 16 * 16 ^ length cs"
      using 2 [OF Some] by (rule less_le_trans [rotated])
    then show ?thesis by (simp add: Some algebra_simps)
  qed
qed simp

lemma stoull16_less:
  assumes "stoull16 s = Some n" and "length s \<le> 15"
  shows "uint n < 2 ^ 60"
proof -
  have n: "n = of_nat (hex_prefix 0 s)" and lt: "hex_prefix 0 s < 2 ^ 64"
    using assms(1) by (auto simp: stoull16_def Let_def split: list.splits if_splits)
  have "hex_prefix 0 s < 16 ^ length s" using hex_prefix_less [of 0 s] by simp
  also have "(16 :: nat) ^ length s \<le> 16 ^ 15" using assms(2) by (intro power_increasing) auto
  finally have less: "hex_prefix 0 s < 2 ^ 60" by simp
  have "uint n = int (hex_prefix 0 s)"
    using lt by (simp add: n uint_nat unat_of_nat take_bit_nat_eq_self)
  also have "\<dots> < int (2 ^ 60)" using less by (simp only: of_nat_less_iff)
  finally show ?thesis by simp
qed

lemma kBucketHashScale_value: "kBucketHashScale = 2 powi 60"
proof -
  let ?x = "2 ^ 60 - 1 :: rat"
  have x: "of_nat (16 ^ 15 - 1) = ?x" by simp
  have "binary_exponent ?x = 59"
    by (rule binary_exponent_eqI) simp_all
  then have ulp: "ulp_exponent ?x = 7" by (simp add: ulp_exponent_def)
  have "\<lfloor>?x / 2 ^ 7\<rfloor> = 2 ^ 53 - 1" by (simp add: floor_eq_iff)
  then have "round_half_even (?x / 2 ^ 7) = 2 ^ 53"
    by (simp add: round_half_even_def Let_def)
  then have "round_pos ?x = 2 ^ 53 * 2 ^ 7"
    unfolding round_pos_def ulp by simp
  then show ?thesis
    unfolding kBucketHashScale_def round_f64_def x by simp
qed

lemma ContextHash_range:
  assumes "ContextHash e v prefix = Some h"
  shows "\<exists>q. h = Fin q \<and> 0 \<le> q \<and> q \<le> 1"
proof -
  obtain s n where n: "stoull16 (take 15 s) = Some n"
    and h: "h = double_div (of_u64 n) kBucketHashScale"
    using assms by (auto simp: ContextHash_def Let_def split: option.splits)
  let ?x = "of_int (uint n) :: rat" and ?s = "2 powi 60 :: rat"
  have "uint n < 2 ^ 60" using stoull16_less [OF n] by simp
  then have "?x < of_int (2 ^ 60)" by (subst of_int_less_iff)
  then have "round_f64 ?x \<le> ?s" by (intro f64.rnd_le_power) simp_all
  moreover have "0 \<le> ?x" by (subst of_int_0_le_iff) simp
  then have "0 \<le> round_f64 ?x" by (rule f64.rnd_nonneg)
  ultimately have q: "0 \<le> round_f64 ?x / ?s" "round_f64 ?x / ?s \<le> 1"
    by (simp_all add: divide_le_eq)
  have "(1 :: rat) \<le> 2 powi 1023" by (rule one_le_power_int) simp_all
  then have "h = Fin (round_f64 (round_f64 ?x / ?s))"
    using q by (simp only: h of_u64_Fin kBucketHashScale_value double_div.simps)
      (intro to_double_Fin, linarith)
  then show ?thesis
    using f64.rnd_nonneg [OF q(1)] f64.rnd_le_one [OF q(2)] by blast
qed

lemma Bucket_range:
  assumes "Bucket e ctx by_attr prefix is_experiment kind = Inr (h, lookup)"
  shows "\<exists>q. h = Fin q \<and> 0 \<le> q \<and> q \<le> 1"
  using assms ContextHash_range
  by (fastforce simp: Bucket_def Let_def split: if_splits option.splits)

section \<open>Which variation is chosen\<close>

text \<open>The running sums that the bucket is compared with.\<close>

fun running_sums :: "double \<Rightarrow> WeightedVariation list \<Rightarrow> double list" where
  "running_sums acc [] = []"
| "running_sums acc (wv # rest) =
     (let acc' = double_add acc (double_div (of_i64 (wv_weight wv)) kBucketScale) in
      acc' # running_sums acc' rest)"

lemma length_running_sums [simp]: "length (running_sums acc wvs) = length wvs"
  by (induction wvs arbitrary: acc) (auto simp: Let_def)

text \<open>The position of the first running sum above the bucket.\<close>

definition bucket_position :: "double \<Rightarrow> WeightedVariation list \<Rightarrow> nat" where
  "bucket_position bucket wvs =
     length (takeWhile (\<lambda>s. \<not> double_less bucket s) (running_sums (Fin 0) wvs))"

lemma Variation_loop_position:
  "Variation_loop bucket acc dflt wvs =
     (let i = length (takeWhile (\<lambda>s. \<not> double_less bucket s) (running_sums acc wvs)) in
      if i < length wvs then wvs ! i else dflt)"
  by (induction bucket acc dflt wvs rule: Variation_loop.induct) (auto simp: Let_def)

lemma sint_bound_i64: "\<bar>of_int (sint (w :: i64)) :: rat\<bar> \<le> 2 powi 63"
proof -
  have "- (2 ^ 63) \<le> sint w" "sint w < 2 ^ 63"
    using sint_ge [of w] sint_lt [of w] by simp_all
  then have "(of_int (- (2 ^ 63)) :: rat) \<le> of_int (sint w)"
    and "(of_int (sint w) :: rat) \<le> of_int (2 ^ 63)"
    by (simp_all only: of_int_le_iff)
  then show ?thesis by simp
qed

lemma weight_double:
  "double_div (of_i64 w) kBucketScale = Fin (round_f64 (round_f64 (of_int (sint w)) / 100000))"
proof -
  have mono: "(2 :: rat) powi 63 \<le> 2 powi 1023" by (intro power_int_increasing) auto
  have of: "of_i64 w = Fin (round_f64 (of_int (sint w)))"
    unfolding of_i64_def using sint_bound_i64 [of w] mono by (intro to_double_Fin) linarith
  have up: "round_f64 (of_int (sint w)) \<le> 2 powi 63"
    using sint_bound_i64 [of w] by (intro f64.rnd_le_power) (simp_all add: abs_le_iff)
  have "round_f64 (- (2 powi 63)) \<le> round_f64 (of_int (sint w))"
    using sint_bound_i64 [of w] by (intro f64.rnd_mono) (simp add: abs_le_iff minus_le_iff)
  moreover have "round_f64 (- (2 powi 63)) = - round_f64 (2 powi 63)"
    by (simp add: round_f64_def)
  ultimately have "\<bar>round_f64 (of_int (sint w))\<bar> \<le> 2 powi 63"
    using up f64.rnd_power [of 63] by linarith
  then have "\<bar>round_f64 (of_int (sint w)) / 100000\<bar> \<le> 2 powi 1023"
    using mono by (simp add: abs_divide)
  then show ?thesis by (simp add: of kBucketScale_def to_double_Fin)
qed

lemma first_sum:
  "double_add (Fin 0) (double_div (of_i64 w) kBucketScale) =
     to_double (round_f64 (round_f64 (of_int (sint w)) / 100000))"
  by (simp add: weight_double)

lemma to_double_mono:
  assumes "x \<le> y" and "double_less d (to_double x)"
  shows "double_less d (to_double y)"
  using assms(2) f64.rnd_mono [OF assms(1)]
  by (cases d) (auto simp: to_double_def Let_def split: if_splits)

lemma first_sum_mono:
  assumes "sint w \<le> sint w'" and "double_less d (double_add (Fin 0) (double_div (of_i64 w) kBucketScale))"
  shows "double_less d (double_add (Fin 0) (double_div (of_i64 w') kBucketScale))"
proof -
  have "(of_int (sint w) :: rat) \<le> of_int (sint w')"
    by (rule of_int_le_iff [THEN iffD2, OF assms(1)])
  then have "round_f64 (of_int (sint w)) / 100000 \<le> round_f64 (of_int (sint w')) / 100000"
    by (intro divide_right_mono f64.rnd_mono) simp_all
  then show ?thesis
    using assms(2) unfolding first_sum by (rule to_double_mono [OF f64.rnd_mono])
qed

lemma Variation_rollout:
  assumes "rollout_variations ro \<noteq> []"
    and "Bucket e ctx (rollout_bucketBy ro)
      (case seed ro of Some s \<Rightarrow> PSeed s | None \<Rightarrow> PKeyAndSalt key slt)
      (rollout_kind ro = kExperiment) (rollout_contextKind ro) = Inr (bucket, lookup)"
  shows "Variation e (VRollout ro) key ctx (Some slt) =
    Inr (BucketResult_weighted
      (Variation_loop bucket (Fin 0) (last (rollout_variations ro)) (rollout_variations ro))
      (rollout_kind ro = kExperiment \<and> lookup = kPresent))"
  using assms by (simp add: Variation_def Let_def)

lemma Variation_rolloutE:
  assumes "Variation e (VRollout ro) key ctx salt = Inr r"
  obtains slt bucket lookup where "salt = Some slt" "rollout_variations ro \<noteq> []"
    "Bucket e ctx (rollout_bucketBy ro)
      (case seed ro of Some s \<Rightarrow> PSeed s | None \<Rightarrow> PKeyAndSalt key slt)
      (rollout_kind ro = kExperiment) (rollout_contextKind ro) = Inr (bucket, lookup)"
    "r = BucketResult_weighted
      (Variation_loop bucket (Fin 0) (last (rollout_variations ro)) (rollout_variations ro))
      (rollout_kind ro = kExperiment \<and> lookup = kPresent)"
  using assms by (auto simp: Variation_def Let_def split: option.splits if_splits sum.splits)

section \<open>Properties\<close>

text \<open>
  The bucket of a context is a finite double between 0 and 1, both included, whatever
  the digest is.
\<close>

theorem Bucket_in_unit_interval:
  assumes "Bucket e ctx by_attr prefix is_experiment kind = Inr (bucket, lookup)"
  shows "\<exists>q. bucket = Fin q \<and> 0 \<le> q \<and> q \<le> 1"
  using assms by (rule Bucket_range)

text \<open>An environment and a context to run the definitions on.\<close>

definition sample_env :: env where
  "sample_env =
     \<lparr>sha1 = (\<lambda>s. replicate 20 0), regex_search = (\<lambda>_ _. None), regex_match = (\<lambda>_ _. None),
      lexical_cast_u64 = (\<lambda>_. None), timestamp_parse = (\<lambda>_. None),
      cast_int_ub = (\<lambda>_. 0), cast_i64_ub = (\<lambda>_. 0)\<rparr>"

definition sample_context :: Context where
  "sample_context = Build (Kind ''user'' ''bob'' [])"

definition sample_rollout :: "i64 \<Rightarrow> Rollout" where
  "sample_rollout w = Rollout1 [WeightedVariation2 0 w, WeightedVariation2 1 0]"

lemma sample_hash: "ContextHash sample_env (VString ''bob'') prefix = Some (Fin 0)"
proof -
  have "hex_byte 0 = ''00''" and zero: "hex_value (CHR ''0'') = Some 0" by code_simp+
  then have "take 15 (Base16Encode (replicate 20 0)) = ''000000000000000''"
    by (simp add: Base16Encode_def numeral_eq_Suc)
  then have "stoull16 (take 15 (Base16Encode (replicate 20 0))) = Some 0"
    by (simp add: stoull16_def zero)
  then show ?thesis
    by (simp add: ContextHash_def BucketValue_def sample_env_def AsString_def of_u64_Fin
        to_double_unit Let_def)
qed

lemma sample_bucket:
  "Bucket sample_env sample_context KeyRef prefix b ''user'' = Inr (Fin 0, kPresent)"
proof -
  have "ref_valid KeyRef" and "Context_Get sample_context ''user'' KeyRef = VString ''bob''"
    by code_simp+
  then show ?thesis by (simp add: Bucket_def Let_def sample_hash)
qed

lemma sample_weight: "double_add (Fin 0) (double_div (of_i64 100000) kBucketScale) = Fin 1"
  by (simp add: first_sum to_double_unit f64.rnd_numeral)

lemma sample_Variation:
  "Variation sample_env (VRollout (sample_rollout 100000)) ''f'' sample_context (Some ''s'') =
     Inr \<lparr>VariationIndex = 0, InExperiment = False\<rparr>"
  using sample_bucket sample_weight
  by (simp add: Variation_def sample_rollout_def Rollout1_def WeightedVariation2_def Let_def
      BucketResult_weighted_def flip: KeyRef_def)

theorem Bucket_in_unit_interval_witness:
  "\<exists>q. Fin 0 = Fin q \<and> 0 \<le> q \<and> q \<le> 1"
  using Bucket_in_unit_interval [OF sample_bucket [of "PKeyAndSalt ''f'' ''s''" False]] .

text \<open>
  C22. A rollout that succeeds chooses the variation at the first position whose running
  sum of weights exceeds the bucket, and the last variation when no sum does; the result
  counts as part of an experiment only when the rollout is one, the context has its kind,
  and the variation is tracked.
\<close>

theorem Variation_rollout_spec:
  assumes "Variation e (VRollout ro) key ctx salt = Inr r"
  shows "\<exists>slt bucket lookup i.
    salt = Some slt \<and>
    Bucket e ctx (rollout_bucketBy ro)
      (case seed ro of Some s \<Rightarrow> PSeed s | None \<Rightarrow> PKeyAndSalt key slt)
      (rollout_kind ro = kExperiment) (rollout_contextKind ro) = Inr (bucket, lookup) \<and>
    i = min (bucket_position bucket (rollout_variations ro)) (length (rollout_variations ro) - 1) \<and>
    i < length (rollout_variations ro) \<and>
    VariationIndex r = wv_variation (rollout_variations ro ! i) \<and>
    InExperiment r = (rollout_kind ro = kExperiment \<and> lookup = kPresent \<and>
      \<not> untracked (rollout_variations ro ! i))"
proof -
  obtain slt bucket lookup where r: "salt = Some slt" and ne: "rollout_variations ro \<noteq> []"
    and b: "Bucket e ctx (rollout_bucketBy ro)
      (case seed ro of Some s \<Rightarrow> PSeed s | None \<Rightarrow> PKeyAndSalt key slt)
      (rollout_kind ro = kExperiment) (rollout_contextKind ro) = Inr (bucket, lookup)"
    and res: "r = BucketResult_weighted
      (Variation_loop bucket (Fin 0) (last (rollout_variations ro)) (rollout_variations ro))
      (rollout_kind ro = kExperiment \<and> lookup = kPresent)"
    using assms by (rule Variation_rolloutE)
  let ?vs = "rollout_variations ro" and ?p = "bucket_position bucket (rollout_variations ro)"
  let ?i = "min ?p (length ?vs - 1)"
  have "?p \<le> length ?vs"
    using length_takeWhile_le [of _ "running_sums (Fin 0) ?vs"] by (simp add: bucket_position_def)
  then have "Variation_loop bucket (Fin 0) (last ?vs) ?vs = ?vs ! ?i"
    using ne
    by (auto simp: Variation_loop_position Let_def last_conv_nth min_def simp flip: bucket_position_def)
  moreover have "?i < length ?vs" using ne by (cases ?vs) auto
  ultimately show ?thesis
    using r b res by (auto simp: BucketResult_weighted_def)
qed

theorem Variation_rollout_spec_witness:
  "\<exists>i < 2. VariationIndex \<lparr>VariationIndex = 0, InExperiment = False\<rparr> =
     wv_variation (rollout_variations (sample_rollout 100000) ! i)"
  using Variation_rollout_spec [OF sample_Variation]
  by (auto simp: sample_rollout_def Rollout1_def numeral_2_eq_2)

text \<open>
  A rollout is sticky: when the weight of its first variation grows, a context that
  received that variation still receives it.
\<close>

theorem rollout_sticky:
  assumes "rollout_variations ro = wv # rest"
    and "\<forall>other\<in>set rest. wv_variation other \<noteq> wv_variation wv" and "rest \<noteq> []"
    and "sint (wv_weight wv) \<le> sint w'"
    and "Variation e (VRollout ro) key ctx salt = Inr r" and "VariationIndex r = wv_variation wv"
  shows "\<exists>r'. Variation e
      (VRollout (ro\<lparr>rollout_variations := wv\<lparr>wv_weight := w'\<rparr> # rest\<rparr>)) key ctx salt = Inr r' \<and>
    VariationIndex r' = wv_variation wv"
proof -
  let ?ro' = "ro\<lparr>rollout_variations := wv\<lparr>wv_weight := w'\<rparr> # rest\<rparr>"
  let ?first = "\<lambda>w. double_add (Fin 0) (double_div (of_i64 w) kBucketScale)"
  obtain slt bucket lookup where s: "salt = Some slt"
    and b: "Bucket e ctx (rollout_bucketBy ro)
      (case seed ro of Some s \<Rightarrow> PSeed s | None \<Rightarrow> PKeyAndSalt key slt)
      (rollout_kind ro = kExperiment) (rollout_contextKind ro) = Inr (bucket, lookup)"
    and res: "r = BucketResult_weighted
      (Variation_loop bucket (Fin 0) (last (rollout_variations ro)) (rollout_variations ro))
      (rollout_kind ro = kExperiment \<and> lookup = kPresent)"
    using assms(5) by (rule Variation_rolloutE)
  have rest: "Variation_loop bucket acc (last rest) rest \<in> set rest" for acc
    using assms(3)
    by (auto simp: Variation_loop_position Let_def intro: nth_mem last_in_set)
  have "double_less bucket (?first (wv_weight wv))"
  proof (rule ccontr)
    assume "\<not> ?thesis"
    then have "r = BucketResult_weighted
        (Variation_loop bucket (?first (wv_weight wv)) (last rest) rest)
        (rollout_kind ro = kExperiment \<and> lookup = kPresent)"
      using assms(1,3) res by (simp add: Let_def)
    then show False
      using rest assms(2,6) by (simp add: BucketResult_weighted_def)
  qed
  then have "double_less bucket (?first w')" using assms(4) by (rule first_sum_mono [rotated])
  then show ?thesis
    using b by (simp add: s Variation_def Let_def BucketResult_weighted_def)
qed

theorem rollout_sticky_witness:
  "\<exists>r'. Variation sample_env (VRollout ((sample_rollout 100000)\<lparr>rollout_variations :=
      (WeightedVariation2 0 100000)\<lparr>wv_weight := 200000\<rparr> # [WeightedVariation2 1 0]\<rparr>))
      ''f'' sample_context (Some ''s'') = Inr r' \<and> VariationIndex r' = 0"
  using rollout_sticky [OF _ _ _ _ sample_Variation, of "WeightedVariation2 0 100000"
      "[WeightedVariation2 1 0]" 200000]
  by (simp add: sample_rollout_def Rollout1_def WeightedVariation2_def)

end
