(* ===== verification/Big_Segments.thy ===== *)
theory Big_Segments
  imports Prelude
begin

text \<open>
  Big segments (\<^verbatim>\<open>libs/server-sdk/src/data_components/big_segments\<close> and
  \<^verbatim>\<open>include/launchdarkly/server_side/integrations/big_segments/big_segment_store_types.hpp\<close>):
  memberships, the cache of memberships with its LRU order and expiry, and the wrapper
  around the customer's store with its status polling. The lemmas bound the cache, say
  which entries it keeps, and show when the wrapper queries the store and when it
  announces a status.

  A point in time and a duration are integers; the clock is an argument of the
  operations that read it. The wrapper is modelled for one caller at a time, so a lookup
  is always the leader of its query.
\<close>

section \<open>Memberships\<close>

type_synonym Membership = "(string \<times> bool) list"

definition FromSegmentRefs :: "string list \<Rightarrow> string list \<Rightarrow> Membership" where
  "FromSegmentRefs incl excl =
     fold (\<lambda>ref m. AList.update ref True m) incl
       (fold (\<lambda>ref m. AList.update ref False m) excl [])"

definition CheckMembership :: "Membership \<Rightarrow> string \<Rightarrow> bool option" where
  "CheckMembership m segment_ref = map_of m segment_ref"

section \<open>The cache\<close>

record CacheEntry =
  ce_membership :: Membership
  expires_at :: int

text \<open>
  \<open>recency\<close> is the list of keys, most recently used first; an entry's iterator into it is
  the position of its key.
\<close>

record MembershipCache =
  mc_capacity :: nat
  mc_ttl :: int
  recency :: "string list"
  mc_entries :: "(string \<times> CacheEntry) list"

definition MakeMembershipCache :: "nat \<Rightarrow> int \<Rightarrow> MembershipCache" where
  "MakeMembershipCache capacity ttl =
     \<lparr>mc_capacity = capacity, mc_ttl = ttl, recency = [], mc_entries = []\<rparr>"

definition splice_front :: "string \<Rightarrow> string list \<Rightarrow> string list" where
  "splice_front key l = key # remove1 key l"

definition MC_Get ::
  "int \<Rightarrow> string \<Rightarrow> MembershipCache \<Rightarrow> Membership option \<times> MembershipCache" where
  "MC_Get now key c =
     (case map_of (mc_entries c) key of
        None \<Rightarrow> (None, c)
      | Some entry \<Rightarrow>
          if expires_at entry \<le> now then
            (None, c\<lparr>recency := remove1 key (recency c),
                     mc_entries := AList.delete key (mc_entries c)\<rparr>)
          else
            (Some (ce_membership entry), c\<lparr>recency := splice_front key (recency c)\<rparr>))"

definition MC_Set :: "int \<Rightarrow> string \<Rightarrow> Membership \<Rightarrow> MembershipCache \<Rightarrow> MembershipCache" where
  "MC_Set now key m c =
     (let expires = now + mc_ttl c; entry = \<lparr>ce_membership = m, expires_at = expires\<rparr> in
      case map_of (mc_entries c) key of
        Some _ \<Rightarrow>
          c\<lparr>recency := splice_front key (recency c),
            mc_entries := AList.update key entry (mc_entries c)\<rparr>
      | None \<Rightarrow>
          (let c1 = c\<lparr>recency := key # recency c, mc_entries := (key, entry) # mc_entries c\<rparr> in
           if mc_capacity c1 < length (mc_entries c1) then
             c1\<lparr>mc_entries := AList.delete (last (recency c1)) (mc_entries c1),
                recency := butlast (recency c1)\<rparr>
           else c1))"

definition MC_Clear :: "MembershipCache \<Rightarrow> MembershipCache" where
  "MC_Clear c = c\<lparr>mc_entries := [], recency := []\<rparr>"

definition MC_Size :: "MembershipCache \<Rightarrow> nat" where
  "MC_Size c = length (mc_entries c)"

section \<open>The wrapper\<close>

datatype LookupStatus = lsHealthy | lsStale | lsStoreError | lsNotConfigured

record BigSegmentStoreStatus =
  bs_available :: bool
  bs_stale :: bool

text \<open>
  What the customer's store does, and the hash of context keys (SHA-256 and base64 of
  OpenSSL), are parameters. The signal's listeners are the list of the statuses that
  were announced.
\<close>

record IBigSegmentStore =
  store_GetMembership :: "string \<Rightarrow> string + Membership"
  store_GetMetadata :: "string + int option"
  HashContextKey :: "string \<Rightarrow> string"

record Wrapper =
  stale_after :: int
  w_cache :: MembershipCache
  last_status :: "BigSegmentStoreStatus option"
  announced :: "BigSegmentStoreStatus list"

definition IsStale :: "int \<Rightarrow> int \<Rightarrow> Wrapper \<Rightarrow> bool" where
  "IsStale now last_up_to_date w \<longleftrightarrow> stale_after w \<le> now - last_up_to_date"

definition set_status :: "BigSegmentStoreStatus \<Rightarrow> Wrapper \<Rightarrow> Wrapper" where
  "set_status new_status w =
     w\<lparr>last_status := Some new_status,
       announced := (if last_status w = Some new_status then announced w
                     else announced w @ [new_status])\<rparr>"

definition last_stale :: "Wrapper \<Rightarrow> bool" where
  "last_stale w \<longleftrightarrow> (case last_status w of None \<Rightarrow> False | Some s \<Rightarrow> bs_stale s)"

definition MarkStoreUnavailable :: "Wrapper \<Rightarrow> Wrapper" where
  "MarkStoreUnavailable w = set_status \<lparr>bs_available = False, bs_stale = last_stale w\<rparr> w"

definition PollStoreAndUpdateStatus ::
  "IBigSegmentStore \<Rightarrow> int \<Rightarrow> Wrapper \<Rightarrow> BigSegmentStoreStatus \<times> Wrapper" where
  "PollStoreAndUpdateStatus store now w =
     (let new_status =
        (case store_GetMetadata store of
           Inr metadata \<Rightarrow>
             \<lparr>bs_available = True,
              bs_stale = (case metadata of None \<Rightarrow> True | Some up_to_date \<Rightarrow> IsStale now up_to_date w)\<rparr>
         | Inl _ \<Rightarrow> \<lparr>bs_available = False, bs_stale = last_stale w\<rparr>)
      in (new_status, set_status new_status w))"

definition GetStatus ::
  "IBigSegmentStore \<Rightarrow> int \<Rightarrow> Wrapper \<Rightarrow> BigSegmentStoreStatus \<times> Wrapper" where
  "GetStatus store now w =
     (case last_status w of
        Some s \<Rightarrow> (s, w)
      | None \<Rightarrow> PollStoreAndUpdateStatus store now w)"

definition LoadMembership ::
  "IBigSegmentStore \<Rightarrow> int \<Rightarrow> string \<Rightarrow> Wrapper \<Rightarrow> (string + Membership) \<times> Wrapper" where
  "LoadMembership store now context_key w =
     (let result = store_GetMembership store (HashContextKey store context_key) in
      (result,
       case result of
         Inr m \<Rightarrow> w\<lparr>w_cache := MC_Set now context_key m (w_cache w)\<rparr>
       | Inl _ \<Rightarrow> w))"

definition GetMembership ::
  "IBigSegmentStore \<Rightarrow> int \<Rightarrow> string \<Rightarrow> Wrapper \<Rightarrow> (Membership \<times> LookupStatus) \<times> Wrapper" where
  "GetMembership store now context_key w =
     (let finish = (\<lambda>m w.
            (case GetStatus store now w of
               (s, w') \<Rightarrow> ((m, if bs_stale s then lsStale else lsHealthy), w')))
      in case MC_Get now context_key (w_cache w) of
           (Some m, cache) \<Rightarrow> finish m (w\<lparr>w_cache := cache\<rparr>)
         | (None, cache) \<Rightarrow>
             (case LoadMembership store now context_key (w\<lparr>w_cache := cache\<rparr>) of
                (Inl _, w1) \<Rightarrow> ((FromSegmentRefs [] [], lsStoreError), MarkStoreUnavailable w1)
              | (Inr m, w1) \<Rightarrow> finish m w1))"

section \<open>The cache's invariant\<close>

definition mc_ok :: "MembershipCache \<Rightarrow> bool" where
  "mc_ok c \<longleftrightarrow>
     distinct (map fst (mc_entries c)) \<and> distinct (recency c) \<and>
     set (recency c) = fst ` set (mc_entries c) \<and> length (mc_entries c) \<le> mc_capacity c"

lemma mc_ok_Make [simp]: "mc_ok (MakeMembershipCache capacity ttl)"
  by (simp add: mc_ok_def MakeMembershipCache_def)

lemma mc_ok_length: "mc_ok c \<Longrightarrow> length (recency c) = length (mc_entries c)"
  unfolding mc_ok_def by (metis distinct_card length_map list.set_map)

lemma mc_ok_Get [inv_intros]: "mc_ok c \<Longrightarrow> mc_ok (snd (MC_Get now key c))"
  using length_delete_le [of key "mc_entries c"] map_of_Some_key [of "mc_entries c" key]
  by (auto simp: mc_ok_def MC_Get_def splice_front_def distinct_delete split: option.splits)

lemma mc_ok_Set [inv_intros]:
  assumes "mc_ok c"
  shows "mc_ok (MC_Set now key m c)"
proof (cases "map_of (mc_entries c) key")
  case (Some entry)
  then show ?thesis
    using assms map_of_Some_key [OF Some]
    by (auto simp: mc_ok_def MC_Set_def Let_def splice_front_def distinct_update alist_update_length)
next
  case None
  let ?r = "key # recency c"
  let ?e = "(key, \<lparr>ce_membership = m, expires_at = now + mc_ttl c\<rparr>) # mc_entries c"
  have d: "distinct ?r" "distinct (map fst ?e)" and k: "set ?r = fst ` set ?e"
    using assms None by (auto simp: mc_ok_def map_of_eq_None_iff)
  have last: "last ?r \<in> fst ` set ?e" using k last_in_set [of ?r] by auto
  have "set (butlast ?r) = set ?r - {last ?r}" using d(1) by (rule set_butlast_distinct) simp
  then show ?thesis
    using assms None d k alist_delete_length [OF d(2) last] distinct_butlast [OF d(1)]
    by (auto simp: mc_ok_def MC_Set_def Let_def distinct_delete)
qed

lemma mc_ok_Clear [inv_intros]: "mc_ok (MC_Clear c)"
  by (simp add: mc_ok_def MC_Clear_def)

datatype CacheOp = OpGet int string | OpSet int string Membership | OpClear

fun mc_perform :: "CacheOp \<Rightarrow> MembershipCache \<Rightarrow> MembershipCache" where
  "mc_perform (OpGet now key) c = snd (MC_Get now key c)"
| "mc_perform (OpSet now key m) c = MC_Set now key m c"
| "mc_perform OpClear c = MC_Clear c"

lemma mc_capacity_perform: "mc_capacity (mc_perform op c) = mc_capacity c"
  by (cases op) (auto simp: MC_Get_def MC_Set_def MC_Clear_def Let_def split: option.splits)

interpretation mc: bounded_component mc_ok MC_Size mc_capacity mc_perform
proof
  show "mc_ok (mc_perform op c)" if "mc_ok c" for op c
    using that by (cases op) (auto intro: inv_intros)
qed (auto simp: mc_capacity_perform MC_Size_def mc_ok_def)

section \<open>Which entries the cache keeps\<close>

text \<open>
  The keys used more recently than \<open>key\<close> all lie in \<open>U\<close>, and \<open>key\<close> still has its entry.
\<close>

definition keeps :: "string \<Rightarrow> CacheEntry \<Rightarrow> string set \<Rightarrow> MembershipCache \<Rightarrow> bool" where
  "keeps key entry U c \<longleftrightarrow>
     mc_ok c \<and> map_of (mc_entries c) key = Some entry \<and>
     set (takeWhile (\<lambda>k. k \<noteq> key) (recency c)) \<subseteq> U"

lemma keeps_Get:
  "keeps key entry U c \<Longrightarrow> k \<in> U \<Longrightarrow> k \<noteq> key \<Longrightarrow> keeps key entry U (snd (MC_Get now k c))"
  using mc_ok_Get [of c now k] takeWhile_remove1_subset [of k key "recency c"]
  by (auto simp: keeps_def MC_Get_def splice_front_def delete_conv' split: option.splits)

lemma keeps_Set:
  assumes "keeps key entry U c" and "k \<in> U" and "k \<noteq> key"
    and "finite U" and "card U < mc_capacity c"
  shows "keeps key entry U (MC_Set now k m c)"
proof (cases "map_of (mc_entries c) k")
  case (Some _)
  then show ?thesis
    using assms mc_ok_Set [of c now k m] takeWhile_remove1_subset [of k key "recency c"]
    by (auto simp: keeps_def MC_Set_def Let_def splice_front_def update_conv')
next
  case None
  let ?r = "k # recency c"
  let ?before = "takeWhile (\<lambda>x. x \<noteq> key) ?r"
  have ok: "mc_ok c" and sub: "set ?before \<subseteq> U"
    using assms(1,2) by (auto simp: keeps_def)
  have dist: "distinct ?r"
    using ok None by (auto simp: mc_ok_def map_of_eq_None_iff)
  have "last ?r \<noteq> key" if full: "mc_capacity c < Suc (length (mc_entries c))"
  proof
    assume "last ?r = key"
    then have "?before = butlast ?r" using takeWhile_neq_last [OF dist] by simp
    then have "length (recency c) = card (set ?before)"
      using distinct_card [OF distinct_butlast [OF dist]] by simp
    also have "\<dots> \<le> card U" using assms(4) sub by (rule card_mono)
    finally show False using assms(5) full mc_ok_length [OF ok] by simp
  qed
  then show ?thesis
    using assms None mc_ok_Set [OF ok, of now k m] sub takeWhile_butlast_subset [of "\<lambda>x. x \<noteq> key" ?r]
    by (auto simp: keeps_def MC_Set_def Let_def delete_conv')
qed

text \<open>The key an operation uses.\<close>

fun op_key :: "CacheOp \<Rightarrow> string option" where
  "op_key (OpGet _ key) = Some key"
| "op_key (OpSet _ key _) = Some key"
| "op_key OpClear = None"

lemma keeps_run:
  assumes "keeps key entry U c" and "\<forall>op\<in>set ops. \<exists>k\<in>U. op_key op = Some k"
    and "key \<notin> U" and "finite U" and "card U < mc_capacity c"
  shows "keeps key entry U (fold mc_perform ops c)"
  using assms
proof (induction ops arbitrary: c)
  case (Cons op ops)
  have "keeps key entry U (mc_perform op c)"
    using Cons.prems by (cases op) (auto intro: keeps_Get keeps_Set)
  then show ?case using Cons mc_capacity_perform by auto
qed simp

lemma keeps_after_Set:
  assumes "mc_ok c" and "0 < mc_capacity c"
  shows "keeps key \<lparr>ce_membership = m, expires_at = now + mc_ttl c\<rparr> {} (MC_Set now key m c)"
proof -
  have "last (key # recency c) \<noteq> key"
    if "map_of (mc_entries c) key = None" "mc_capacity c < Suc (length (mc_entries c))"
  proof -
    have "recency c \<noteq> []" using that assms mc_ok_length [OF assms(1)] by auto
    moreover have "key \<notin> set (recency c)"
      using that(1) assms(1) by (auto simp: mc_ok_def map_of_eq_None_iff)
    ultimately show ?thesis by (metis last_ConsR last_in_set)
  qed
  then show ?thesis
    using assms mc_ok_Set [OF assms(1), of now key m]
    by (auto simp: keeps_def MC_Set_def Let_def splice_front_def update_conv' delete_conv'
        split: option.splits)
qed

section \<open>Memberships\<close>

lemma map_of_fold_update:
  "map_of (fold (\<lambda>ref m. AList.update ref v m) refs m) ref =
     (if ref \<in> set refs then Some v else map_of m ref)"
  by (induction refs arbitrary: m) (auto simp: update_conv')

lemma CheckMembership_FromSegmentRefs:
  "CheckMembership (FromSegmentRefs incl excl) ref =
     (if ref \<in> set incl then Some True else if ref \<in> set excl then Some False else None)"
  by (simp add: CheckMembership_def FromSegmentRefs_def map_of_fold_update)

section \<open>What listeners hear\<close>

text \<open>
  The status the wrapper holds is the last one it announced, and no status was announced
  twice in a row.
\<close>

definition wrapper_ok :: "Wrapper \<Rightarrow> bool" where
  "wrapper_ok w \<longleftrightarrow>
     mc_ok (w_cache w) \<and> distinct_adj (announced w) \<and>
     last_status w = (if announced w = [] then None else Some (last (announced w)))"

lemma wrapper_ok_set_status [inv_intros]: "wrapper_ok w \<Longrightarrow> wrapper_ok (set_status s w)"
  by (auto simp: wrapper_ok_def set_status_def distinct_adj_append_iff split: if_splits)

lemma wrapper_ok_Mark [inv_intros]: "wrapper_ok w \<Longrightarrow> wrapper_ok (MarkStoreUnavailable w)"
  unfolding MarkStoreUnavailable_def by (rule wrapper_ok_set_status)

lemma wrapper_ok_Poll [inv_intros]:
  "wrapper_ok w \<Longrightarrow> wrapper_ok (snd (PollStoreAndUpdateStatus store now w))"
  by (simp add: PollStoreAndUpdateStatus_def Let_def wrapper_ok_set_status)

lemma wrapper_ok_GetStatus [inv_intros]:
  "wrapper_ok w \<Longrightarrow> wrapper_ok (snd (GetStatus store now w))"
  by (auto simp: GetStatus_def wrapper_ok_Poll split: option.splits)

lemma wrapper_ok_cache: "wrapper_ok w \<Longrightarrow> mc_ok c \<Longrightarrow> wrapper_ok (w\<lparr>w_cache := c\<rparr>)"
  by (simp add: wrapper_ok_def)

lemma wrapper_ok_Load [inv_intros]:
  "wrapper_ok w \<Longrightarrow> wrapper_ok (snd (LoadMembership store now key w))"
  by (auto simp: LoadMembership_def Let_def wrapper_ok_def intro: mc_ok_Set split: sum.splits)

lemma wrapper_ok_GetMembership [inv_intros]:
  assumes "wrapper_ok w"
  shows "wrapper_ok (snd (GetMembership store now key w))"
proof -
  obtain r cache where get: "MC_Get now key (w_cache w) = (r, cache)" by force
  then have "mc_ok cache" using assms mc_ok_Get [of "w_cache w" now key] by (simp add: wrapper_ok_def)
  then have w1: "wrapper_ok (w\<lparr>w_cache := cache\<rparr>)" using assms by (rule wrapper_ok_cache [rotated])
  show ?thesis
    using w1 wrapper_ok_Load [OF w1, of store now key]
    by (auto simp: GetMembership_def get Let_def wrapper_ok_Mark
        dest: wrapper_ok_GetStatus [of _ store now] split: option.splits sum.splits prod.splits)
qed

datatype WrapperOp = OpMembership int string | OpStatus int | OpPoll int

fun w_perform :: "IBigSegmentStore \<Rightarrow> WrapperOp \<Rightarrow> Wrapper \<Rightarrow> Wrapper" where
  "w_perform store (OpMembership now key) w = snd (GetMembership store now key w)"
| "w_perform store (OpStatus now) w = snd (GetStatus store now w)"
| "w_perform store (OpPoll now) w = snd (PollStoreAndUpdateStatus store now w)"

lemma wrapper_ok_perform [inv_intros]: "wrapper_ok w \<Longrightarrow> wrapper_ok (w_perform store op w)"
  by (cases op) (auto intro: inv_intros)

lemma wrapper_ok_run: "wrapper_ok w \<Longrightarrow> wrapper_ok (fold (\<lambda>(store, op). w_perform store op) ops w)"
  by (induction ops arbitrary: w) (auto intro: inv_intros)

definition MakeWrapper :: "int \<Rightarrow> nat \<Rightarrow> int \<Rightarrow> Wrapper" where
  "MakeWrapper stale capacity ttl =
     \<lparr>stale_after = stale, w_cache = MakeMembershipCache capacity ttl, last_status = None,
      announced = []\<rparr>"

lemma wrapper_ok_Make: "wrapper_ok (MakeWrapper stale capacity ttl)"
  by (simp add: MakeWrapper_def wrapper_ok_def)

section \<open>Properties\<close>

text \<open>
  The membership cache is least-recently-used: after a membership is stored for a key,
  and as long as fewer other keys than the capacity are used, any sequence of lookups and
  insertions of those keys leaves the membership there, and a lookup before it expires
  returns it.
\<close>

theorem membership_cache_retains:
  assumes "mc_ok c" and "\<forall>op\<in>set ops. \<exists>k\<in>U. op_key op = Some k"
    and "key \<notin> U" and "finite U" and "card U < mc_capacity c" and "now' < now + mc_ttl c"
  shows "fst (MC_Get now' key (fold mc_perform ops (MC_Set now key m c))) = Some m"
proof -
  let ?entry = "\<lparr>ce_membership = m, expires_at = now + mc_ttl c\<rparr>"
  have "keeps key ?entry {} (MC_Set now key m c)"
    using assms(1,5) by (intro keeps_after_Set) auto
  then have "keeps key ?entry U (MC_Set now key m c)" by (auto simp: keeps_def)
  moreover have "mc_capacity (MC_Set now key m c) = mc_capacity c"
    using mc_capacity_perform [of "OpSet now key m" c] by simp
  ultimately have "keeps key ?entry U (fold mc_perform ops (MC_Set now key m c))"
    using assms by (intro keeps_run) auto
  then show ?thesis using assms(6) by (simp add: keeps_def MC_Get_def)
qed

theorem membership_cache_retains_witness:
  "fst (MC_Get 9 ''a'' (fold mc_perform
     [OpSet 1 ''b'' [], OpGet 2 ''b'', OpSet 3 ''b'' [(''s.g1'', True)]]
     (MC_Set 0 ''a'' [(''s.g1'', False)] (MakeMembershipCache 2 10)))) = Some [(''s.g1'', False)]"
  by (rule membership_cache_retains [where U = "{''b''}"])
    (simp_all add: MakeMembershipCache_def mc_ok_def)

text \<open>
  No sequence of operations makes the membership cache hold more entries than its
  capacity, and its two structures always hold the same keys, each once.
\<close>

theorem membership_cache_bounded:
  "let c = fold mc_perform ops (MakeMembershipCache capacity ttl) in
   MC_Size c \<le> capacity \<and> distinct (recency c) \<and> set (recency c) = fst ` set (mc_entries c)"
  using mc.size_run [OF mc_ok_Make, of ops capacity ttl] mc.inv_run [OF mc_ok_Make, of ops capacity ttl]
  by (simp add: Let_def mc_ok_def) (simp add: MakeMembershipCache_def)

text \<open>
  Whatever lookups and polls happen, and whatever the store answers, the listeners of
  the wrapper never hear the same status twice in a row, and the status the wrapper
  reports is the last one they heard.
\<close>

theorem wrapper_announces_changes:
  "let w = fold (\<lambda>(store, op). w_perform store op) ops (MakeWrapper stale capacity ttl) in
   distinct_adj (announced w) \<and>
   last_status w = (if announced w = [] then None else Some (last (announced w)))"
  using wrapper_ok_run [OF wrapper_ok_Make, of ops stale capacity ttl]
  by (simp add: wrapper_ok_def Let_def)

end
