(* ===== verification/Rules.thy ===== *)
theory Rules
  imports Bucketing Big_Segments
begin

text \<open>
  The evaluation stack (\<^verbatim>\<open>libs/server-sdk/src/evaluation/evaluation_stack.cpp\<close>) and the
  matching of clauses, rules and segments (\<^verbatim>\<open>rules.cpp\<close>). The functions of \<^verbatim>\<open>rules.cpp\<close>
  are mutually recursive through segments that refer to segments: here each function
  takes the function \<open>contains\<close> that it calls for a segment, and \<open>Contains\<close> ties the knot
  with a bound on the depth of the recursion, \<open>None\<close> being the result when the bound is
  reached. The lemmas show that the bound is never reached when it exceeds the number of
  segments, that every guard is released, and what matching computes.
\<close>

section \<open>The store\<close>

text \<open>
  What evaluation reads of a store (\<^verbatim>\<open>data_interfaces::IStore\<close>) while it runs.
\<close>

record IStore =
  GetFlag :: "string \<Rightarrow> FlagDescriptor option"
  GetSegment :: "string \<Rightarrow> SegmentDescriptor option"

section \<open>The stack\<close>

text \<open>
  \<open>big_segment_store\<close> is the wrapper as evaluation sees it. Evaluation asks for the
  membership of a context key at most once, because it keeps the answer, so the wrapper
  is the function from keys to its answers.
\<close>

record EvaluationStack =
  prerequisites_seen :: "string set"
  segments_seen :: "string set"
  big_segment_store :: "(string \<Rightarrow> Membership \<times> LookupStatus) option"
  stack_status :: BigSegmentsStatus
  memberships :: "(string \<times> Membership) list"
  store_error_keys :: "string set"

definition MakeEvaluationStack ::
  "(string \<Rightarrow> Membership \<times> LookupStatus) option \<Rightarrow> EvaluationStack" where
  "MakeEvaluationStack bs =
     \<lparr>prerequisites_seen = {}, segments_seen = {}, big_segment_store = bs,
      stack_status = kNone, memberships = [], store_error_keys = {}\<rparr>"

fun Precedence :: "BigSegmentsStatus \<Rightarrow> nat" where
  "Precedence kNone = 0"
| "Precedence kHealthy = 1"
| "Precedence kStale = 2"
| "Precedence kStoreError = 3"
| "Precedence kNotConfigured = 4"

text \<open>A guard: \<open>Notice\<close> inserts the key unless it is there, \<open>Release\<close> is the destructor.\<close>

definition NoticePrerequisite :: "string \<Rightarrow> EvaluationStack \<Rightarrow> EvaluationStack option" where
  "NoticePrerequisite key st =
     (if key \<in> prerequisites_seen st then None
      else Some (st\<lparr>prerequisites_seen := insert key (prerequisites_seen st)\<rparr>))"

definition ReleasePrerequisite :: "string \<Rightarrow> EvaluationStack \<Rightarrow> EvaluationStack" where
  "ReleasePrerequisite key st = st\<lparr>prerequisites_seen := prerequisites_seen st - {key}\<rparr>"

definition NoticeSegment :: "string \<Rightarrow> EvaluationStack \<Rightarrow> EvaluationStack option" where
  "NoticeSegment key st =
     (if key \<in> segments_seen st then None
      else Some (st\<lparr>segments_seen := insert key (segments_seen st)\<rparr>))"

definition ReleaseSegment :: "string \<Rightarrow> EvaluationStack \<Rightarrow> EvaluationStack" where
  "ReleaseSegment key st = st\<lparr>segments_seen := segments_seen st - {key}\<rparr>"

definition RecordBigSegmentsStatus :: "BigSegmentsStatus \<Rightarrow> EvaluationStack \<Rightarrow> EvaluationStack" where
  "RecordBigSegmentsStatus status st =
     (if Precedence status > Precedence (stack_status st) then st\<lparr>stack_status := status\<rparr> else st)"

definition FindMembership :: "string \<Rightarrow> EvaluationStack \<Rightarrow> Membership option" where
  "FindMembership key st = map_of (memberships st) key"

text \<open>\<^verbatim>\<open>emplace\<close>: a key that is there keeps its membership.\<close>

definition StoreMembership :: "string \<Rightarrow> Membership \<Rightarrow> EvaluationStack \<Rightarrow> EvaluationStack" where
  "StoreMembership key m st =
     (case map_of (memberships st) key of
        Some _ \<Rightarrow> st
      | None \<Rightarrow> st\<lparr>memberships := (key, m) # memberships st\<rparr>)"

definition RecordStoreError :: "string \<Rightarrow> EvaluationStack \<Rightarrow> EvaluationStack" where
  "RecordStoreError key st = st\<lparr>store_error_keys := insert key (store_error_keys st)\<rparr>"

definition DidStoreError :: "string \<Rightarrow> EvaluationStack \<Rightarrow> bool" where
  "DidStoreError key st \<longleftrightarrow> key \<in> store_error_keys st"

section \<open>Big segments\<close>

fun ToBigSegmentsStatus :: "LookupStatus \<Rightarrow> BigSegmentsStatus" where
  "ToBigSegmentsStatus lsHealthy = kHealthy"
| "ToBigSegmentsStatus lsStale = kStale"
| "ToBigSegmentsStatus lsStoreError = kStoreError"
| "ToBigSegmentsStatus lsNotConfigured = kNotConfigured"

definition MakeBigSegmentRef :: "Segment \<Rightarrow> u64 \<Rightarrow> string" where
  "MakeBigSegmentRef seg gen = segment_key seg @ ''.g'' @ nat_str (unat gen)"

text \<open>The part of \<open>MatchBigSegment\<close> from the lookup of the key on.\<close>

definition MatchBigSegment_key ::
  "Segment \<Rightarrow> u64 \<Rightarrow> string \<Rightarrow> EvaluationStack \<Rightarrow> bool option \<times> EvaluationStack" where
  "MatchBigSegment_key seg gen key st =
     (case FindMembership key st of
        Some m \<Rightarrow> (CheckMembership m (MakeBigSegmentRef seg gen), st)
      | None \<Rightarrow>
          (case big_segment_store st of
             None \<Rightarrow> (Some False, RecordBigSegmentsStatus kNotConfigured st)
           | Some lookup \<Rightarrow>
               (let (m, ls) = lookup key;
                    status = ToBigSegmentsStatus ls;
                    st1 = RecordBigSegmentsStatus status st
                in if status = kStoreError then (Some False, RecordStoreError key st1)
                   else (CheckMembership m (MakeBigSegmentRef seg gen), StoreMembership key m st1))))"

definition MatchBigSegment ::
  "Segment \<Rightarrow> Context \<Rightarrow> EvaluationStack \<Rightarrow> bool option \<times> EvaluationStack" where
  "MatchBigSegment seg ctx st =
     (case generation seg of
        None \<Rightarrow> (Some False, RecordBigSegmentsStatus kNotConfigured st)
      | Some gen \<Rightarrow>
          (let kind = (case unboundedContextKind seg of
                         Some k \<Rightarrow> if k \<noteq> [] then k else ''user''
                       | None \<Rightarrow> ''user'');
               context_key = Context_Get ctx kind (FromReferenceStr ''key'')
           in if \<not> IsString context_key then (Some False, st)
              else if DidStoreError (AsString context_key) st then (Some False, st)
              else MatchBigSegment_key seg gen (AsString context_key) st))"

section \<open>Clauses without segments\<close>

definition MaybeNegate :: "Clause \<Rightarrow> bool \<Rightarrow> bool" where
  "MaybeNegate clause v = (if negate clause then \<not> v else v)"

definition MatchNonSegment :: "env \<Rightarrow> Clause \<Rightarrow> Context \<Rightarrow> Error + bool" where
  "MatchNonSegment e clause ctx =
     (if \<not> ref_valid (clause_attribute clause) then
        Inl (InvalidAttributeReference (redaction_name (clause_attribute clause)))
      else if IsKind (clause_attribute clause) then
        Inr (MaybeNegate clause
               (list_ex (\<lambda>clause_value.
                  list_ex (\<lambda>kind. OpMatch e (clause_op clause) (VString kind) clause_value)
                    (ctx_kinds ctx)) (clause_values clause)))
      else
        (let attribute = Context_Get ctx (clause_contextKind clause) (clause_attribute clause) in
         if IsNull attribute then Inr False
         else if IsArray attribute then
           Inr (MaybeNegate clause
                  (list_ex (\<lambda>clause_value.
                     list_ex (\<lambda>context_value. OpMatch e (clause_op clause) context_value clause_value)
                       (AsArray attribute)) (clause_values clause)))
         else
           Inr (MaybeNegate clause
                  (list_ex (OpMatch e (clause_op clause) attribute) (clause_values clause)))))"

section \<open>Targets of a segment\<close>

fun IsTargeted_contexts :: "Context \<Rightarrow> SegmentTarget list \<Rightarrow> bool" where
  "IsTargeted_contexts ctx [] \<longleftrightarrow> False"
| "IsTargeted_contexts ctx (target # rest) \<longleftrightarrow>
     (let key = Context_Get ctx (starget_contextKind target) (FromReferenceStr ''key'') in
      if \<not> IsString key then IsTargeted_contexts ctx rest
      else if list_ex (\<lambda>v. value_eq (VString v) key) (starget_values target) then True
      else IsTargeted_contexts ctx rest)"

definition IsTargeted :: "Context \<Rightarrow> string list \<Rightarrow> SegmentTarget list \<Rightarrow> bool" where
  "IsTargeted ctx user_keys context_targets \<longleftrightarrow>
     (if IsTargeted_contexts ctx context_targets then True
      else
        (let key = Context_Get ctx ''user'' (FromReferenceStr ''key'') in
         if \<not> IsNull key then AsString key \<in> set user_keys else False))"

section \<open>Matching with segments\<close>

type_synonym MatchResult = "(Error + bool) \<times> EvaluationStack"
type_synonym ContainsFun = "Segment \<Rightarrow> EvaluationStack \<Rightarrow> MatchResult option"

fun MatchSegment ::
  "ContainsFun \<Rightarrow> IStore \<Rightarrow> Clause \<Rightarrow> Value list \<Rightarrow> EvaluationStack \<Rightarrow> MatchResult option" where
  "MatchSegment contains store clause [] st = Some (Inr (MaybeNegate clause False), st)"
| "MatchSegment contains store clause (v # vs) st =
     (if Type v \<noteq> kString then MatchSegment contains store clause vs st
      else
        (case GetSegment store (AsString v) of
           None \<Rightarrow> MatchSegment contains store clause vs st
         | Some d \<Rightarrow>
             (case descr_item d of
                None \<Rightarrow> MatchSegment contains store clause vs st
              | Some seg \<Rightarrow>
                  (case contains seg st of
                     None \<Rightarrow> None
                   | Some (Inl err, st') \<Rightarrow> Some (Inl err, st')
                   | Some (Inr True, st') \<Rightarrow> Some (Inr (MaybeNegate clause True), st')
                   | Some (Inr False, st') \<Rightarrow> MatchSegment contains store clause vs st'))))"

definition MatchClause ::
  "env \<Rightarrow> ContainsFun \<Rightarrow> IStore \<Rightarrow> Context \<Rightarrow> Clause \<Rightarrow> EvaluationStack \<Rightarrow> MatchResult option" where
  "MatchClause e contains store ctx clause st =
     (if clause_op clause = kSegmentMatch then
        MatchSegment contains store clause (clause_values clause) st
      else Some (MatchNonSegment e clause ctx, st))"

fun MatchClauses ::
  "env \<Rightarrow> ContainsFun \<Rightarrow> IStore \<Rightarrow> Context \<Rightarrow> Clause list \<Rightarrow> EvaluationStack \<Rightarrow> MatchResult option" where
  "MatchClauses e contains store ctx [] st = Some (Inr True, st)"
| "MatchClauses e contains store ctx (clause # rest) st =
     (case MatchClause e contains store ctx clause st of
        None \<Rightarrow> None
      | Some (Inl err, st') \<Rightarrow> Some (Inl err, st')
      | Some (Inr False, st') \<Rightarrow> Some (Inr False, st')
      | Some (Inr True, st') \<Rightarrow> MatchClauses e contains store ctx rest st')"

definition MatchFlagRule ::
  "env \<Rightarrow> ContainsFun \<Rightarrow> IStore \<Rightarrow> Context \<Rightarrow> Rule \<Rightarrow> EvaluationStack \<Rightarrow> MatchResult option" where
  "MatchFlagRule e contains store ctx rule st =
     MatchClauses e contains store ctx (rule_clauses rule) st"

text \<open>
  The test \<^verbatim>\<open>rule.weight >= 0.0\<close> holds of every unsigned weight; the weight is converted
  to a double before the division.
\<close>

definition MatchSegmentRule ::
  "env \<Rightarrow> ContainsFun \<Rightarrow> IStore \<Rightarrow> Context \<Rightarrow> SegmentRule \<Rightarrow> string \<Rightarrow> string \<Rightarrow> EvaluationStack \<Rightarrow>
   MatchResult option" where
  "MatchSegmentRule e contains store ctx rule key salt st =
     (case MatchClauses e contains store ctx (srule_clauses rule) st of
        None \<Rightarrow> None
      | Some (Inl err, st') \<Rightarrow> Some (Inl err, st')
      | Some (Inr False, st') \<Rightarrow> Some (Inr False, st')
      | Some (Inr True, st') \<Rightarrow>
          (case srule_weight rule of
             None \<Rightarrow> Some (Inr True, st')
           | Some w \<Rightarrow>
               (case Bucket e ctx (srule_bucketBy rule) (PKeyAndSalt key salt) False
                       (rolloutContextKind rule) of
                  Inl err \<Rightarrow> Some (Inl err, st')
                | Inr (bucket, _) \<Rightarrow>
                    Some (Inr (double_less bucket (double_div (of_u64 w) kBucketScale)), st'))))"

fun Contains_rules ::
  "env \<Rightarrow> ContainsFun \<Rightarrow> IStore \<Rightarrow> Context \<Rightarrow> Segment \<Rightarrow> SegmentRule list \<Rightarrow> EvaluationStack \<Rightarrow>
   MatchResult option" where
  "Contains_rules e contains store ctx seg [] st = Some (Inr False, st)"
| "Contains_rules e contains store ctx seg (rule # rest) st =
     (case segment_salt seg of
        None \<Rightarrow> Some (Inl (MissingSalt (segment_key seg)), st)
      | Some salt \<Rightarrow>
          (case MatchSegmentRule e contains store ctx rule (segment_key seg) salt st of
             None \<Rightarrow> None
           | Some (Inl err, st') \<Rightarrow> Some (Inl err, st')
           | Some (Inr True, st') \<Rightarrow> Some (Inr True, st')
           | Some (Inr False, st') \<Rightarrow> Contains_rules e contains store ctx seg rest st'))"

text \<open>The body of \<open>Contains\<close> under its guard, which is released when it returns.\<close>

definition Contains_guarded ::
  "env \<Rightarrow> ContainsFun \<Rightarrow> IStore \<Rightarrow> Context \<Rightarrow> Segment \<Rightarrow> EvaluationStack \<Rightarrow> MatchResult option" where
  "Contains_guarded e contains store ctx seg st =
     (if unbounded seg then
        (case MatchBigSegment seg ctx st of
           (Some match, st') \<Rightarrow> Some (Inr match, st')
         | (None, st') \<Rightarrow> Contains_rules e contains store ctx seg (segment_rules seg) st')
      else if IsTargeted ctx (included seg) (includedContexts seg) then Some (Inr True, st)
      else if IsTargeted ctx (excluded seg) (excludedContexts seg) then Some (Inr False, st)
      else Contains_rules e contains store ctx seg (segment_rules seg) st)"

definition Contains_body ::
  "env \<Rightarrow> ContainsFun \<Rightarrow> IStore \<Rightarrow> Context \<Rightarrow> Segment \<Rightarrow> EvaluationStack \<Rightarrow> MatchResult option" where
  "Contains_body e contains store ctx seg st =
     (case NoticeSegment (segment_key seg) st of
        None \<Rightarrow> Some (Inl (CyclicSegmentReference (segment_key seg)), st)
      | Some st' \<Rightarrow>
          map_option (apsnd (ReleaseSegment (segment_key seg)))
            (Contains_guarded e contains store ctx seg st'))"

primrec Contains ::
  "nat \<Rightarrow> env \<Rightarrow> IStore \<Rightarrow> Context \<Rightarrow> Segment \<Rightarrow> EvaluationStack \<Rightarrow> MatchResult option" where
  "Contains 0 e store ctx = (\<lambda>seg st. None)"
| "Contains (Suc fuel) e store ctx = Contains_body e (Contains fuel e store ctx) store ctx"

section \<open>What matching changes of the stack\<close>

text \<open>
  Matching releases its guards and only adds to what the stack knows of big segments: the
  status gets no more trustworthy, and what was learnt of a context key stays.
\<close>

definition stack_frame :: "EvaluationStack \<Rightarrow> EvaluationStack \<Rightarrow> bool" where
  "stack_frame st st' \<longleftrightarrow>
     segments_seen st' = segments_seen st \<and> prerequisites_seen st' = prerequisites_seen st \<and>
     big_segment_store st' = big_segment_store st \<and>
     Precedence (stack_status st) \<le> Precedence (stack_status st') \<and>
     map_of (memberships st) \<subseteq>\<^sub>m map_of (memberships st') \<and>
     store_error_keys st \<subseteq> store_error_keys st'"

lemma stack_frame_refl [simp]: "stack_frame st st"
  by (simp add: stack_frame_def)

lemma stack_frame_trans [trans]: "stack_frame st st' \<Longrightarrow> stack_frame st' st'' \<Longrightarrow> stack_frame st st''"
  by (auto simp: stack_frame_def intro: map_le_trans)

lemma stack_frame_Record [simp]: "stack_frame st (RecordBigSegmentsStatus status st)"
  by (simp add: stack_frame_def RecordBigSegmentsStatus_def)

lemma stack_frame_StoreMembership [simp]: "stack_frame st (StoreMembership key m st)"
  by (auto simp: stack_frame_def StoreMembership_def map_le_def split: option.splits)

lemma stack_frame_RecordStoreError [simp]: "stack_frame st (RecordStoreError key st)"
  by (auto simp: stack_frame_def RecordStoreError_def)

lemma stack_frame_MatchBigSegment: "stack_frame st (snd (MatchBigSegment seg ctx st))"
proof -
  have "stack_frame st (snd (MatchBigSegment_key seg gen key st))" for gen key
    using stack_frame_trans [OF stack_frame_Record stack_frame_RecordStoreError]
      stack_frame_trans [OF stack_frame_Record stack_frame_StoreMembership]
    by (auto simp: MatchBigSegment_key_def Let_def split: option.splits prod.splits)
  then show ?thesis by (auto simp: MatchBigSegment_def Let_def split: option.splits)
qed

text \<open>A call that returns, and only changes the stack within the frame.\<close>

definition returns :: "EvaluationStack \<Rightarrow> MatchResult option \<Rightarrow> bool" where
  "returns st res \<longleftrightarrow> (\<exists>r st'. res = Some (r, st') \<and> stack_frame st st')"

lemma returns_Some [simp]: "returns st (Some (r, st')) \<longleftrightarrow> stack_frame st st'"
  by (simp add: returns_def)

lemma returns_trans: "stack_frame st st' \<Longrightarrow> returns st' res \<Longrightarrow> returns st res"
  by (auto simp: returns_def intro: stack_frame_trans)

lemma returnsE:
  assumes "returns st res"
  obtains (error) err st' where "res = Some (Inl err, st')" "stack_frame st st'"
    | (yes) st' where "res = Some (Inr True, st')" "stack_frame st st'"
    | (no) st' where "res = Some (Inr False, st')" "stack_frame st st'"
  using assms unfolding returns_def by (metis (full_types) sum.exhaust_sel)

lemma stack_frame_seen: "stack_frame st st' \<Longrightarrow> segments_seen st' = segments_seen st"
  by (simp add: stack_frame_def)

definition segments_in :: "IStore \<Rightarrow> string set \<Rightarrow> bool" where
  "segments_in store K \<longleftrightarrow>
     (\<forall>k d seg. GetSegment store k = Some d \<longrightarrow> descr_item d = Some seg \<longrightarrow> segment_key seg \<in> K)"

text \<open>The segment lookups with keys in \<open>K\<close> and guards \<open>S\<close> held return.\<close>

definition contains_returns :: "string set \<Rightarrow> string set \<Rightarrow> ContainsFun \<Rightarrow> bool" where
  "contains_returns K S contains \<longleftrightarrow>
     (\<forall>seg st. segment_key seg \<in> K \<longrightarrow> segments_seen st = S \<longrightarrow> returns st (contains seg st))"

lemma contains_returnsD:
  "contains_returns K S contains \<Longrightarrow> segment_key seg \<in> K \<Longrightarrow> segments_seen st = S \<Longrightarrow>
     returns st (contains seg st)"
  by (simp add: contains_returns_def)

lemma returns_MatchSegment:
  assumes "contains_returns K S contains" and "segments_in store K" and "segments_seen st = S"
  shows "returns st (MatchSegment contains store clause vs st)"
  using assms(3)
proof (induction vs arbitrary: st)
  case (Cons v vs)
  show ?case
  proof (cases "\<exists>d seg. Type v = kString \<and> GetSegment store (AsString v) = Some d \<and> descr_item d = Some seg")
    case True
    then obtain d seg where v: "Type v = kString" "GetSegment store (AsString v) = Some d"
      "descr_item d = Some seg" by blast
    then have "returns st (contains seg st)"
      using assms(1,2) Cons.prems by (auto simp: segments_in_def intro: contains_returnsD)
    then show ?thesis
      by (cases rule: returnsE) (auto simp: v Cons stack_frame_seen intro: returns_trans)
  next
    case False
    then show ?thesis using Cons by (auto split: option.splits)
  qed
qed simp

lemma returns_MatchClause:
  assumes "contains_returns K S contains" and "segments_in store K" and "segments_seen st = S"
  shows "returns st (MatchClause e contains store ctx clause st)"
  using returns_MatchSegment [OF assms] by (simp add: MatchClause_def)

lemma returns_MatchClauses:
  assumes "contains_returns K S contains" and "segments_in store K" and "segments_seen st = S"
  shows "returns st (MatchClauses e contains store ctx clauses st)"
  using assms(3)
proof (induction clauses arbitrary: st)
  case (Cons clause clauses)
  have "returns st (MatchClause e contains store ctx clause st)"
    using assms(1,2) Cons.prems by (rule returns_MatchClause)
  then show ?case
    by (cases rule: returnsE) (auto simp: Cons stack_frame_seen intro: returns_trans)
qed simp

lemma returns_MatchSegmentRule:
  assumes "contains_returns K S contains" and "segments_in store K" and "segments_seen st = S"
  shows "returns st (MatchSegmentRule e contains store ctx rule key salt st)"
  using returns_MatchClauses [OF assms, of e ctx "srule_clauses rule"]
  by (cases rule: returnsE) (auto simp: MatchSegmentRule_def split: option.splits sum.splits)

lemma returns_Contains_rules:
  assumes "contains_returns K S contains" and "segments_in store K" and "segments_seen st = S"
  shows "returns st (Contains_rules e contains store ctx seg rules st)"
  using assms(3)
proof (induction rules arbitrary: st)
  case (Cons rule rules)
  have "returns st (MatchSegmentRule e contains store ctx rule (segment_key seg) salt st)" for salt
    using assms(1,2) Cons.prems by (rule returns_MatchSegmentRule)
  then show ?case
  proof (cases "segment_salt seg")
    case (Some salt)
    have "returns st (MatchSegmentRule e contains store ctx rule (segment_key seg) salt st)"
      using assms(1,2) Cons.prems by (rule returns_MatchSegmentRule)
    then show ?thesis
      by (cases rule: returnsE) (auto simp: Some Cons stack_frame_seen intro: returns_trans)
  qed simp
qed simp

lemma returns_Contains_guarded:
  assumes "contains_returns K S contains" and "segments_in store K" and "segments_seen st = S"
  shows "returns st (Contains_guarded e contains store ctx seg st)"
proof (cases "unbounded seg")
  case True
  obtain r st' where m: "MatchBigSegment seg ctx st = (r, st')" by force
  then have f: "stack_frame st st'" using stack_frame_MatchBigSegment [of st seg ctx] by simp
  then have "returns st (Contains_rules e contains store ctx seg (segment_rules seg) st')"
    using assms by (intro returns_trans [OF f] returns_Contains_rules) (auto simp: stack_frame_seen)
  then show ?thesis using True m f by (simp add: Contains_guarded_def split: option.splits)
qed (use returns_Contains_rules [OF assms] in \<open>simp add: Contains_guarded_def\<close>)

lemma returns_Contains_body:
  assumes "contains_returns K (insert (segment_key seg) (segments_seen st)) contains \<or>
      segment_key seg \<in> segments_seen st" and "segments_in store K"
  shows "returns st (Contains_body e contains store ctx seg st)"
proof (cases "segment_key seg \<in> segments_seen st")
  case False
  let ?st = "st\<lparr>segments_seen := insert (segment_key seg) (segments_seen st)\<rparr>"
  have "returns ?st (Contains_guarded e contains store ctx seg ?st)"
    using assms False by (intro returns_Contains_guarded) auto
  then obtain r st' where "Contains_guarded e contains store ctx seg ?st = Some (r, st')"
    "stack_frame ?st st'" by (auto simp: returns_def)
  then show ?thesis
    using False
    by (auto simp: Contains_body_def NoticeSegment_def ReleaseSegment_def stack_frame_def)
qed (simp add: Contains_body_def NoticeSegment_def)

lemma Contains_returns:
  assumes "finite K" and "segments_in store K"
    and "segment_key seg \<in> K" and "card (K - segments_seen st) < fuel"
  shows "returns st (Contains fuel e store ctx seg st)"
  using assms(3,4)
proof (induction fuel arbitrary: seg st)
  case (Suc fuel)
  show ?case
  proof (cases "segment_key seg \<in> segments_seen st")
    case True
    then show ?thesis using assms(2) by (simp add: returns_Contains_body)
  next
    case False
    let ?S = "insert (segment_key seg) (segments_seen st)"
    have "card (K - ?S) < card (K - segments_seen st)"
      using False Suc.prems(1) assms(1) by (intro psubset_card_mono) auto
    then have "contains_returns K ?S (Contains fuel e store ctx)"
      using Suc by (simp add: contains_returns_def)
    then show ?thesis using assms(2) by (simp only: Contains.simps) (intro returns_Contains_body disjI1)
  qed
qed simp

section \<open>The result does not depend on the bound\<close>

definition refines :: "'a option \<Rightarrow> 'a option \<Rightarrow> bool" where
  "refines a b \<longleftrightarrow> a = None \<or> b = a"

lemma refines_simps [simp]: "refines None b" "refines a a" "refines (Some x) b \<longleftrightarrow> b = Some x"
  by (auto simp: refines_def)

definition contains_refines :: "ContainsFun \<Rightarrow> ContainsFun \<Rightarrow> bool" where
  "contains_refines f g \<longleftrightarrow> (\<forall>seg st. refines (f seg st) (g seg st))"

lemma contains_refinesD: "contains_refines f g \<Longrightarrow> f seg st = Some r \<Longrightarrow> g seg st = Some r"
  by (metis contains_refines_def refines_simps(3))

lemma refines_MatchSegment:
  assumes "contains_refines f g"
  shows "refines (MatchSegment f store clause vs st) (MatchSegment g store clause vs st)"
proof (induction vs arbitrary: st)
  case (Cons v vs)
  show ?case
  proof (cases "\<exists>d seg. Type v = kString \<and> GetSegment store (AsString v) = Some d \<and> descr_item d = Some seg")
    case True
    then obtain d seg where v: "Type v = kString" "GetSegment store (AsString v) = Some d"
      "descr_item d = Some seg" by blast
    show ?thesis
    proof (cases "f seg st")
      case (Some r)
      then show ?thesis
        using contains_refinesD [OF assms Some] Cons
        by (cases r) (simp add: v split: sum.splits bool.splits)
    qed (simp add: v)
  next
    case False
    then show ?thesis using Cons by (simp split: option.splits)
  qed
qed simp

lemma refines_MatchClause:
  "contains_refines f g \<Longrightarrow>
     refines (MatchClause e f store ctx clause st) (MatchClause e g store ctx clause st)"
  by (simp add: MatchClause_def refines_MatchSegment)

lemma refines_MatchClauses:
  assumes "contains_refines f g"
  shows "refines (MatchClauses e f store ctx clauses st) (MatchClauses e g store ctx clauses st)"
proof (induction clauses arbitrary: st)
  case (Cons clause clauses)
  show ?case
    using Cons refines_MatchClause [OF assms, of e store ctx clause st]
    by (cases "MatchClause e f store ctx clause st") (auto split: sum.splits bool.splits)
qed simp

lemma refines_MatchSegmentRule:
  assumes "contains_refines f g"
  shows "refines (MatchSegmentRule e f store ctx rule key salt st)
    (MatchSegmentRule e g store ctx rule key salt st)"
  using refines_MatchClauses [OF assms, of e store ctx "srule_clauses rule" st]
  by (cases "MatchClauses e f store ctx (srule_clauses rule) st")
    (auto simp: MatchSegmentRule_def)

lemma refines_Contains_rules:
  assumes "contains_refines f g"
  shows "refines (Contains_rules e f store ctx seg rules st) (Contains_rules e g store ctx seg rules st)"
proof (induction rules arbitrary: st)
  case (Cons rule rules)
  show ?case
  proof (cases "segment_salt seg")
    case (Some salt)
    then show ?thesis
      using Cons refines_MatchSegmentRule [OF assms, of e store ctx rule "segment_key seg" salt st]
      by (cases "MatchSegmentRule e f store ctx rule (segment_key seg) salt st")
        (auto split: sum.splits bool.splits)
  qed simp
qed simp

lemma refines_Contains_body:
  assumes "contains_refines f g"
  shows "refines (Contains_body e f store ctx seg st) (Contains_body e g store ctx seg st)"
proof -
  have "refines (Contains_guarded e f store ctx seg st) (Contains_guarded e g store ctx seg st)" for st
    using refines_Contains_rules [OF assms]
    by (auto simp: Contains_guarded_def split: option.splits prod.splits)
  then have "refines (map_option h (Contains_guarded e f store ctx seg st))
      (map_option h (Contains_guarded e g store ctx seg st))" for h :: "MatchResult \<Rightarrow> MatchResult" and st
    by (metis option.map_disc_iff refines_def)
  then show ?thesis
    by (simp add: Contains_body_def split: option.splits)
qed

lemma Contains_refines: "contains_refines (Contains fuel e store ctx) (Contains (Suc fuel) e store ctx)"
proof (induction fuel)
  case (Suc fuel)
  then show ?case by (auto simp: contains_refines_def refines_Contains_body)
qed (simp add: contains_refines_def)

lemma Contains_mono:
  assumes "Contains fuel e store ctx seg st = Some r" and "fuel \<le> fuel'"
  shows "Contains fuel' e store ctx seg st = Some r"
  using assms(2)
proof (induction rule: dec_induct)
  case (step n)
  then show ?case by (intro contains_refinesD [OF Contains_refines])
qed (rule assms(1))

lemma Contains_refines_le:
  "fuel \<le> fuel' \<Longrightarrow> contains_refines (Contains fuel e store ctx) (Contains fuel' e store ctx)"
  unfolding contains_refines_def refines_def by (metis Contains_mono not_None_eq)

section \<open>Properties\<close>

text \<open>
  The explicit targets of a bounded segment decide before its rules, and inclusion
  before exclusion: an included context is in the segment even when it is also excluded,
  and an excluded one that is not included is out whatever the rules say.
\<close>

theorem segment_targets_decide:
  assumes "\<not> unbounded seg" and "segment_key seg \<notin> segments_seen st"
  shows "(IsTargeted ctx (included seg) (includedContexts seg) \<longrightarrow>
      Contains (Suc fuel) e store ctx seg st = Some (Inr True, st)) \<and>
    (\<not> IsTargeted ctx (included seg) (includedContexts seg) \<and>
       IsTargeted ctx (excluded seg) (excludedContexts seg) \<longrightarrow>
      Contains (Suc fuel) e store ctx seg st = Some (Inr False, st))"
  using assms
  by (auto simp: Contains_body_def Contains_guarded_def NoticeSegment_def ReleaseSegment_def)

text \<open>
  Negating a clause on an attribute that the context has turns its result around; on
  an attribute that the context does not have, the clause does not match, negated or not.
\<close>

theorem clause_negation:
  assumes "ref_valid (clause_attribute clause)"
  shows "MatchNonSegment e (clause\<lparr>negate := \<not> negate clause\<rparr>) ctx =
    (if IsKind (clause_attribute clause) \<or>
        \<not> IsNull (Context_Get ctx (clause_contextKind clause) (clause_attribute clause))
     then map_sum id Not (MatchNonSegment e clause ctx)
     else Inr False)"
  using assms by (simp add: MatchNonSegment_def MaybeNegate_def Let_def)

text \<open>
  When an evaluation records the statuses of several big segment queries, the one it
  reports is the least trustworthy of them.
\<close>

theorem recorded_status_least_trusted:
  "Precedence (stack_status (fold RecordBigSegmentsStatus statuses st)) =
     Max (insert (Precedence (stack_status st)) (Precedence ` set statuses))"
proof (induction statuses arbitrary: st)
  case (Cons s statuses)
  let ?P = "Precedence ` set statuses"
  have "Precedence (stack_status (RecordBigSegmentsStatus s st)) =
      max (Precedence s) (Precedence (stack_status st))"
    by (simp add: RecordBigSegmentsStatus_def max_def)
  then show ?case using Cons by (cases "?P = {}") (simp_all add: max.assoc max.commute max.left_commute)
qed simp

section \<open>Examples\<close>

definition sample_segment :: Segment where
  "sample_segment =
     \<lparr>segment_key = ''seg'', segment_version = 1, included = [''bob''], excluded = [''bob''],
      includedContexts = [], excludedContexts = [], segment_rules = [], segment_salt = None,
      unbounded = False, unboundedContextKind = None, generation = None\<rparr>"

definition sample_clause :: Clause where
  "sample_clause =
     \<lparr>clause_op = kIn, clause_values = [VString ''bob''], negate = False,
      clause_contextKind = ''user'', clause_attribute = FromReferenceStr ''key''\<rparr>"

definition empty_store :: IStore where
  "empty_store = \<lparr>GetFlag = (\<lambda>_. None), GetSegment = (\<lambda>_. None)\<rparr>"

theorem segment_targets_decide_witness:
  "Contains 1 sample_env empty_store sample_context sample_segment (MakeEvaluationStack None) =
     Some (Inr True, MakeEvaluationStack None)"
proof -
  have "IsTargeted sample_context (included sample_segment) (includedContexts sample_segment)"
    by code_simp
  then show ?thesis
    using segment_targets_decide [of sample_segment "MakeEvaluationStack None" sample_context 0
        sample_env empty_store]
    by (simp add: sample_segment_def MakeEvaluationStack_def)
qed

theorem clause_negation_witness:
  "MatchNonSegment sample_env (sample_clause\<lparr>negate := True\<rparr>) sample_context = Inr False"
proof -
  have "ref_valid (clause_attribute sample_clause)"
    and "\<not> IsNull (Context_Get sample_context (clause_contextKind sample_clause)
      (clause_attribute sample_clause))"
    and "negate sample_clause = False"
    by code_simp+
  moreover have "MatchNonSegment sample_env sample_clause sample_context = Inr True"
    by code_simp
  ultimately show ?thesis
    using clause_negation [of sample_clause sample_env sample_context] by simp
qed

end
