(* ===== verification/Evaluator.thy ===== *)
theory Evaluator
  imports Rules
begin

text \<open>
  The evaluator (\<^verbatim>\<open>libs/server-sdk/src/evaluation/evaluator.cpp\<close>): targets, off variations,
  prerequisites, rules and fallthrough. A prerequisite is evaluated by the recursive
  call, which the step takes as the argument \<open>ev\<close>; \<open>EvaluateRec\<close> ties the knot with a
  bound on the depth, \<open>None\<close> being the result when the bound is reached. The lemmas show
  that evaluation returns for every finite store, cycles included, whatever the bound
  above the number of flags and segments, and what it returns.
\<close>

section \<open>State\<close>

text \<open>
  Besides the stack, an evaluation sends an event for each prerequisite it evaluated and
  writes errors to the log.
\<close>

record PrereqEvent =
  pe_key :: string
  pe_flag :: Flag
  pe_detail :: "Value EvaluationDetail"
  pe_prereq_of :: string

record EvalState =
  ev_stack :: EvaluationStack
  ev_sent :: "PrereqEvent list"
  ev_log :: "(string \<times> Error) list"

type_synonym Detail = "Value EvaluationDetail"

definition LogError :: "string \<Rightarrow> Error \<Rightarrow> EvalState \<Rightarrow> EvalState" where
  "LogError key err s = s\<lparr>ev_log := ev_log s @ [(key, err)]\<rparr>"

definition WithBigSegmentsStatus :: "Detail \<Rightarrow> BigSegmentsStatus \<Rightarrow> Detail" where
  "WithBigSegmentsStatus detail status =
     (case detail_reason detail of
        None \<Rightarrow> detail
      | Some r \<Rightarrow>
          EvaluationDetail3 (detail_value detail) (variation_index detail)
            (Some (EvaluationReason7 (reason_kind r) (error_kind r) (rule_index r) (rule_id r)
                     (prerequisite_key r) (in_experiment r) status)))"

section \<open>Variations and targets\<close>

definition FlagVariation :: "Flag \<Rightarrow> i64 \<Rightarrow> EvaluationReason \<Rightarrow> EvalState \<Rightarrow> Detail \<times> EvalState" where
  "FlagVariation flag index reason s =
     (if sint index < 0 \<or> length (variations flag) \<le> unat index then
        (EvaluationDetail_reason MalformedFlag,
         LogError (flag_key flag) (NonexistentVariationIndex index) s)
      else (EvaluationDetail3 (variations flag ! unat index) (Some index) (Some reason), s))"

definition OffValue :: "Flag \<Rightarrow> EvaluationReason \<Rightarrow> EvalState \<Rightarrow> Detail \<times> EvalState" where
  "OffValue flag reason s =
     (case offVariation flag of
        Some index \<Rightarrow> FlagVariation flag index reason s
      | None \<Rightarrow> (EvaluationDetail_reason reason, s))"

definition TargetMatchVariation :: "Context \<Rightarrow> Target \<Rightarrow> u64 option" where
  "TargetMatchVariation ctx target =
     (let key = Context_Get ctx (target_contextKind target) (FromReferenceStr ''key'') in
      if IsNull key then None
      else if list_ex (\<lambda>v. value_eq (VString v) key) (target_values target)
      then Some (target_variation target)
      else None)"

text \<open>The first target of a list that matches.\<close>

fun first_target :: "Context \<Rightarrow> Target list \<Rightarrow> u64 option" where
  "first_target ctx [] = None"
| "first_target ctx (target # rest) =
     (case TargetMatchVariation ctx target of
        Some index \<Rightarrow> Some index
      | None \<Rightarrow> first_target ctx rest)"

fun context_targets :: "Context \<Rightarrow> Target list \<Rightarrow> Target list \<Rightarrow> u64 option" where
  "context_targets ctx user_targets [] = None"
| "context_targets ctx user_targets (target # rest) =
     (case (if IsUser (target_contextKind target) \<and> target_values target = []
            then first_target ctx
                   (filter (\<lambda>t. target_variation t = target_variation target) user_targets)
            else TargetMatchVariation ctx target) of
        Some index \<Rightarrow> Some index
      | None \<Rightarrow> context_targets ctx user_targets rest)"

definition AnyTargetMatchVariation :: "Context \<Rightarrow> Flag \<Rightarrow> u64 option" where
  "AnyTargetMatchVariation ctx flag =
     (if contextTargets flag = [] then first_target ctx (targets flag)
      else context_targets ctx (targets flag) (contextTargets flag))"

section \<open>Rules and fallthrough\<close>

definition on_stack ::
  "(EvaluationStack \<Rightarrow> MatchResult option) \<Rightarrow> EvalState \<Rightarrow> ((Error + bool) \<times> EvalState) option" where
  "on_stack f s = map_option (\<lambda>(r, st). (r, s\<lparr>ev_stack := st\<rparr>)) (f (ev_stack s))"

definition Malformed :: "Flag \<Rightarrow> Error \<Rightarrow> EvalState \<Rightarrow> Detail \<times> EvalState" where
  "Malformed flag err s =
     (EvaluationDetail_reason MalformedFlag, LogError (flag_key flag) err s)"

text \<open>The loop over the rules from \<open>index\<close> on, ending in the fallthrough.\<close>

fun Evaluate_rules ::
  "env \<Rightarrow> ContainsFun \<Rightarrow> IStore \<Rightarrow> Context \<Rightarrow> Flag \<Rightarrow> u64 \<Rightarrow> Rule list \<Rightarrow> EvalState \<Rightarrow>
   (Detail \<times> EvalState) option" where
  "Evaluate_rules e contains store ctx flag index [] s =
     (case Variation e (fallthrough flag) (flag_key flag) ctx (flag_salt flag) of
        Inl err \<Rightarrow> Some (Malformed flag err s)
      | Inr r \<Rightarrow> Some (FlagVariation flag (VariationIndex r) (Fallthrough (InExperiment r)) s))"
| "Evaluate_rules e contains store ctx flag index (rule # rest) s =
     (case on_stack (MatchFlagRule e contains store ctx rule) s of
        None \<Rightarrow> None
      | Some (Inl err, s') \<Rightarrow> Some (Malformed flag err s')
      | Some (Inr False, s') \<Rightarrow> Evaluate_rules e contains store ctx flag (index + 1) rest s'
      | Some (Inr True, s') \<Rightarrow>
          (case Variation e (variationOrRollout rule) (flag_key flag) ctx (flag_salt flag) of
             Inl err \<Rightarrow> Some (Malformed flag err s')
           | Inr r \<Rightarrow>
               Some (FlagVariation flag (VariationIndex r)
                       (RuleMatch index (flag_rule_id rule) (InExperiment r)) s')))"

definition Evaluate_targets ::
  "env \<Rightarrow> ContainsFun \<Rightarrow> IStore \<Rightarrow> Context \<Rightarrow> Flag \<Rightarrow> EvalState \<Rightarrow> (Detail \<times> EvalState) option" where
  "Evaluate_targets e contains store ctx flag s =
     (case AnyTargetMatchVariation ctx flag of
        Some index \<Rightarrow> Some (FlagVariation flag index TargetMatch s)
      | None \<Rightarrow> Evaluate_rules e contains store ctx flag 0 (flag_rules flag) s)"

section \<open>Prerequisites\<close>

type_synonym EvaluateFun = "string option \<Rightarrow> Flag \<Rightarrow> EvalState \<Rightarrow> (Detail \<times> EvalState) option"

text \<open>
  The loop over the prerequisites: the detail to return at once, if any, and the state.
\<close>

fun Evaluate_prereqs ::
  "EvaluateFun \<Rightarrow> IStore \<Rightarrow> Flag \<Rightarrow> Prerequisite list \<Rightarrow> EvalState \<Rightarrow>
   (Detail option \<times> EvalState) option" where
  "Evaluate_prereqs ev store flag [] s = Some (None, s)"
| "Evaluate_prereqs ev store flag (p # ps) s =
     (let failed = (\<lambda>s. Some (apfst Some (OffValue flag (PrerequisiteFailed (prereq_key p)) s))) in
      case GetFlag store (prereq_key p) of
        None \<Rightarrow> failed s
      | Some d \<Rightarrow>
          (case descr_item d of
             None \<Rightarrow> failed s
           | Some pf \<Rightarrow>
               (case ev (Some (flag_key flag)) pf s of
                  None \<Rightarrow> None
                | Some (detail, s1) \<Rightarrow>
                    if IsError detail then Some (Some detail, s1)
                    else
                      (let s2 = s1\<lparr>ev_sent := ev_sent s1 @
                                   [\<lparr>pe_key = prereq_key p, pe_flag = pf, pe_detail = detail,
                                     pe_prereq_of = flag_key flag\<rparr>]\<rparr>
                       in if \<not> flag_on pf \<or> variation_index detail \<noteq> Some (prereq_variation p)
                          then failed s2
                          else Evaluate_prereqs ev store flag ps s2))))"

definition release :: "Flag \<Rightarrow> EvalState \<Rightarrow> EvalState" where
  "release flag s = s\<lparr>ev_stack := ReleasePrerequisite (flag_key flag) (ev_stack s)\<rparr>"

text \<open>
  One evaluation. The guard is held through the prerequisites and released before the
  targets and the rules, or when the function returns from the block it guards.
\<close>

definition Evaluate_body ::
  "env \<Rightarrow> ContainsFun \<Rightarrow> EvaluateFun \<Rightarrow> IStore \<Rightarrow> Context \<Rightarrow> EvaluateFun" where
  "Evaluate_body e contains ev store ctx parent_key flag s =
     (case NoticePrerequisite (flag_key flag) (ev_stack s) of
        None \<Rightarrow>
          Some (EvaluationDetail_reason MalformedFlag,
                LogError (case parent_key of Some k \<Rightarrow> k | None \<Rightarrow> ''(no parent)'')
                  (CyclicPrerequisiteReference (flag_key flag)) s)
      | Some st \<Rightarrow>
          (let s1 = s\<lparr>ev_stack := st\<rparr> in
           if \<not> flag_on flag then Some (apsnd (release flag) (OffValue flag Off s1))
           else
             (case Evaluate_prereqs ev store flag (prerequisites flag) s1 of
                None \<Rightarrow> None
              | Some (Some detail, s2) \<Rightarrow> Some (detail, release flag s2)
              | Some (None, s2) \<Rightarrow> Evaluate_targets e contains store ctx flag (release flag s2))))"

primrec EvaluateRec :: "nat \<Rightarrow> env \<Rightarrow> ContainsFun \<Rightarrow> IStore \<Rightarrow> Context \<Rightarrow> EvaluateFun" where
  "EvaluateRec 0 e contains store ctx = (\<lambda>parent flag s. None)"
| "EvaluateRec (Suc fuel) e contains store ctx =
     Evaluate_body e contains (EvaluateRec fuel e contains store ctx) store ctx"

definition Evaluate ::
  "nat \<Rightarrow> env \<Rightarrow> IStore \<Rightarrow> (string \<Rightarrow> Membership \<times> LookupStatus) option \<Rightarrow> Flag \<Rightarrow> Context \<Rightarrow>
   (Detail \<times> EvalState) option" where
  "Evaluate fuel e store big_segments flag ctx =
     (let s = \<lparr>ev_stack = MakeEvaluationStack big_segments, ev_sent = [], ev_log = []\<rparr> in
      case EvaluateRec fuel e (Contains fuel e store ctx) store ctx None flag s of
        None \<Rightarrow> None
      | Some (detail, s') \<Rightarrow>
          (let status = stack_status (ev_stack s') in
           Some (if status \<noteq> kNone then WithBigSegmentsStatus detail status else detail, s')))"

section \<open>Evaluation returns\<close>

definition ev_returns :: "EvalState \<Rightarrow> ('a \<times> EvalState) option \<Rightarrow> bool" where
  "ev_returns s res \<longleftrightarrow>
     (\<exists>d s'. res = Some (d, s') \<and> stack_frame (ev_stack s) (ev_stack s'))"

lemma ev_returns_Some [simp]:
  "ev_returns s (Some (d, s')) \<longleftrightarrow> stack_frame (ev_stack s) (ev_stack s')"
  by (simp add: ev_returns_def)

lemma ev_returns_Some_pair [simp]:
  "ev_returns s (Some p) \<longleftrightarrow> stack_frame (ev_stack s) (ev_stack (snd p))"
  by (cases p) simp

lemma ev_returns_trans:
  "stack_frame (ev_stack s) (ev_stack s') \<Longrightarrow> ev_returns s' res \<Longrightarrow> ev_returns s res"
  by (auto simp: ev_returns_def intro: stack_frame_trans)

lemma ev_stack_simps [simp, frame_simps]:
  "ev_stack (LogError key err s) = ev_stack s"
  "ev_stack (snd (FlagVariation flag index reason s)) = ev_stack s"
  "ev_stack (snd (OffValue flag reason s)) = ev_stack s"
  "ev_stack (snd (Malformed flag err s)) = ev_stack s"
  by (auto simp: LogError_def FlagVariation_def OffValue_def Malformed_def split: option.splits)

lemma ev_returns_rules:
  assumes "contains_returns K S contains" and "segments_in store K"
    and "segments_seen (ev_stack s) = S"
  shows "ev_returns s (Evaluate_rules e contains store ctx flag index rules s)"
  using assms(3)
proof (induction rules arbitrary: index s)
  case Nil
  then show ?case by (simp split: sum.splits)
next
  case (Cons rule rules)
  have "returns (ev_stack s) (MatchFlagRule e contains store ctx rule (ev_stack s))"
    unfolding MatchFlagRule_def using assms(1,2) Cons.prems by (rule returns_MatchClauses)
  moreover have "ev_returns s (Evaluate_rules e contains store ctx flag i rules s')"
    if "stack_frame (ev_stack s) (ev_stack s')" for i s'
    using that Cons stack_frame_seen [OF that] by (intro ev_returns_trans [OF that]) simp
  ultimately show ?case
    by (cases rule: returnsE) (auto simp: on_stack_def split: sum.splits)
qed

lemma ev_returns_targets:
  assumes "contains_returns K S contains" and "segments_in store K"
    and "segments_seen (ev_stack s) = S"
  shows "ev_returns s (Evaluate_targets e contains store ctx flag s)"
  using ev_returns_rules [OF assms] by (simp add: Evaluate_targets_def split: option.splits)

text \<open>The flags that a store gives have their keys in \<open>K\<close>.\<close>

definition flags_in :: "IStore \<Rightarrow> string set \<Rightarrow> bool" where
  "flags_in store K \<longleftrightarrow>
     (\<forall>k d f. GetFlag store k = Some d \<longrightarrow> descr_item d = Some f \<longrightarrow> flag_key f \<in> K)"

text \<open>Evaluations with keys in \<open>K\<close>, guards \<open>P\<close> held and no segment guard held return.\<close>

definition evaluate_returns :: "string set \<Rightarrow> string set \<Rightarrow> EvaluateFun \<Rightarrow> bool" where
  "evaluate_returns K P ev \<longleftrightarrow>
     (\<forall>parent flag s. flag_key flag \<in> K \<longrightarrow> prerequisites_seen (ev_stack s) = P \<longrightarrow>
        segments_seen (ev_stack s) = {} \<longrightarrow> ev_returns s (ev parent flag s))"

lemma stack_frame_guards:
  "stack_frame st st' \<Longrightarrow>
     segments_seen st' = segments_seen st \<and> prerequisites_seen st' = prerequisites_seen st"
  by (simp add: stack_frame_def)

lemma ev_returns_prereqs:
  assumes "evaluate_returns K P ev" and "flags_in store K"
    and "prerequisites_seen (ev_stack s) = P" and "segments_seen (ev_stack s) = {}"
  shows "ev_returns s (Evaluate_prereqs ev store flag ps s)"
  using assms(3,4)
proof (induction ps arbitrary: s)
  case (Cons p ps)
  show ?case
  proof (cases "\<exists>d pf. GetFlag store (prereq_key p) = Some d \<and> descr_item d = Some pf")
    case True
    then obtain d pf where p: "GetFlag store (prereq_key p) = Some d" "descr_item d = Some pf"
      by blast
    then have "ev_returns s (ev (Some (flag_key flag)) pf s)"
      using assms(1,2) Cons.prems by (auto simp: evaluate_returns_def flags_in_def)
    then obtain detail s1 where e: "ev (Some (flag_key flag)) pf s = Some (detail, s1)"
      and f: "stack_frame (ev_stack s) (ev_stack s1)" by (auto simp: ev_returns_def)
    have "ev_returns s (Evaluate_prereqs ev store flag ps (s1\<lparr>ev_sent := x\<rparr>))" for x
      using f Cons stack_frame_guards [OF f] by (intro ev_returns_trans [of s "s1\<lparr>ev_sent := x\<rparr>"]) auto
    then show ?thesis using f by (auto simp: p e Let_def)
  next
    case False
    then show ?thesis by (auto simp: Let_def split: option.splits)
  qed
qed simp

lemma ev_returns_body:
  assumes "evaluate_returns K (insert (flag_key flag) (prerequisites_seen (ev_stack s))) ev \<or>
      flag_key flag \<in> prerequisites_seen (ev_stack s)"
    and "flags_in store K" and "contains_returns SK {} contains" and "segments_in store SK"
    and "segments_seen (ev_stack s) = {}"
  shows "ev_returns s (Evaluate_body e contains ev store ctx parent flag s)"
proof (cases "flag_key flag \<in> prerequisites_seen (ev_stack s)")
  case False
  let ?st = "(ev_stack s)\<lparr>prerequisites_seen := insert (flag_key flag) (prerequisites_seen (ev_stack s))\<rparr>"
  let ?s = "s\<lparr>ev_stack := ?st\<rparr>"
  have rel: "stack_frame (ev_stack s) (ev_stack (release flag s'))" if "stack_frame ?st (ev_stack s')" for s'
    using that False by (auto simp: stack_frame_def release_def ReleasePrerequisite_def)
  have "ev_returns ?s (Evaluate_prereqs ev store flag (prerequisites flag) ?s)"
    using assms False by (intro ev_returns_prereqs [of K]) auto
  then obtain r s2 where p: "Evaluate_prereqs ev store flag (prerequisites flag) ?s = Some (r, s2)"
    and f: "stack_frame ?st (ev_stack s2)" by (auto simp: ev_returns_def)
  have "ev_returns (release flag s2) (Evaluate_targets e contains store ctx flag (release flag s2))"
    using assms(3-5) stack_frame_seen [OF rel [OF f]] by (intro ev_returns_targets) auto
  then have "ev_returns s (Evaluate_targets e contains store ctx flag (release flag s2))"
    using rel [OF f] by (rule ev_returns_trans [rotated])
  then show ?thesis
    using False p rel [OF f] rel [of "snd (OffValue flag Off ?s)"]
    by (auto simp: Evaluate_body_def NoticePrerequisite_def Let_def split: option.splits)
qed (simp add: Evaluate_body_def NoticePrerequisite_def)

lemma EvaluateRec_returns:
  assumes "finite K" and "flags_in store K" and "contains_returns SK {} contains"
    and "segments_in store SK"
    and "flag_key flag \<in> K" and "card (K - prerequisites_seen (ev_stack s)) < fuel"
    and "segments_seen (ev_stack s) = {}"
  shows "ev_returns s (EvaluateRec fuel e contains store ctx parent flag s)"
  using assms(5-7)
proof (induction fuel arbitrary: parent flag s)
  case (Suc fuel)
  let ?P = "prerequisites_seen (ev_stack s)"
  have "evaluate_returns K (insert (flag_key flag) ?P) (EvaluateRec fuel e contains store ctx)"
    if "flag_key flag \<notin> ?P"
  proof -
    have "card (K - insert (flag_key flag) ?P) < card (K - ?P)"
      using that Suc.prems(1) assms(1) by (intro psubset_card_mono) auto
    then show ?thesis using Suc by (simp add: evaluate_returns_def)
  qed
  then show ?case
    using assms(2-4) Suc.prems(3) by (simp only: EvaluateRec.simps) (intro ev_returns_body, auto)
qed simp

section \<open>The result does not depend on the bound\<close>

lemma refines_Evaluate_rules:
  assumes "contains_refines f g"
  shows "refines (Evaluate_rules e f store ctx flag index rules s)
    (Evaluate_rules e g store ctx flag index rules s)"
proof (induction rules arbitrary: index s)
  case (Cons rule rules)
  have "refines (on_stack (MatchFlagRule e f store ctx rule) s)
      (on_stack (MatchFlagRule e g store ctx rule) s)"
    using refines_MatchClauses [OF assms, of e store ctx "rule_clauses rule" "ev_stack s"]
    by (auto simp: on_stack_def MatchFlagRule_def refines_def)
  then show ?case
    using Cons by (cases "on_stack (MatchFlagRule e f store ctx rule) s")
      (auto split: sum.splits bool.splits)
qed simp

lemma refines_Evaluate_targets:
  "contains_refines f g \<Longrightarrow>
     refines (Evaluate_targets e f store ctx flag s) (Evaluate_targets e g store ctx flag s)"
  by (simp add: Evaluate_targets_def refines_Evaluate_rules split: option.splits)

definition evaluate_refines :: "EvaluateFun \<Rightarrow> EvaluateFun \<Rightarrow> bool" where
  "evaluate_refines f g \<longleftrightarrow> (\<forall>parent flag s. refines (f parent flag s) (g parent flag s))"

lemma evaluate_refinesD:
  "evaluate_refines f g \<Longrightarrow> f parent flag s = Some r \<Longrightarrow> g parent flag s = Some r"
  by (metis evaluate_refines_def refines_simps(3))

lemma refines_Evaluate_prereqs:
  assumes "evaluate_refines f g"
  shows "refines (Evaluate_prereqs f store flag ps s) (Evaluate_prereqs g store flag ps s)"
proof (induction ps arbitrary: s)
  case (Cons p ps)
  show ?case
  proof (cases "\<exists>d pf. GetFlag store (prereq_key p) = Some d \<and> descr_item d = Some pf")
    case True
    then obtain d pf where p: "GetFlag store (prereq_key p) = Some d" "descr_item d = Some pf"
      by blast
    show ?thesis
    proof (cases "f (Some (flag_key flag)) pf s")
      case (Some r)
      then show ?thesis
        using evaluate_refinesD [OF assms Some] Cons by (cases r) (simp add: p Let_def)
    qed (simp add: p Let_def)
  next
    case False
    then show ?thesis by (auto simp: Let_def split: option.splits)
  qed
qed simp

lemma refines_Evaluate_body:
  assumes "contains_refines f g" and "evaluate_refines ev ev'"
  shows "refines (Evaluate_body e f ev store ctx parent flag s)
    (Evaluate_body e g ev' store ctx parent flag s)"
proof (cases "NoticePrerequisite (flag_key flag) (ev_stack s)")
  case (Some st)
  let ?s = "s\<lparr>ev_stack := st\<rparr>"
  show ?thesis
  proof (cases "Evaluate_prereqs ev store flag (prerequisites flag) ?s")
    case (Some r)
    then have "Evaluate_prereqs ev' store flag (prerequisites flag) ?s = Some r"
      using refines_Evaluate_prereqs [OF assms(2), of store flag "prerequisites flag" ?s] by simp
    then show ?thesis
      using Some \<open>NoticePrerequisite _ _ = _\<close> refines_Evaluate_targets [OF assms(1)]
      by (cases r) (simp add: Evaluate_body_def Let_def split: option.splits)
  qed (simp add: Evaluate_body_def Some Let_def)
qed (simp add: Evaluate_body_def)

lemma EvaluateRec_refines:
  assumes "contains_refines f g"
  shows "evaluate_refines (EvaluateRec fuel e f store ctx) (EvaluateRec (fuel + n) e g store ctx)"
proof (induction fuel)
  case (Suc fuel)
  then show ?case using assms by (auto simp: evaluate_refines_def intro!: refines_Evaluate_body)
qed (simp add: evaluate_refines_def)

lemma Evaluate_mono:
  assumes "Evaluate fuel e store bs flag ctx = Some r" and "fuel \<le> fuel'"
  shows "Evaluate fuel' e store bs flag ctx = Some r"
proof -
  let ?s = "\<lparr>ev_stack = MakeEvaluationStack bs, ev_sent = [], ev_log = []\<rparr>"
  obtain p where p: "EvaluateRec fuel e (Contains fuel e store ctx) store ctx None flag ?s = Some p"
    using assms(1) by (auto simp: Evaluate_def Let_def split: option.splits)
  have "evaluate_refines (EvaluateRec fuel e (Contains fuel e store ctx) store ctx)
      (EvaluateRec fuel' e (Contains fuel' e store ctx) store ctx)"
    using EvaluateRec_refines [OF Contains_refines_le [OF assms(2)], where n = "fuel' - fuel" and fuel = fuel]
      assms(2) by simp
  then have "EvaluateRec fuel' e (Contains fuel' e store ctx) store ctx None flag ?s = Some p"
    using p by (rule evaluate_refinesD)
  then show ?thesis using assms(1) p by (simp add: Evaluate_def Let_def)
qed

section \<open>A finite store\<close>

text \<open>
  The contract of a store for the evaluator: the flags and the segments it can give have
  finitely many keys.
\<close>

locale finite_store =
  fixes store :: IStore and FK SK :: "string set"
  assumes finite_keys: "finite FK" "finite SK"
    and flag_keys: "GetFlag store k = Some d \<Longrightarrow> descr_item d = Some f \<Longrightarrow> flag_key f \<in> FK"
    and segment_keys: "GetSegment store k = Some d' \<Longrightarrow> descr_item d' = Some seg \<Longrightarrow> segment_key seg \<in> SK"
begin

lemma contains_returns: "card SK < fuel \<Longrightarrow> contains_returns SK {} (Contains fuel e store ctx)"
  using finite_keys(2) segment_keys
  by (auto simp: contains_returns_def segments_in_def intro!: Contains_returns)

lemma Evaluate_returns:
  assumes "card (insert (flag_key flag) FK) < fuel" and "card SK < fuel"
  shows "\<exists>d s. Evaluate fuel e store bs flag ctx = Some (d, s) \<and>
    prerequisites_seen (ev_stack s) = {} \<and> segments_seen (ev_stack s) = {}"
proof -
  let ?s = "\<lparr>ev_stack = MakeEvaluationStack bs, ev_sent = [], ev_log = []\<rparr>"
  have "ev_returns ?s (EvaluateRec fuel e (Contains fuel e store ctx) store ctx None flag ?s)"
  proof (rule EvaluateRec_returns)
    show "contains_returns SK {} (Contains fuel e store ctx)" using assms(2) by (rule contains_returns)
    show "finite (insert (flag_key flag) FK)" using finite_keys(1) by simp
    show "flags_in store (insert (flag_key flag) FK)" using flag_keys by (auto simp: flags_in_def)
    show "segments_in store SK" using segment_keys by (auto simp: segments_in_def)
    show "card (insert (flag_key flag) FK - prerequisites_seen (ev_stack ?s)) < fuel"
      using assms(1) by (simp add: MakeEvaluationStack_def)
  qed (simp_all add: MakeEvaluationStack_def)
  then show ?thesis
    by (auto simp: ev_returns_def Evaluate_def Let_def stack_frame_def MakeEvaluationStack_def)
qed

lemma Evaluate_total:
  "\<exists>d s. \<forall>fuel > max (Suc (card FK)) (card SK).
     Evaluate fuel e store bs flag ctx = Some (d, s) \<and>
     prerequisites_seen (ev_stack s) = {} \<and> segments_seen (ev_stack s) = {}"
proof -
  let ?n = "Suc (max (Suc (card FK)) (card SK))"
  have "card (insert (flag_key flag) FK) \<le> Suc (card FK)" using finite_keys(1) by (simp add: card_insert_if)
  then have "card (insert (flag_key flag) FK) < ?n" and "card SK < ?n"
    by (simp_all add: less_Suc_eq_le le_max_iff_disj)
  then obtain d s where d: "Evaluate ?n e store bs flag ctx = Some (d, s)"
    "prerequisites_seen (ev_stack s) = {}" "segments_seen (ev_stack s) = {}"
    using Evaluate_returns by blast
  have "Evaluate fuel e store bs flag ctx = Some (d, s)" if "max (Suc (card FK)) (card SK) < fuel" for fuel
    using Suc_leI [OF that] by (rule Evaluate_mono [OF d(1)])
  then show ?thesis using d(2,3) by blast
qed

end

section \<open>What evaluation returns\<close>

text \<open>
  A detail that fits a flag: the error of a malformed flag, or no error and either no
  variation or one of the flag's variations with its value.
\<close>

definition detail_ok :: "Flag \<Rightarrow> Detail \<Rightarrow> bool" where
  "detail_ok flag d \<longleftrightarrow>
     d = EvaluationDetail_reason MalformedFlag \<or>
     (\<not> IsError d \<and>
        (case variation_index d of
           None \<Rightarrow> detail_value d = VNull
         | Some i \<Rightarrow> 0 \<le> sint i \<and> unat i < length (variations flag) \<and>
                     detail_value d = variations flag ! unat i))"

lemma detail_ok_Malformed [simp]: "detail_ok flag (EvaluationDetail_reason MalformedFlag)"
  by (simp add: detail_ok_def)

lemma detail_ok_FlagVariation:
  "FlagVariation flag index reason s = (d, s') \<Longrightarrow> error_kind reason = None \<Longrightarrow> detail_ok flag d"
  by (auto simp: FlagVariation_def detail_ok_def IsError_def EvaluationDetail3_def split: if_splits)

lemma error_kind_reasons [simp]:
  "error_kind Off = None" "error_kind (PrerequisiteFailed key) = None" "error_kind TargetMatch = None"
  "error_kind (Fallthrough b) = None" "error_kind (RuleMatch i rid b) = None"
  by (simp_all add: reason_defs)

lemma detail_ok_OffValue:
  assumes "OffValue flag reason s = (d, s')" and "error_kind reason = None"
  shows "detail_ok flag d"
proof (cases "offVariation flag")
  case None
  then have "d = EvaluationDetail_reason reason" using assms(1) by (simp add: OffValue_def)
  then show ?thesis using assms(2) by (simp add: detail_ok_def IsError_def EvaluationDetail_reason_def)
next
  case (Some index)
  then show ?thesis using assms by (simp add: OffValue_def detail_ok_FlagVariation)
qed

lemmas detail_ok_reasons =
  detail_ok_FlagVariation [OF _ error_kind_reasons(3)]
  detail_ok_FlagVariation [OF _ error_kind_reasons(4)]
  detail_ok_FlagVariation [OF _ error_kind_reasons(5)]
  detail_ok_OffValue [OF _ error_kind_reasons(1)]
  detail_ok_OffValue [OF _ error_kind_reasons(2)]

lemma detail_ok_rules:
  "Evaluate_rules e contains store ctx flag index rules s = Some (d, s') \<Longrightarrow> detail_ok flag d"
  by (induction rules arbitrary: index s)
    (auto simp: Malformed_def split: option.splits sum.splits bool.splits
      dest: detail_ok_reasons)

lemma detail_ok_targets:
  "Evaluate_targets e contains store ctx flag s = Some (d, s') \<Longrightarrow> detail_ok flag d"
  by (auto simp: Evaluate_targets_def split: option.splits
      dest: detail_ok_rules detail_ok_reasons)

lemma apfst_eq_iff: "apfst f p = (a, b) \<longleftrightarrow> (\<exists>x. p = (x, b) \<and> a = f x)"
  by (cases p) auto

lemma apsnd_eq_iff: "apsnd f p = (a, b) \<longleftrightarrow> (\<exists>y. p = (a, y) \<and> b = f y)"
  by (cases p) auto

lemma detail_ok_prereqs:
  assumes "\<And>parent pf s d s'. ev parent pf s = Some (d, s') \<Longrightarrow> detail_ok pf d"
    and "Evaluate_prereqs ev store flag ps s = Some (Some d, s')"
  shows "detail_ok flag d"
  using assms(2)
proof (induction ps arbitrary: s)
  case (Cons p ps)
  have err: "detail_ok flag d" if "ev parent pf s = Some (d, s')" "IsError d" for parent pf s
    using assms(1) [OF that(1)] that(2) by (auto simp: detail_ok_def)
  show ?case
    using Cons err
    by (auto simp: Let_def apfst_eq_iff split: option.splits prod.splits if_splits
        dest: detail_ok_reasons)
qed simp

lemma detail_ok_EvaluateRec:
  "EvaluateRec fuel e contains store ctx parent flag s = Some (d, s') \<Longrightarrow> detail_ok flag d"
proof (induction fuel arbitrary: parent flag s d s')
  case (Suc fuel)
  let ?ev = "EvaluateRec fuel e contains store ctx"
  have pre: "detail_ok flag d" if "Evaluate_prereqs ?ev store flag ps s = Some (Some d, s')" for ps s s'
    using Suc.IH that by (rule detail_ok_prereqs)
  show ?case
  proof (cases "flag_on flag")
    case True
    then show ?thesis
      using Suc.prems pre
      by (auto simp: Evaluate_body_def Let_def split: option.splits dest: detail_ok_targets)
  next
    case False
    then show ?thesis
      using Suc.prems
      by (auto simp: Evaluate_body_def Let_def apsnd_eq_iff split: option.splits
          dest: detail_ok_reasons)
  qed
qed simp

section \<open>Events\<close>

text \<open>Evaluation only adds events.\<close>

definition sent_extends :: "EvalState \<Rightarrow> EvalState \<Rightarrow> bool" where
  "sent_extends s s' \<longleftrightarrow> set (ev_sent s) \<subseteq> set (ev_sent s')"

lemma sent_simps [simp, frame_simps]:
  "ev_sent (LogError key err s) = ev_sent s"
  "ev_sent (release flag s) = ev_sent s"
  by (simp_all add: LogError_def release_def)

lemma sent_FlagVariation [frame_simps]: "FlagVariation flag index reason s = (d, s') \<Longrightarrow> ev_sent s' = ev_sent s"
  by (auto simp: FlagVariation_def split: if_splits)

lemma sent_OffValue [frame_simps]: "OffValue flag reason s = (d, s') \<Longrightarrow> ev_sent s' = ev_sent s"
  by (auto simp: OffValue_def sent_FlagVariation split: option.splits)

lemma sent_Malformed [frame_simps]: "Malformed flag err s = (d, s') \<Longrightarrow> ev_sent s' = ev_sent s"
  by (auto simp: Malformed_def)

lemma sent_on_stack [frame_simps]: "on_stack f s = Some (r, s') \<Longrightarrow> ev_sent s' = ev_sent s"
  by (auto simp: on_stack_def)

lemma sent_rules:
  "Evaluate_rules e contains store ctx flag index rules s = Some (d, s') \<Longrightarrow> ev_sent s' = ev_sent s"
proof (induction rules arbitrary: index s)
  case Nil
  then show ?case by (auto split: sum.splits dest: sent_FlagVariation sent_Malformed)
next
  case (Cons rule rules)
  then show ?case
    by (auto split: option.splits sum.splits bool.splits
        dest!: sent_FlagVariation sent_Malformed sent_on_stack)
qed

lemma sent_targets:
  "Evaluate_targets e contains store ctx flag s = Some (d, s') \<Longrightarrow> ev_sent s' = ev_sent s"
  by (auto simp: Evaluate_targets_def split: option.splits dest: sent_rules sent_FlagVariation)

text \<open>Whatever returns leaves the prerequisite guards as it found them.\<close>

definition keeps_guards :: "(EvaluationStack \<Rightarrow> ('r \<times> EvaluationStack) option) \<Rightarrow> bool" where
  "keeps_guards f \<longleftrightarrow>
     (\<forall>st r st'. f st = Some (r, st') \<longrightarrow> prerequisites_seen st' = prerequisites_seen st)"

lemma keeps_guardsD: "keeps_guards f \<Longrightarrow> f st = Some (r, st') \<Longrightarrow> prerequisites_seen st' = prerequisites_seen st"
  by (simp add: keeps_guards_def)

lemma guards_MatchSegment:
  assumes "\<And>seg. keeps_guards (contains seg)"
  shows "MatchSegment contains store clause vs st = Some (r, st') \<Longrightarrow> prerequisites_seen st' = prerequisites_seen st"
  by (induction vs arbitrary: st)
    (auto split: if_splits option.splits sum.splits bool.splits dest: keeps_guardsD [OF assms])

lemma guards_MatchClauses:
  assumes "\<And>seg. keeps_guards (contains seg)"
  shows "MatchClauses e contains store ctx clauses st = Some (r, st') \<Longrightarrow> prerequisites_seen st' = prerequisites_seen st"
proof (induction clauses arbitrary: st)
  case (Cons clause clauses)
  have "prerequisites_seen st2 = prerequisites_seen st"
    if "MatchClause e contains store ctx clause st = Some (r2, st2)" for r2 st2
    using that guards_MatchSegment [OF assms] by (auto simp: MatchClause_def split: if_splits)
  then show ?case
    using Cons by (auto split: option.splits sum.splits bool.splits)
qed simp

lemma guards_MatchSegmentRule:
  assumes "\<And>seg. keeps_guards (contains seg)"
    and "MatchSegmentRule e contains store ctx rule key salt st = Some (r, st')"
  shows "prerequisites_seen st' = prerequisites_seen st"
proof -
  obtain r2 st2 where m: "MatchClauses e contains store ctx (srule_clauses rule) st = Some (r2, st2)"
    using assms(2) by (cases "MatchClauses e contains store ctx (srule_clauses rule) st")
      (auto simp: MatchSegmentRule_def)
  have "st' = st2"
    using assms(2) unfolding MatchSegmentRule_def m
    by (cases r2) (simp_all split: bool.splits option.splits sum.splits prod.splits)
  then show ?thesis using guards_MatchClauses [OF assms(1) m] by simp
qed

lemma guards_Contains_rules:
  assumes "\<And>seg. keeps_guards (contains seg)"
  shows "Contains_rules e contains store ctx seg rules st = Some (r, st') \<Longrightarrow>
    prerequisites_seen st' = prerequisites_seen st"
  by (induction rules arbitrary: st)
    (auto split: option.splits sum.splits bool.splits dest!: guards_MatchSegmentRule [OF assms])

lemma guards_Contains: "keeps_guards (Contains fuel e store ctx seg)"
proof (induction fuel arbitrary: seg)
  case (Suc fuel)
  have "prerequisites_seen st' = prerequisites_seen st"
    if "Contains_guarded e (Contains fuel e store ctx) store ctx seg st = Some (r, st')" for st r st'
    using that stack_frame_MatchBigSegment [of st seg ctx]
    by (auto simp: Contains_guarded_def stack_frame_def split: if_splits option.splits prod.splits
        dest: guards_Contains_rules [OF Suc.IH])
  then show ?case
    by (fastforce simp: keeps_guards_def Contains_body_def NoticeSegment_def ReleaseSegment_def split: if_splits)
qed (simp add: keeps_guards_def)

lemma guards_targets:
  assumes "\<And>seg. keeps_guards (contains seg)"
    and "Evaluate_targets e contains store ctx flag s = Some (d, s')"
  shows "prerequisites_seen (ev_stack s') = prerequisites_seen (ev_stack s)"
proof -
  have simple: "ev_stack s' = ev_stack s" if "FlagVariation flag i rs s = (d, s') \<or> Malformed flag er s = (d, s')"
    for i rs er s d s'
    using that ev_stack_simps(2,4) by (metis snd_conv)
  have "Evaluate_rules e contains store ctx flag index rules s = Some (d, s') \<Longrightarrow>
      prerequisites_seen (ev_stack s') = prerequisites_seen (ev_stack s)" for index rules s
    by (induction rules arbitrary: index s)
      (auto simp: on_stack_def MatchFlagRule_def split: option.splits sum.splits bool.splits
        dest!: simple [OF disjI1] simple [OF disjI2] guards_MatchClauses [OF assms(1)])
  then show ?thesis using assms(2) by (auto simp: Evaluate_targets_def split: option.splits dest: simple [OF disjI1])
qed

lemma guards_EvaluateRec:
  assumes "\<And>seg. keeps_guards (contains seg)"
  shows "EvaluateRec fuel e contains store ctx parent flag s = Some (d, s') \<Longrightarrow>
    prerequisites_seen (ev_stack s') = prerequisites_seen (ev_stack s)"
proof (induction fuel arbitrary: parent flag s d s')
  case (Suc fuel)
  let ?ev = "EvaluateRec fuel e contains store ctx"
  have off: "ev_stack s' = ev_stack s" if "OffValue flag rs s = (d, s')" for rs s d s'
    using that ev_stack_simps(3) by (metis snd_conv)
  have pre: "prerequisites_seen (ev_stack s') = prerequisites_seen (ev_stack s)"
    if "Evaluate_prereqs ?ev store flag ps s = Some (r, s')" for ps r s s'
    using that
    by (induction ps arbitrary: s)
      (auto simp: Let_def apfst_eq_iff split: option.splits if_splits dest!: off Suc.IH)
  have rel: "prerequisites_seen (ev_stack (release flag s2)) = prerequisites_seen (ev_stack s2) - {flag_key flag}" for s2
    by (simp add: release_def ReleasePrerequisite_def)
  show ?case
    using Suc.prems
    by (auto simp: Evaluate_body_def NoticePrerequisite_def Let_def apsnd_eq_iff rel split: option.splits if_splits
        dest!: off pre guards_targets [OF assms])
qed simp

text \<open>
  A prerequisite that holds: the flag with its key is in the store and is on, and its evaluation,
  under the given guards, is not an error and has the required variation. It leaves an event with
  that flag and that evaluation.
\<close>

definition prereq_holds ::
  "EvaluateFun \<Rightarrow> IStore \<Rightarrow> string set \<Rightarrow> Flag \<Rightarrow> PrereqEvent list \<Rightarrow> Prerequisite \<Rightarrow> bool" where
  "prereq_holds ev store guards flag sent p \<longleftrightarrow>
     (\<exists>descr pf detail s0 s1. GetFlag store (prereq_key p) = Some descr \<and> descr_item descr = Some pf \<and>
        prerequisites_seen (ev_stack s0) = guards \<and> ev (Some (flag_key flag)) pf s0 = Some (detail, s1) \<and>
        flag_on pf \<and> \<not> IsError detail \<and> variation_index detail = Some (prereq_variation p) \<and>
        \<lparr>pe_key = prereq_key p, pe_flag = pf, pe_detail = detail, pe_prereq_of = flag_key flag\<rparr> \<in> set sent)"

lemma prereqs_sent:
  assumes "\<And>parent pf s d s'. ev parent pf s = Some (d, s') \<Longrightarrow> sent_extends s s'"
    and "\<And>parent pf s d s'. ev parent pf s = Some (d, s') \<Longrightarrow>
      prerequisites_seen (ev_stack s') = prerequisites_seen (ev_stack s)"
    and "Evaluate_prereqs ev store flag ps s = Some (r, s')"
    and "prerequisites_seen (ev_stack s) = guards"
  shows "sent_extends s s' \<and>
    (r = None \<longrightarrow> (\<forall>p\<in>set ps. prereq_holds ev store guards flag (ev_sent s') p))"
  using assms(3,4)
proof (induction ps arbitrary: s)
  case Nil
  then show ?case by (simp add: sent_extends_def)
next
  case (Cons p ps)
  show ?case
  proof (cases "\<exists>d pf detail s1. GetFlag store (prereq_key p) = Some d \<and> descr_item d = Some pf \<and>
      ev (Some (flag_key flag)) pf s = Some (detail, s1)")
    case True
    then obtain d pf detail s1 where p: "GetFlag store (prereq_key p) = Some d" "descr_item d = Some pf"
      and e: "ev (Some (flag_key flag)) pf s = Some (detail, s1)" by blast
    let ?x = "\<lparr>pe_key = prereq_key p, pe_flag = pf, pe_detail = detail, pe_prereq_of = flag_key flag\<rparr>"
    let ?s2 = "s1\<lparr>ev_sent := ev_sent s1 @ [?x]\<rparr>"
    have ext: "sent_extends s s1" using assms(1) [OF e] .
    consider (error) "IsError detail" "s' = s1" "r = Some detail"
      | (off) "OffValue flag (PrerequisiteFailed (prereq_key p)) ?s2 = (the r, s')" "r \<noteq> None"
      | (more) "\<not> IsError detail" "flag_on pf" "variation_index detail = Some (prereq_variation p)"
          "Evaluate_prereqs ev store flag ps ?s2 = Some (r, s')"
      using Cons.prems(1) by (auto simp: p e Let_def apfst_eq_iff split: if_splits)
    then show ?thesis
    proof cases
      case error
      then show ?thesis using ext by simp
    next
      case off
      then show ?thesis using ext sent_OffValue [OF off(1)] by (auto simp: sent_extends_def)
    next
      case more
      have "prerequisites_seen (ev_stack ?s2) = guards" using assms(2) [OF e] Cons.prems(2) by simp
      then have "sent_extends ?s2 s'"
        and rest: "r = None \<longrightarrow> (\<forall>p\<in>set ps. prereq_holds ev store guards flag (ev_sent s') p)"
        using Cons.IH [OF more(4)] by blast+
      then have sent: "sent_extends s s'" "?x \<in> set (ev_sent s')" using ext by (auto simp: sent_extends_def)
      have "prereq_holds ev store guards flag (ev_sent s') p"
        unfolding prereq_holds_def using p e more(1-3) sent(2) Cons.prems(2) by blast
      then show ?thesis using sent(1) rest by simp
    qed
  next
    case False
    then show ?thesis
      using Cons.prems(1)
      by (auto simp: Let_def apfst_eq_iff sent_extends_def split: option.splits dest: sent_OffValue)
  qed
qed

lemma sent_EvaluateRec:
  assumes "\<And>seg. keeps_guards (contains seg)"
  shows "EvaluateRec fuel e contains store ctx parent flag s = Some (d, s') \<Longrightarrow> sent_extends s s'"
proof (induction fuel arbitrary: parent flag s d s')
  case (Suc fuel)
  let ?ev = "EvaluateRec fuel e contains store ctx"
  have pre: "set (ev_sent s) \<subseteq> set (ev_sent s')"
    if "Evaluate_prereqs ?ev store flag ps (s\<lparr>ev_stack := st\<rparr>) = Some (r, s')" for ps r s s' st
    using prereqs_sent [OF Suc.IH guards_EvaluateRec [OF assms] that] by (simp add: sent_extends_def)
  show ?case
  proof (cases "flag_on flag")
    case True
    then show ?thesis
      using Suc.prems
      by (auto simp: Evaluate_body_def Let_def sent_extends_def subset_iff split: option.splits
          dest!: sent_targets pre)
  next
    case False
    then show ?thesis
      using Suc.prems
      by (auto simp: Evaluate_body_def Let_def apsnd_eq_iff sent_extends_def split: option.splits
          dest: sent_OffValue)
  qed
qed simp

text \<open>A detail that the prerequisites give is a failed prerequisite or an error.\<close>

definition failed_or_error :: "Detail \<Rightarrow> bool" where
  "failed_or_error d \<longleftrightarrow>
     map_option reason_kind (detail_reason d) \<in> {Some kPrerequisiteFailed, Some kError}"

lemma failed_OffValue:
  "OffValue flag (PrerequisiteFailed key) s = (d, s') \<Longrightarrow> failed_or_error d"
  by (auto simp: failed_or_error_def OffValue_def FlagVariation_def detail_defs reason_defs
      split: option.splits if_splits)

lemma failed_IsError: "detail_ok flag d \<Longrightarrow> IsError d \<Longrightarrow> failed_or_error d"
  by (auto simp: failed_or_error_def detail_ok_def EvaluationDetail_reason_def reason_defs)

lemma prereqs_early:
  assumes "\<And>parent pf s d s'. ev parent pf s = Some (d, s') \<Longrightarrow> detail_ok pf d"
    and "Evaluate_prereqs ev store flag ps s = Some (Some d, s')"
  shows "failed_or_error d"
  using assms(2)
proof (induction ps arbitrary: s)
  case (Cons p ps)
  have "failed_or_error d" if "ev parent pf s = Some (d, s')" "IsError d" for parent pf s
    using assms(1) [OF that(1)] that(2) by (rule failed_IsError)
  then show ?case
    using Cons
    by (auto simp: Let_def apfst_eq_iff split: option.splits if_splits dest: failed_OffValue)
qed simp

section \<open>One evaluation, unfolded\<close>

abbreviation start :: "(string \<Rightarrow> Membership \<times> LookupStatus) option \<Rightarrow> EvalState" where
  "start bs \<equiv> \<lparr>ev_stack = MakeEvaluationStack bs, ev_sent = [], ev_log = []\<rparr>"

abbreviation guarded :: "Flag \<Rightarrow> EvalState \<Rightarrow> EvalState" where
  "guarded flag s \<equiv> s\<lparr>ev_stack := (ev_stack s)\<lparr>prerequisites_seen :=
     insert (flag_key flag) (prerequisites_seen (ev_stack s))\<rparr>\<rparr>"

lemma release_guarded [simp]:
  "flag_key flag \<notin> prerequisites_seen (ev_stack s) \<Longrightarrow> release flag (guarded flag s) = s"
  by (simp add: release_def ReleasePrerequisite_def)

lemma Evaluate_body_on:
  assumes "flag_key flag \<notin> prerequisites_seen (ev_stack s)" and "flag_on flag"
  shows "Evaluate_body e contains ev store ctx parent flag s =
    (case Evaluate_prereqs ev store flag (prerequisites flag) (guarded flag s) of
       None \<Rightarrow> None
     | Some (Some detail, s2) \<Rightarrow> Some (detail, release flag s2)
     | Some (None, s2) \<Rightarrow> Evaluate_targets e contains store ctx flag (release flag s2))"
  using assms by (simp add: Evaluate_body_def NoticePrerequisite_def Let_def)

lemma EvaluateE:
  assumes "Evaluate fuel e store bs flag ctx = Some (d, s)"
  obtains d0 where
    "EvaluateRec fuel e (Contains fuel e store ctx) store ctx None flag (start bs) = Some (d0, s)"
    "d = (if stack_status (ev_stack s) \<noteq> kNone
          then WithBigSegmentsStatus d0 (stack_status (ev_stack s)) else d0)"
  using assms by (auto simp: Evaluate_def Let_def split: option.splits)

lemma WithBigSegmentsStatus_simps [simp]:
  "detail_value (WithBigSegmentsStatus d st) = detail_value d"
  "variation_index (WithBigSegmentsStatus d st) = variation_index d"
  "IsError (WithBigSegmentsStatus d st) = IsError d"
  "map_option reason_kind (detail_reason (WithBigSegmentsStatus d st)) =
     map_option reason_kind (detail_reason d)"
  "map_option error_kind (detail_reason (WithBigSegmentsStatus d st)) =
     map_option error_kind (detail_reason d)"
  by (simp_all add: WithBigSegmentsStatus_def detail_defs EvaluationReason7_def IsError_def
      split: option.splits)

section \<open>Cycles\<close>

text \<open>A flag that is on and whose first prerequisite is another flag.\<close>

definition leads_to :: "IStore \<Rightarrow> Flag \<Rightarrow> Flag \<Rightarrow> bool" where
  "leads_to store f g \<longleftrightarrow>
     flag_on f \<and>
     (case prerequisites f of
        [] \<Rightarrow> False
      | p # ps \<Rightarrow> (case GetFlag store (prereq_key p) of
                    None \<Rightarrow> False
                  | Some d \<Rightarrow> descr_item d = Some g))"

lemma IsError_Malformed [simp]: "IsError (EvaluationDetail_reason MalformedFlag)"
  by (simp add: IsError_def EvaluationDetail_reason_def reason_defs)

lemma EvaluateRec_cycle:
  assumes "successively (leads_to store) (path @ [g])"
    and "flag_key g \<in> prerequisites_seen (ev_stack s) \<union> flag_key ` set path"
    and "length path < fuel"
  shows "\<exists>s'. EvaluateRec fuel e contains store ctx parent (hd (path @ [g])) s =
    Some (EvaluationDetail_reason MalformedFlag, s')"
  using assms
proof (induction path arbitrary: parent s fuel)
  case Nil
  then show ?case by (cases fuel) (simp_all add: Evaluate_body_def NoticePrerequisite_def)
next
  case (Cons f path)
  then obtain n where fuel: "fuel = Suc n" by (cases fuel) auto
  show ?case
  proof (cases "flag_key f \<in> prerequisites_seen (ev_stack s)")
    case True
    then show ?thesis by (simp add: fuel Evaluate_body_def NoticePrerequisite_def)
  next
    case False
    let ?next = "hd (path @ [g])"
    have lead: "leads_to store f ?next" and rest: "successively (leads_to store) (path @ [g])"
      using Cons.prems(1) by (cases path; simp)+
    obtain p ps d where p: "prerequisites f = p # ps" "GetFlag store (prereq_key p) = Some d"
      "descr_item d = Some ?next" and on: "flag_on f"
      using lead by (auto simp: leads_to_def split: list.splits option.splits)
    have "\<exists>s'. EvaluateRec n e contains store ctx (Some (flag_key f)) ?next (guarded f s) =
        Some (EvaluationDetail_reason MalformedFlag, s')"
      using Cons.prems fuel by (intro Cons.IH [OF rest]) auto
    then obtain s' where "EvaluateRec n e contains store ctx (Some (flag_key f)) ?next (guarded f s) =
        Some (EvaluationDetail_reason MalformedFlag, s')" by blast
    then show ?thesis
      using False on by (simp add: fuel Evaluate_body_on p Let_def)
  qed
qed

section \<open>Properties\<close>

text \<open>
  C1. Evaluation always returns. Whatever the flags and segments of a finite store refer
  to, cycles included, there is one result that evaluation gives for every bound above
  the number of flags and segments, and all guards are released when it returns.
\<close>

theorem evaluation_terminates:
  assumes "finite FK" and "finite SK" and "flags_in store FK" and "segments_in store SK"
  shows "\<exists>d s. \<forall>fuel > max (Suc (card FK)) (card SK).
    Evaluate fuel e store bs flag ctx = Some (d, s) \<and>
    prerequisites_seen (ev_stack s) = {} \<and> segments_seen (ev_stack s) = {}"
proof -
  have "finite_store store FK SK"
    using assms by unfold_locales (auto simp: flags_in_def segments_in_def)
  then show ?thesis by (rule finite_store.Evaluate_total)
qed

text \<open>A flag with two boolean variations, and a store of such flags, to run evaluation on.\<close>

definition sample_flag :: "string \<Rightarrow> bool \<Rightarrow> Prerequisite list \<Rightarrow> Target list \<Rightarrow> Flag" where
  "sample_flag key on prereqs tgts =
     \<lparr>flag_key = key, flag_version = 1, flag_on = on, fallthrough = VVariation (Some 1),
      variations = [VBool False, VBool True], prerequisites = prereqs, targets = tgts,
      contextTargets = [], flag_rules = [], offVariation = Some 0, clientSide = False,
      usingMobileKey = False, usingEnvironmentId = False, flag_salt = Some ''salt'',
      trackEvents = False, trackEventsFallthrough = False, debugEventsUntilDate = None\<rparr>"

definition sample_prereq :: "string \<Rightarrow> Prerequisite" where
  "sample_prereq key = \<lparr>prereq_key = key, prereq_variation = 1\<rparr>"

definition sample_store :: "Flag list \<Rightarrow> IStore" where
  "sample_store flags =
     \<lparr>GetFlag = map_of (map (\<lambda>f. (flag_key f, FlagDescriptor_of f)) flags),
      GetSegment = (\<lambda>_. None)\<rparr>"

definition flag_a :: Flag where
  "flag_a = sample_flag ''a'' True [sample_prereq ''b''] []"

definition flag_b :: "bool \<Rightarrow> Flag" where
  "flag_b cyclic = sample_flag ''b'' True (if cyclic then [sample_prereq ''a''] else []) []"

abbreviation sample_run :: "nat \<Rightarrow> bool \<Rightarrow> (Detail \<times> EvalState) option" where
  "sample_run fuel cyclic \<equiv>
     Evaluate fuel sample_env (sample_store [flag_a, flag_b cyclic]) None flag_a sample_context"

lemmas sample_flag_defs =
  flag_a_def flag_b_def sample_flag_def sample_prereq_def sample_store_def FlagDescriptor_of_def

theorem evaluation_terminates_witness: "\<exists>d s. sample_run 4 True = Some (d, s)"
proof -
  have "\<exists>d s. \<forall>fuel > max (Suc (card {''a'', ''b''})) (card ({} :: string set)).
      Evaluate fuel sample_env (sample_store [flag_a, flag_b True]) None flag_a sample_context = Some (d, s) \<and>
      prerequisites_seen (ev_stack s) = {} \<and> segments_seen (ev_stack s) = {}"
    by (rule evaluation_terminates)
      (auto simp: flags_in_def segments_in_def sample_flag_defs split: if_splits)
  then show ?thesis by auto
qed

text \<open>
  C7. The value of an evaluation is one of the flag's variations. A result with a
  variation index has a valid index and the value at that index; a result without an
  index has a null value; and the only error is a malformed flag, which has no index.
\<close>

theorem evaluation_value:
  assumes "Evaluate fuel e store bs flag ctx = Some (d, s)"
  shows "(case variation_index d of
      None \<Rightarrow> detail_value d = VNull
    | Some i \<Rightarrow> 0 \<le> sint i \<and> unat i < length (variations flag) \<and>
        detail_value d = variations flag ! unat i) \<and>
    (IsError d \<longrightarrow> variation_index d = None \<and>
       map_option error_kind (detail_reason d) = Some (Some kMalformedFlag))"
proof -
  obtain d0 where "EvaluateRec fuel e (Contains fuel e store ctx) store ctx None flag (start bs) = Some (d0, s)"
    and d: "d = (if stack_status (ev_stack s) \<noteq> kNone
      then WithBigSegmentsStatus d0 (stack_status (ev_stack s)) else d0)"
    using assms by (rule EvaluateE)
  then have "detail_ok flag d0" by (auto dest: detail_ok_EvaluateRec)
  moreover have "detail_value d = detail_value d0" "variation_index d = variation_index d0"
    "IsError d = IsError d0"
    "map_option error_kind (detail_reason d) = map_option error_kind (detail_reason d0)"
    by (simp_all add: d)
  ultimately show ?thesis
    by (auto simp only: detail_ok_def) (simp_all add: EvaluationDetail_reason_def reason_defs)
qed

lemma sample_run_Some:
  "case sample_run 3 False of
     Some (d, s) \<Rightarrow> variation_index d = Some 1 \<and> map_option reason_kind (detail_reason d) = Some kFallthrough
   | None \<Rightarrow> False"
  by code_simp

theorem evaluation_value_witness:
  "\<exists>d s. sample_run 3 False = Some (d, s) \<and> unat (the (variation_index d)) < 2 \<and>
     detail_value d = [VBool False, VBool True] ! unat (the (variation_index d))"
proof -
  obtain d s where r: "sample_run 3 False = Some (d, s)" and i: "variation_index d = Some 1"
    using sample_run_Some by (auto split: option.splits)
  have "unat (the (variation_index d)) < 2 \<and>
      detail_value d = [VBool False, VBool True] ! unat (the (variation_index d))"
    using evaluation_value [OF r] i by (simp add: flag_a_def sample_flag_def)
  then show ?thesis using r by blast
qed

text \<open>
  A flag that is off serves its off variation with the reason that it is off, and
  sends no events, whatever its prerequisites, targets and rules are.
\<close>

theorem off_flag_serves_off_variation:
  assumes "\<not> flag_on flag" and "offVariation flag = Some i"
    and "0 \<le> sint i" and "unat i < length (variations flag)"
  shows "\<exists>s. Evaluate (Suc fuel) e store bs flag ctx =
      Some (EvaluationDetail3 (variations flag ! unat i) (Some i) (Some Off), s) \<and>
    ev_sent s = [] \<and> ev_log s = []"
  using assms
  by (simp add: Evaluate_def Evaluate_body_def NoticePrerequisite_def OffValue_def FlagVariation_def
      MakeEvaluationStack_def release_def ReleasePrerequisite_def Let_def)

theorem off_flag_serves_off_variation_witness:
  "\<exists>s. Evaluate (Suc 0) sample_env empty_store None (sample_flag ''f'' False [sample_prereq ''g''] [])
      sample_context = Some (EvaluationDetail3 (VBool False) (Some 0) (Some Off), s) \<and>
    ev_sent s = [] \<and> ev_log s = []"
  using off_flag_serves_off_variation [of "sample_flag ''f'' False [sample_prereq ''g''] []" 0 0
      sample_env empty_store None sample_context]
  by (simp add: sample_flag_def)

text \<open>
  A cycle of prerequisites is an error, not a hang: a flag from which the first
  prerequisites of flags that are on lead back to itself evaluates to a malformed flag.
\<close>

theorem prerequisite_cycle_malformed:
  assumes "successively (leads_to store) (flag # path @ [flag])" and "Suc (length path) < fuel"
  shows "\<exists>d s. Evaluate fuel e store bs flag ctx = Some (d, s) \<and>
    map_option error_kind (detail_reason d) = Some (Some kMalformedFlag) \<and>
    variation_index d = None"
proof -
  have "\<exists>s'. EvaluateRec fuel e (Contains fuel e store ctx) store ctx None
      (hd ((flag # path) @ [flag])) (start bs) = Some (EvaluationDetail_reason MalformedFlag, s')"
    using assms by (intro EvaluateRec_cycle) auto
  then show ?thesis
    by (auto simp: Evaluate_def Let_def WithBigSegmentsStatus_def detail_defs reason_defs)
qed

theorem prerequisite_cycle_malformed_witness:
  "\<exists>d s. sample_run 3 True = Some (d, s) \<and>
    map_option error_kind (detail_reason d) = Some (Some kMalformedFlag) \<and> variation_index d = None"
  by (rule prerequisite_cycle_malformed [where path = "[flag_b True]"])
    (simp_all add: leads_to_def sample_flag_defs)

text \<open>
  C2. A flag that is on serves a target, a rule or its fallthrough only when every one of
  its prerequisites holds: the store has a flag under the key of the prerequisite, that flag is on,
  and its own evaluation, made while the key of the dependent flag alone is guarded against
  cycles, is not an error and has the required variation. An event with the key of the
  prerequisite, that flag, that evaluation and the key of the dependent flag was sent.
\<close>

theorem prerequisites_all_hold:
  assumes "Evaluate fuel e store bs flag ctx = Some (d, s)" and "detail_reason d = Some r"
    and "reason_kind r \<in> {kTargetMatch, kRuleMatch, kFallthrough}"
  shows "\<forall>p\<in>set (prerequisites flag). \<exists>descr pf detail s0 s1.
    GetFlag store (prereq_key p) = Some descr \<and> descr_item descr = Some pf \<and> flag_on pf \<and>
    prerequisites_seen (ev_stack s0) = {flag_key flag} \<and>
    EvaluateRec (fuel - 1) e (Contains fuel e store ctx) store ctx (Some (flag_key flag)) pf s0 = Some (detail, s1) \<and>
    \<not> IsError detail \<and> variation_index detail = Some (prereq_variation p) \<and>
    \<lparr>pe_key = prereq_key p, pe_flag = pf, pe_detail = detail, pe_prereq_of = flag_key flag\<rparr> \<in> set (ev_sent s)"
proof -
  let ?c = "Contains fuel e store ctx"
  obtain d0 where rec: "EvaluateRec fuel e ?c store ctx None flag (start bs) = Some (d0, s)"
    and d: "d = (if stack_status (ev_stack s) \<noteq> kNone
      then WithBigSegmentsStatus d0 (stack_status (ev_stack s)) else d0)"
    using assms(1) by (rule EvaluateE)
  have kind: "map_option reason_kind (detail_reason d0) = Some (reason_kind r)"
    using assms(2) d by (metis WithBigSegmentsStatus_simps(4) option.map(2))
  obtain n where fuel: "fuel = Suc n" using rec by (cases fuel) auto
  let ?ev = "EvaluateRec n e ?c store ctx"
  have body: "Evaluate_body e ?c ?ev store ctx None flag (start bs) = Some (d0, s)"
    using rec by (simp add: fuel)
  have on: "flag_on flag"
  proof (rule ccontr)
    assume "\<not> flag_on flag"
    then have "reason_kind r \<in> {kOff, kError}"
      using body kind
      by (auto simp: Evaluate_body_def NoticePrerequisite_def MakeEvaluationStack_def Let_def
          apsnd_eq_iff OffValue_def FlagVariation_def detail_defs reason_defs
          split: option.splits if_splits)
    then show False using assms(3) by auto
  qed
  have fresh: "flag_key flag \<notin> prerequisites_seen (ev_stack (start bs))"
    by (simp add: MakeEvaluationStack_def)
  obtain res s2 where pre: "Evaluate_prereqs ?ev store flag (prerequisites flag) (guarded flag (start bs)) = Some (res, s2)"
    using body by (auto simp: Evaluate_body_on [OF fresh on] split: option.splits)
  show ?thesis
  proof (cases res)
    case None
    then have sent: "ev_sent s = ev_sent s2"
      using body pre by (auto simp: Evaluate_body_on [OF fresh on] dest: sent_targets)
    have guard: "prerequisites_seen (ev_stack (guarded flag (start bs))) = {flag_key flag}"
      by (simp add: MakeEvaluationStack_def)
    have "\<forall>p\<in>set (prerequisites flag). prereq_holds ?ev store {flag_key flag} flag (ev_sent s) p"
      using prereqs_sent [OF sent_EvaluateRec [OF guards_Contains] guards_EvaluateRec [OF guards_Contains] pre guard] None sent
      by simp
    moreover have "fuel - 1 = n" by (simp add: fuel)
    ultimately show ?thesis unfolding prereq_holds_def by (simp only:) blast
  next
    case (Some detail)
    then have "d0 = detail" using body pre by (simp add: Evaluate_body_on [OF fresh on])
    moreover have "failed_or_error detail"
      using pre Some by (intro prereqs_early [OF detail_ok_EvaluateRec]) auto
    ultimately show ?thesis using kind assms(3) by (auto simp: failed_or_error_def)
  qed
qed

theorem prerequisites_all_hold_witness:
  "\<exists>d s. sample_run 3 False = Some (d, s) \<and>
     (\<exists>x\<in>set (ev_sent s). pe_key x = ''b'' \<and> pe_flag x = flag_b False \<and> variation_index (pe_detail x) = Some 1)"
proof -
  obtain d s r where run: "sample_run 3 False = Some (d, s)" and r: "detail_reason d = Some r"
    and k: "reason_kind r = kFallthrough"
    using sample_run_Some by (auto split: option.splits)
  have b: "sample_prereq ''b'' \<in> set (prerequisites flag_a)"
    "GetFlag (sample_store [flag_a, flag_b False]) ''b'' = Some (FlagDescriptor_of (flag_b False))"
    by (simp_all add: flag_a_def flag_b_def sample_flag_def sample_store_def)
  have "\<exists>detail. variation_index detail = Some (prereq_variation (sample_prereq ''b'')) \<and>
      \<lparr>pe_key = ''b'', pe_flag = flag_b False, pe_detail = detail, pe_prereq_of = flag_key flag_a\<rparr> \<in> set (ev_sent s)"
    using bspec [OF prerequisites_all_hold [OF run r] b(1)] k b(2)
    by (auto simp: sample_prereq_def FlagDescriptor_of_def)
  then show ?thesis using run by (force simp: sample_prereq_def)
qed

text \<open>
  A matching target decides: for a flag that is on and has no prerequisites, the
  variation of the target that the context matches is served, whatever the rules and the
  fallthrough are.
\<close>

theorem target_match_decides:
  assumes "flag_on flag" and "prerequisites flag = []" and "AnyTargetMatchVariation ctx flag = Some i"
    and "0 \<le> sint i" and "unat i < length (variations flag)"
  shows "\<exists>s. Evaluate (Suc fuel) e store bs flag ctx =
    Some (EvaluationDetail3 (variations flag ! unat i) (Some i) (Some TargetMatch), s)"
  using assms
  by (simp add: Evaluate_def Evaluate_body_def NoticePrerequisite_def FlagVariation_def
      Evaluate_targets_def MakeEvaluationStack_def release_def ReleasePrerequisite_def Let_def)

theorem target_match_decides_witness:
  "\<exists>s. Evaluate (Suc 0) sample_env empty_store None
      (sample_flag ''f'' True [] [\<lparr>target_values = [''bob''], target_variation = 0, target_contextKind = ''user''\<rparr>])
      sample_context = Some (EvaluationDetail3 (VBool False) (Some 0) (Some TargetMatch), s)"
proof -
  let ?f = "sample_flag ''f'' True []
    [\<lparr>target_values = [''bob''], target_variation = 0, target_contextKind = ''user''\<rparr>]"
  have "AnyTargetMatchVariation sample_context ?f = Some 0" by code_simp
  then show ?thesis
    using target_match_decides [of ?f sample_context 0 0 sample_env empty_store None]
    by (simp add: sample_flag_def)
qed

end
