(* ===== verification/Memory_Store.thy ===== *)
theory Memory_Store
  imports Evaluator
begin

text \<open>
  The in-memory store of \<^verbatim>\<open>libs/server-sdk/src/data_components/memory_store\<close>, which holds
  the flags and segments that evaluation reads, and the change sets of
  \<^verbatim>\<open>libs/server-sdk/src/data_interfaces/item_change.hpp\<close> that are applied to it. The two
  unordered maps are association lists with distinct keys; every operation runs under the
  store's mutex, so it is one step.
\<close>

section \<open>Change sets\<close>

datatype ItemObject = FlagObject FlagDescriptor | SegmentObject SegmentDescriptor

record ItemChange =
  change_key :: string
  change_object :: ItemObject

type_synonym ChangeSetData = "ItemChange list"

section \<open>The store\<close>

record MemoryStore =
  ms_flags :: "Flag Collection"
  ms_segments :: "Segment Collection"
  ms_initialized :: bool

definition MemoryStore_empty :: MemoryStore where
  "MemoryStore_empty = \<lparr>ms_flags = [], ms_segments = [], ms_initialized = False\<rparr>"

definition MemoryStore_GetFlag :: "MemoryStore \<Rightarrow> string \<Rightarrow> FlagDescriptor option" where
  "MemoryStore_GetFlag m key =
     (case map_of (ms_flags m) key of Some found \<Rightarrow> Some found | None \<Rightarrow> None)"

definition MemoryStore_GetSegment :: "MemoryStore \<Rightarrow> string \<Rightarrow> SegmentDescriptor option" where
  "MemoryStore_GetSegment m key =
     (case map_of (ms_segments m) key of Some found \<Rightarrow> Some found | None \<Rightarrow> None)"

definition AllFlags :: "MemoryStore \<Rightarrow> Flag Collection" where
  "AllFlags m = ms_flags m"

definition AllSegments :: "MemoryStore \<Rightarrow> Segment Collection" where
  "AllSegments m = ms_segments m"

definition MemoryStore_Initialized :: "MemoryStore \<Rightarrow> bool" where
  "MemoryStore_Initialized m = ms_initialized m"

definition MemoryStore_Init :: "SDKDataSet \<Rightarrow> MemoryStore \<Rightarrow> MemoryStore" where
  "MemoryStore_Init dataSet m =
     (let m = m\<lparr>ms_initialized := True\<rparr>;
          m = m\<lparr>ms_flags := []\<rparr>;
          m = m\<lparr>ms_segments := []\<rparr>;
          m = m\<lparr>ms_flags := fold (\<lambda>(key, flag). umap_emplace key flag) (ds_flags dataSet) (ms_flags m)\<rparr>
      in m\<lparr>ms_segments :=
             fold (\<lambda>(key, segment). umap_emplace key segment) (ds_segments dataSet) (ms_segments m)\<rparr>)"

definition Upsert_flag :: "string \<Rightarrow> FlagDescriptor \<Rightarrow> MemoryStore \<Rightarrow> MemoryStore" where
  "Upsert_flag key flag m = m\<lparr>ms_flags := AList.update key flag (ms_flags m)\<rparr>"

definition Upsert_segment :: "string \<Rightarrow> SegmentDescriptor \<Rightarrow> MemoryStore \<Rightarrow> MemoryStore" where
  "Upsert_segment key segment m = m\<lparr>ms_segments := AList.update key segment (ms_segments m)\<rparr>"

text \<open>\<^verbatim>\<open>erase\<close> returns the number of entries it removed, which is compared with one.\<close>

definition RemoveFlag :: "string \<Rightarrow> MemoryStore \<Rightarrow> bool \<times> MemoryStore" where
  "RemoveFlag key m =
     (key \<in> fst ` set (ms_flags m), m\<lparr>ms_flags := AList.delete key (ms_flags m)\<rparr>)"

definition RemoveSegment :: "string \<Rightarrow> MemoryStore \<Rightarrow> bool \<times> MemoryStore" where
  "RemoveSegment key m =
     (key \<in> fst ` set (ms_segments m), m\<lparr>ms_segments := AList.delete key (ms_segments m)\<rparr>)"

definition apply_change :: "ItemChange \<Rightarrow> MemoryStore \<Rightarrow> MemoryStore" where
  "apply_change change m =
     (case change_object change of
        FlagObject flag \<Rightarrow>
          m\<lparr>ms_flags := AList.update (change_key change) flag (ms_flags m)\<rparr>
      | SegmentObject segment \<Rightarrow>
          m\<lparr>ms_segments := AList.update (change_key change) segment (ms_segments m)\<rparr>)"

definition MemoryStore_Apply :: "ChangeSetData ChangeSet \<Rightarrow> MemoryStore \<Rightarrow> MemoryStore" where
  "MemoryStore_Apply changeSet m =
     (case cs_type changeSet of
        kNoChange \<Rightarrow> m
      | kPartial \<Rightarrow> fold apply_change (cs_data changeSet) m
      | kFull \<Rightarrow>
          fold apply_change (cs_data changeSet)
            (m\<lparr>ms_initialized := True, ms_flags := [], ms_segments := []\<rparr>))"

text \<open>The store as evaluation reads it.\<close>

definition store_view :: "MemoryStore \<Rightarrow> IStore" where
  "store_view m = \<lparr>GetFlag = MemoryStore_GetFlag m, GetSegment = MemoryStore_GetSegment m\<rparr>"

section \<open>Invariant\<close>

definition MemoryStore_ok :: "MemoryStore \<Rightarrow> bool" where
  "MemoryStore_ok m \<longleftrightarrow> distinct (map fst (ms_flags m)) \<and> distinct (map fst (ms_segments m))"

lemma MemoryStore_ok_empty [simp]: "MemoryStore_ok MemoryStore_empty"
  by (simp add: MemoryStore_ok_def MemoryStore_empty_def)

lemma MemoryStore_ok_Init [inv_intros]: "MemoryStore_ok (MemoryStore_Init dataSet m)"
  by (simp add: MemoryStore_ok_def MemoryStore_Init_def distinct_fold_umap_emplace)

lemma MemoryStore_ok_Upsert [inv_intros]:
  "MemoryStore_ok m \<Longrightarrow> MemoryStore_ok (Upsert_flag key flag m)"
  "MemoryStore_ok m \<Longrightarrow> MemoryStore_ok (Upsert_segment key segment m)"
  by (simp_all add: MemoryStore_ok_def Upsert_flag_def Upsert_segment_def distinct_update)

lemma MemoryStore_ok_Remove [inv_intros]:
  "MemoryStore_ok m \<Longrightarrow> MemoryStore_ok (snd (RemoveFlag key m))"
  "MemoryStore_ok m \<Longrightarrow> MemoryStore_ok (snd (RemoveSegment key m))"
  by (simp_all add: MemoryStore_ok_def RemoveFlag_def RemoveSegment_def distinct_delete)

lemma apply_change_Upsert:
  "apply_change change m =
     (case change_object change of
        FlagObject flag \<Rightarrow> Upsert_flag (change_key change) flag m
      | SegmentObject segment \<Rightarrow> Upsert_segment (change_key change) segment m)"
  by (simp add: apply_change_def Upsert_flag_def Upsert_segment_def split: ItemObject.splits)

lemma MemoryStore_ok_changes:
  "MemoryStore_ok m \<Longrightarrow> MemoryStore_ok (fold apply_change changes m)"
  by (induction changes arbitrary: m)
    (auto simp: apply_change_Upsert intro: inv_intros split: ItemObject.splits)

lemma MemoryStore_ok_Apply [inv_intros]:
  "MemoryStore_ok m \<Longrightarrow> MemoryStore_ok (MemoryStore_Apply changeSet m)"
  by (auto simp: MemoryStore_Apply_def intro!: MemoryStore_ok_changes split: ChangeSetType.splits)
    (simp add: MemoryStore_ok_def)

section \<open>What the store returns\<close>

lemma MemoryStore_Get [simp]:
  "MemoryStore_GetFlag m = map_of (ms_flags m)" "MemoryStore_GetSegment m = map_of (ms_segments m)"
  by (auto simp: MemoryStore_GetFlag_def MemoryStore_GetSegment_def split: option.splits)

lemma MemoryStore_Init_lookups [simp]:
  "map_of (ms_flags (MemoryStore_Init dataSet m)) = map_of (ds_flags dataSet)"
  "map_of (ms_segments (MemoryStore_Init dataSet m)) = map_of (ds_segments dataSet)"
  "ms_initialized (MemoryStore_Init dataSet m)"
  by (simp_all add: MemoryStore_Init_def map_of_fold_umap_emplace)

lemma Upsert_lookups [simp]:
  "map_of (ms_flags (Upsert_flag key flag m)) = (map_of (ms_flags m))(key \<mapsto> flag)"
  "map_of (ms_segments (Upsert_segment key segment m)) = (map_of (ms_segments m))(key \<mapsto> segment)"
  by (simp_all add: Upsert_flag_def Upsert_segment_def update_conv')

lemma Upsert_frame [simp, frame_simps]:
  "ms_segments (Upsert_flag key flag m) = ms_segments m"
  "ms_flags (Upsert_segment key segment m) = ms_flags m"
  "ms_initialized (Upsert_flag key flag m) = ms_initialized m"
  "ms_initialized (Upsert_segment key segment m) = ms_initialized m"
  by (simp_all add: Upsert_flag_def Upsert_segment_def)

text \<open>The writes a list of changes makes to either map, in order.\<close>

definition flag_writes :: "ChangeSetData \<Rightarrow> Flag Collection" where
  "flag_writes changes =
     concat (map (\<lambda>c. case change_object c of
       FlagObject flag \<Rightarrow> [(change_key c, flag)] | SegmentObject _ \<Rightarrow> []) changes)"

definition segment_writes :: "ChangeSetData \<Rightarrow> Segment Collection" where
  "segment_writes changes =
     concat (map (\<lambda>c. case change_object c of
       FlagObject _ \<Rightarrow> [] | SegmentObject segment \<Rightarrow> [(change_key c, segment)]) changes)"

lemma apply_changes_fields:
  "fold apply_change changes m =
     m\<lparr>ms_flags := fold (\<lambda>(k, v). AList.update k v) (flag_writes changes) (ms_flags m),
       ms_segments := fold (\<lambda>(k, v). AList.update k v) (segment_writes changes) (ms_segments m)\<rparr>"
  by (induction changes arbitrary: m)
    (auto simp: apply_change_def flag_writes_def segment_writes_def split: ItemObject.splits)

lemma map_of_updates:
  "map_of (fold (\<lambda>(k, v). AList.update k v) kvs m) = map_of m ++ map_of (rev kvs)"
  by (induction kvs arbitrary: m)
    (auto simp: update_conv' map_add_def fun_eq_iff split: option.splits)

section \<open>Properties\<close>

text \<open>
  Applying a change set. No change leaves the store alone. A full change set
  replaces the content by its own items and marks the store initialized; a partial one
  overrides the items it names and keeps the others. Where a key is named twice the last
  item counts, tombstones are stored like items, and flags and segments with the same key
  do not touch each other.
\<close>

theorem MemoryStore_Apply_spec:
  "MemoryStore_GetFlag (MemoryStore_Apply cs m) =
     (case cs_type cs of
        kNoChange \<Rightarrow> MemoryStore_GetFlag m
      | kPartial \<Rightarrow> MemoryStore_GetFlag m ++ map_of (rev (flag_writes (cs_data cs)))
      | kFull \<Rightarrow> map_of (rev (flag_writes (cs_data cs)))) \<and>
   MemoryStore_GetSegment (MemoryStore_Apply cs m) =
     (case cs_type cs of
        kNoChange \<Rightarrow> MemoryStore_GetSegment m
      | kPartial \<Rightarrow> MemoryStore_GetSegment m ++ map_of (rev (segment_writes (cs_data cs)))
      | kFull \<Rightarrow> map_of (rev (segment_writes (cs_data cs)))) \<and>
   MemoryStore_Initialized (MemoryStore_Apply cs m) =
     (cs_type cs = kFull \<or> MemoryStore_Initialized m)"
  by (simp add: MemoryStore_Apply_def apply_changes_fields map_of_updates
      MemoryStore_Initialized_def split: ChangeSetType.splits)

section \<open>The store as evaluation relies on it\<close>

text \<open>
  A memory store names finitely many flags and segments, which is what evaluation needs
  to return.
\<close>

definition item_keys :: "('a \<Rightarrow> string) \<Rightarrow> 'a Collection \<Rightarrow> string list" where
  "item_keys key c = concat (map (\<lambda>(_, d). case descr_item d of Some x \<Rightarrow> [key x] | None \<Rightarrow> []) c)"

lemma item_keys_lookup:
  "map_of c k = Some d \<Longrightarrow> descr_item d = Some x \<Longrightarrow> key x \<in> set (item_keys key c)"
  by (drule map_of_SomeD) (force simp: item_keys_def)

interpretation memory: finite_store "store_view m" "set (item_keys flag_key (ms_flags m))"
    "set (item_keys segment_key (ms_segments m))" for m
  by unfold_locales (auto simp: store_view_def intro: item_keys_lookup)

lemma item_keys_card: "card (set (item_keys key c)) \<le> length c"
proof -
  have "length (item_keys key c) \<le> length c"
    by (induction c) (auto simp: item_keys_def split: option.splits)
  then show ?thesis by (rule le_trans [OF card_length])
qed

lemma memory_bound:
  "max (Suc (card (set (item_keys flag_key (ms_flags m))))) (card (set (item_keys segment_key (ms_segments m))))
     < length (ms_flags m) + length (ms_segments m) + 2 + extra"
  using item_keys_card [of flag_key "ms_flags m"] item_keys_card [of segment_key "ms_segments m"] by linarith

text \<open>
  Evaluation over a memory store always returns, whatever was put into the store:
  there is one result for every bound above the number of its items, and all guards are
  released.
\<close>

theorem memory_store_evaluation_terminates:
  "\<exists>d s. \<forall>extra. Evaluate (length (ms_flags m) + length (ms_segments m) + 2 + extra) e (store_view m) bs flag ctx
      = Some (d, s) \<and>
     prerequisites_seen (ev_stack s) = {} \<and> segments_seen (ev_stack s) = {}"
  using memory.Evaluate_total [of m e bs flag ctx] memory_bound by blast

end
