(* ===== verification/Source_Manager.thy ===== *)
theory Source_Manager
  imports Prelude Data_Source_Status Memory_Store
begin

text \<open>
  What the FDv2 data system chooses sources with, \<^verbatim>\<open>libs/server-sdk/src/data_systems/fdv2\<close>: the
  results of sources (\<^verbatim>\<open>fdv2_source_result.hpp\<close>), the manager of the synchronizer factories
  (\<^verbatim>\<open>source_manager.cpp\<close>) and the conditions for falling back and recovering
  (\<^verbatim>\<open>conditions.cpp\<close>). A factory is its position in the list of factories. A promise is the
  value it was resolved with first, and a delay is running until it fires or is cancelled.
\<close>

section \<open>Results of sources\<close>

datatype SourceValue =
    SrcChangeSet "ChangeSetData ChangeSet"
  | SrcInterrupted ErrorInfo
  | SrcTerminalError ErrorInfo
  | SrcShutdown
  | SrcGoodbye "string option"

record FDv2SourceResult =
  src_value :: SourceValue
  fdv1_fallback :: "int option"

section \<open>The source manager\<close>

datatype FactoryState = kAvailable | kBlocked

record SynchronizerFactoryWithState =
  factory_state :: FactoryState
  is_fdv1_fallback :: bool

record SourceManager =
  synchronizers :: "SynchronizerFactoryWithState list"
  synchronizer_index :: int
  current_factory_index :: int

definition SourceManager_new :: "bool list \<Rightarrow> SourceManager" where
  "SourceManager_new factories =
     \<lparr>synchronizers = map (\<lambda>fallback. \<lparr>factory_state = (if fallback then kBlocked else kAvailable),
        is_fdv1_fallback = fallback\<rparr>) factories,
      synchronizer_index = -1, current_factory_index = -1\<rparr>"

text \<open>The loop over at most all factories; the result is the factory whose synchronizer is built.\<close>

fun next_loop :: "nat \<Rightarrow> SourceManager \<Rightarrow> nat option \<times> SourceManager" where
  "next_loop 0 sm = (None, sm\<lparr>current_factory_index := -1\<rparr>)"
| "next_loop (Suc unvisited) sm =
     (let i = (synchronizer_index sm + 1) mod int (length (synchronizers sm));
          sm = sm\<lparr>synchronizer_index := i\<rparr>
      in if factory_state (synchronizers sm ! nat i) = kAvailable
         then (Some (nat i), sm\<lparr>current_factory_index := i\<rparr>)
         else next_loop unvisited sm)"

definition NextSynchronizer :: "SourceManager \<Rightarrow> nat option \<times> SourceManager" where
  "NextSynchronizer sm =
     (if synchronizers sm = [] then (None, sm\<lparr>current_factory_index := -1\<rparr>)
      else next_loop (length (synchronizers sm)) sm)"

definition BlockCurrentSynchronizer :: "SourceManager \<Rightarrow> SourceManager" where
  "BlockCurrentSynchronizer sm =
     (if current_factory_index sm \<ge> 0
      then sm\<lparr>synchronizers := (synchronizers sm)[nat (current_factory_index sm) :=
        (synchronizers sm ! nat (current_factory_index sm))\<lparr>factory_state := kBlocked\<rparr>]\<rparr>
      else sm)"

definition ResetSourceIndex :: "SourceManager \<Rightarrow> SourceManager" where
  "ResetSourceIndex sm = sm\<lparr>synchronizer_index := -1\<rparr>"

definition SwitchToFDv1Fallback :: "SourceManager \<Rightarrow> SourceManager" where
  "SwitchToFDv1Fallback sm =
     sm\<lparr>synchronizers := map (\<lambda>e. e\<lparr>factory_state := (if is_fdv1_fallback e then kAvailable else kBlocked)\<rparr>)
          (synchronizers sm),
        synchronizer_index := -1\<rparr>"

definition SwitchBackToFDv2 :: "SourceManager \<Rightarrow> SourceManager" where
  "SwitchBackToFDv2 sm =
     sm\<lparr>synchronizers := map (\<lambda>e. e\<lparr>factory_state := (if is_fdv1_fallback e then kBlocked else kAvailable)\<rparr>)
          (synchronizers sm),
        synchronizer_index := -1\<rparr>"

fun prime_from :: "int \<Rightarrow> nat \<Rightarrow> SynchronizerFactoryWithState list \<Rightarrow> bool" where
  "prime_from index i [] = False"
| "prime_from index i (e # es) = (if factory_state e = kAvailable then index = int i else prime_from index (Suc i) es)"

definition IsPrimeSynchronizer :: "SourceManager \<Rightarrow> bool" where
  "IsPrimeSynchronizer sm = prime_from (synchronizer_index sm) 0 (synchronizers sm)"

definition AvailableSynchronizerCount :: "SourceManager \<Rightarrow> nat" where
  "AvailableSynchronizerCount sm =
     fold (\<lambda>e count. if factory_state e = kAvailable then Suc count else count) (synchronizers sm) 0"

definition SynchronizerCount :: "SourceManager \<Rightarrow> nat" where
  "SynchronizerCount sm = length (synchronizers sm)"

definition IsCurrentSynchronizerFDv1Fallback :: "SourceManager \<Rightarrow> bool" where
  "IsCurrentSynchronizerFDv1Fallback sm \<longleftrightarrow>
     current_factory_index sm \<ge> 0 \<and> is_fdv1_fallback (synchronizers sm ! nat (current_factory_index sm))"

section \<open>Conditions\<close>

datatype ConditionType = ctFallback | ctRecovery | ctCancelled

record TimedCondition =
  tc_type :: ConditionType
  tc_closed :: bool
  tc_armed :: bool
  tc_running :: bool
  tc_result :: "ConditionType option"

definition TimedCondition_new :: "ConditionType \<Rightarrow> TimedCondition" where
  "TimedCondition_new t = \<lparr>tc_type = t, tc_closed = False, tc_armed = False, tc_running = False, tc_result = None\<rparr>"

definition ArmTimer :: "TimedCondition \<Rightarrow> TimedCondition" where
  "ArmTimer c = (if tc_closed c \<or> tc_armed c then c else c\<lparr>tc_armed := True, tc_running := True\<rparr>)"

definition CancelTimer :: "TimedCondition \<Rightarrow> TimedCondition" where
  "CancelTimer c = (if tc_armed c then c\<lparr>tc_armed := False, tc_running := False\<rparr> else c)"

definition resolve_condition :: "ConditionType \<Rightarrow> TimedCondition \<Rightarrow> TimedCondition" where
  "resolve_condition t c = (case tc_result c of None \<Rightarrow> c\<lparr>tc_result := Some t\<rparr> | Some _ \<Rightarrow> c)"

definition TimedCondition_Close :: "TimedCondition \<Rightarrow> TimedCondition" where
  "TimedCondition_Close c =
     (if tc_closed c then c else resolve_condition ctCancelled (CancelTimer (c\<lparr>tc_closed := True\<rparr>)))"

definition FallbackCondition :: TimedCondition where
  "FallbackCondition = TimedCondition_new ctFallback"

definition RecoveryCondition :: TimedCondition where
  "RecoveryCondition = ArmTimer (TimedCondition_new ctRecovery)"

definition Condition_Inform :: "FDv2SourceResult \<Rightarrow> TimedCondition \<Rightarrow> TimedCondition" where
  "Condition_Inform result c =
     (if tc_type c = ctFallback then
        (case src_value result of
           SrcChangeSet _ \<Rightarrow> CancelTimer c
         | SrcInterrupted _ \<Rightarrow> ArmTimer c
         | _ \<Rightarrow> c)
      else c)"

text \<open>The aggregate of a list of conditions, resolved by the first of them.\<close>

record Conditions =
  conditions :: "TimedCondition list"
  aggregate_result :: "ConditionType option"

definition Conditions_new :: "TimedCondition list \<Rightarrow> Conditions" where
  "Conditions_new cs = \<lparr>conditions = cs, aggregate_result = None\<rparr>"

definition Conditions_Inform :: "FDv2SourceResult \<Rightarrow> Conditions \<Rightarrow> Conditions" where
  "Conditions_Inform result cd = cd\<lparr>conditions := map (Condition_Inform result) (conditions cd)\<rparr>"

definition Conditions_Close :: "Conditions \<Rightarrow> Conditions" where
  "Conditions_Close cd =
     cd\<lparr>conditions := map TimedCondition_Close (conditions cd),
        aggregate_result := (case aggregate_result cd of None \<Rightarrow> Some ctCancelled | r \<Rightarrow> r)\<rparr>"

text \<open>The delay of the condition at a position ends; what the aggregate resolves to, if it does so now.\<close>

definition timer_fires :: "nat \<Rightarrow> Conditions \<Rightarrow> ConditionType option \<times> Conditions" where
  "timer_fires i cd =
     (if i < length (conditions cd) \<and> tc_running (conditions cd ! i) then
        (let c = conditions cd ! i;
             c' = resolve_condition (tc_type c) (c\<lparr>tc_running := False\<rparr>);
             cd' = cd\<lparr>conditions := (conditions cd)[i := c']\<rparr>
         in case (aggregate_result cd, tc_result c) of
              (None, None) \<Rightarrow> (Some (tc_type c), cd'\<lparr>aggregate_result := Some (tc_type c)\<rparr>)
            | _ \<Rightarrow> (None, cd'))
      else (None, cd))"

section \<open>The order of synchronizers\<close>

definition sm_ok :: "SourceManager \<Rightarrow> bool" where
  "sm_ok sm \<longleftrightarrow> -1 \<le> synchronizer_index sm \<and> synchronizer_index sm < int (length (synchronizers sm)) \<and>
     -1 \<le> current_factory_index sm \<and> current_factory_index sm < int (length (synchronizers sm))"

lemma sm_ok_ops:
  "sm_ok (SourceManager_new factories)"
  "sm_ok sm \<Longrightarrow> sm_ok (BlockCurrentSynchronizer sm)"
  "sm_ok sm \<Longrightarrow> sm_ok (ResetSourceIndex sm)"
  "sm_ok sm \<Longrightarrow> sm_ok (SwitchToFDv1Fallback sm)"
  "sm_ok sm \<Longrightarrow> sm_ok (SwitchBackToFDv2 sm)"
  by (auto simp: sm_ok_def SourceManager_new_def BlockCurrentSynchronizer_def ResetSourceIndex_def
      SwitchToFDv1Fallback_def SwitchBackToFDv2_def)

definition available :: "SourceManager \<Rightarrow> nat \<Rightarrow> bool" where
  "available sm i \<longleftrightarrow> i < length (synchronizers sm) \<and> factory_state (synchronizers sm ! i) = kAvailable"

text \<open>The factories in the order in which they are tried, from the one after the cursor around to it.\<close>

definition cyclic_order :: "SourceManager \<Rightarrow> nat list" where
  "cyclic_order sm =
     map (\<lambda>k. nat ((synchronizer_index sm + 1 + int k) mod int (length (synchronizers sm))))
       [0..<length (synchronizers sm)]"

lemma Available_count: "AvailableSynchronizerCount sm = length (filter (\<lambda>e. factory_state e = kAvailable) (synchronizers sm))"
proof -
  have "fold (\<lambda>e count. if factory_state e = kAvailable then Suc count else count) es n =
      n + length (filter (\<lambda>e. factory_state e = kAvailable) es)" for es :: "SynchronizerFactoryWithState list" and n
    by (induction es arbitrary: n) auto
  then show ?thesis by (simp add: AvailableSynchronizerCount_def)
qed

lemma Available_count_pos: "0 < AvailableSynchronizerCount sm \<longleftrightarrow> (\<exists>i. available sm i)"
  by (simp add: Available_count available_def filter_empty_conv) (metis in_set_conv_nth)

lemma next_loop_find:
  assumes "synchronizers sm \<noteq> []"
  shows "fst (next_loop n sm) =
    List.find (available sm) (map (\<lambda>k. nat ((synchronizer_index sm + 1 + int k) mod int (length (synchronizers sm)))) [0..<n])"
  using assms
proof (induction n arbitrary: sm)
  case (Suc n)
  let ?m = "int (length (synchronizers sm))"
  let ?i = "(synchronizer_index sm + 1) mod ?m"
  have m: "0 < ?m" using Suc.prems by simp
  have av: "available sm (nat ?i) \<longleftrightarrow> factory_state (synchronizers sm ! nat ?i) = kAvailable"
    using m by (simp add: available_def nat_less_iff)
  have "map (\<lambda>k. nat ((synchronizer_index sm + 1 + int k) mod ?m)) [0..<Suc n] =
      nat ?i # map (\<lambda>k. nat ((synchronizer_index sm + 1 + int (Suc k)) mod ?m)) [0..<n]"
    by (simp add: upt_conv_Cons map_Suc_upt [symmetric] comp_def del: upt_Suc)
  moreover have "(synchronizer_index sm + 1 + int (Suc k)) mod ?m = (?i + 1 + int k) mod ?m" for k
    by (simp only: add.assoc of_nat_Suc mod_add_left_eq)
  moreover have "available (sm\<lparr>synchronizer_index := ?i\<rparr>) = available sm"
    by (simp add: available_def fun_eq_iff)
  ultimately show ?case
    using Suc.IH [of "sm\<lparr>synchronizer_index := ?i\<rparr>"] Suc.prems av by (simp add: Let_def)
qed simp

lemma next_loop_synchronizers: "synchronizers (snd (next_loop n sm)) = synchronizers sm"
  by (induction n arbitrary: sm) (auto simp: Let_def)

lemma sm_ok_cursor:
  assumes "synchronizers sm \<noteq> []" and "sm_ok sm"
  shows "sm_ok (sm\<lparr>synchronizer_index := x mod int (length (synchronizers sm))\<rparr>)"
    and "sm_ok (sm\<lparr>synchronizer_index := x mod int (length (synchronizers sm)),
      current_factory_index := x mod int (length (synchronizers sm))\<rparr>)"
    and "sm_ok (sm\<lparr>current_factory_index := -1\<rparr>)"
proof -
  have "-1 \<le> x mod int (length (synchronizers sm))"
    using assms(1) by (intro order_trans [OF _ pos_mod_sign]) simp_all
  then show "sm_ok (sm\<lparr>synchronizer_index := x mod int (length (synchronizers sm))\<rparr>)"
    "sm_ok (sm\<lparr>synchronizer_index := x mod int (length (synchronizers sm)),
      current_factory_index := x mod int (length (synchronizers sm))\<rparr>)"
    "sm_ok (sm\<lparr>current_factory_index := -1\<rparr>)"
    using assms by (simp_all add: sm_ok_def)
qed

lemma sm_ok_next_loop: "synchronizers sm \<noteq> [] \<Longrightarrow> sm_ok sm \<Longrightarrow> sm_ok (snd (next_loop n sm))"
  by (induction n arbitrary: sm) (simp_all add: Let_def sm_ok_cursor)

lemma next_loop_current:
  "fst (next_loop n sm) = Some i \<Longrightarrow> synchronizers sm \<noteq> [] \<Longrightarrow>
   current_factory_index (snd (next_loop n sm)) = int i \<and> synchronizer_index (snd (next_loop n sm)) = int i"
  by (induction n arbitrary: sm) (auto simp: Let_def split: if_splits)

lemma cyclic_order_set:
  assumes "synchronizers sm \<noteq> []"
  shows "set (cyclic_order sm) = {..<length (synchronizers sm)}"
proof -
  let ?m = "int (length (synchronizers sm))" and ?c = "synchronizer_index sm + 1"
  have m: "0 < ?m" using assms by simp
  have "j \<in> set (cyclic_order sm)" if "j < length (synchronizers sm)" for j
  proof -
    let ?k = "nat ((int j - ?c) mod ?m)"
    have "int ?k = (int j - ?c) mod ?m" using m by simp
    then have "(?c + int ?k) mod ?m = int j mod ?m" by (simp add: mod_simps)
    moreover have "?k < length (synchronizers sm)" using m by (simp add: nat_less_iff)
    ultimately show ?thesis using that by (force simp: cyclic_order_def intro!: image_eqI [of _ _ ?k])
  qed
  moreover have "set (cyclic_order sm) \<subseteq> {..<length (synchronizers sm)}"
    using m by (auto simp: cyclic_order_def nat_less_iff)
  ultimately show ?thesis by auto
qed

lemma find_cyclic_None:
  assumes "synchronizers sm \<noteq> []"
  shows "List.find (available sm) (cyclic_order sm) = None \<longleftrightarrow> AvailableSynchronizerCount sm = 0"
proof -
  have "(\<exists>i. i \<in> set (cyclic_order sm) \<and> available sm i) \<longleftrightarrow> (\<exists>i. available sm i)"
    unfolding cyclic_order_set [OF assms] by (auto simp: available_def)
  then show ?thesis using Available_count_pos [of sm] by (auto simp: find_None_iff)
qed

section \<open>Properties\<close>

text \<open>
  Synchronizers rotate fairly: the next synchronizer is the first available one in the
  cyclic order after the last one, starting over from the first after a reset; there is
  none exactly when all factories are blocked; and it becomes the current one.
\<close>

theorem NextSynchronizer_rotates:
  assumes "sm_ok sm" and "NextSynchronizer sm = (nxt, sm')"
  shows "nxt = List.find (available sm) (cyclic_order sm) \<and>
    (nxt = None \<longleftrightarrow> AvailableSynchronizerCount sm = 0) \<and>
    current_factory_index sm' = (case nxt of Some i \<Rightarrow> int i | None \<Rightarrow> -1) \<and>
    synchronizers sm' = synchronizers sm \<and> sm_ok sm' \<and>
    (synchronizer_index sm = -1 \<longrightarrow> cyclic_order sm = [0..<length (synchronizers sm)])"
proof (cases "synchronizers sm = []")
  case True
  then show ?thesis
    using assms by (auto simp: NextSynchronizer_def cyclic_order_def Available_count sm_ok_def)
next
  case False
  have n: "next_loop (length (synchronizers sm)) sm = (nxt, sm')"
    using assms(2) False by (simp add: NextSynchronizer_def)
  then have find: "nxt = List.find (available sm) (cyclic_order sm)"
    using next_loop_find [OF False, of "length (synchronizers sm)"] by (simp add: cyclic_order_def)
  moreover have "nxt = None \<longleftrightarrow> AvailableSynchronizerCount sm = 0"
    unfolding find by (rule find_cyclic_None [OF False])
  moreover have "current_factory_index sm' = (case nxt of Some i \<Rightarrow> int i | None \<Rightarrow> -1)"
  proof (cases nxt)
    case None
    have "fst (next_loop k s) = None \<Longrightarrow> current_factory_index (snd (next_loop k s)) = -1" for k s
      by (induction k arbitrary: s) (auto simp: Let_def)
    then show ?thesis using None n by (metis fst_conv snd_conv option.simps(4))
  next
    case (Some i)
    then show ?thesis using next_loop_current [of "length (synchronizers sm)" sm i] n False by simp
  qed
  moreover have "synchronizers sm' = synchronizers sm" "sm_ok sm'"
    using next_loop_synchronizers [of "length (synchronizers sm)" sm]
      sm_ok_next_loop [OF False assms(1), of "length (synchronizers sm)"] n by simp_all
  moreover have "cyclic_order sm = [0..<length (synchronizers sm)]" if "synchronizer_index sm = -1"
    unfolding cyclic_order_def that by (rule nth_equalityI) (simp_all add: zmod_int [symmetric])
  ultimately show ?thesis by blast
qed

theorem NextSynchronizer_rotates_witness:
  "\<exists>sm'. NextSynchronizer ((SourceManager_new [False, True, False])\<lparr>synchronizer_index := 0\<rparr>) = (Some 2, sm') \<and>
     current_factory_index sm' = 2"
proof -
  let ?sm = "(SourceManager_new [False, True, False])\<lparr>synchronizer_index := 0\<rparr>"
  obtain nxt' sm' where n: "NextSynchronizer ?sm = (nxt', sm')" by force
  have "sm_ok ?sm" by (simp add: sm_ok_def SourceManager_new_def)
  from NextSynchronizer_rotates [OF this n] n show ?thesis
    by (simp add: cyclic_order_def available_def SourceManager_new_def upt_rec)
qed

end
