(* ===== verification/Dependency_Tracker.thy ===== *)
theory Dependency_Tracker
  imports Data_Model
begin

text \<open>
  The dependency tracker of \<^verbatim>\<open>libs/server-sdk/src/data_components/dependency_tracker\<close>:
  which flags and segments refer to which, and which of them a change affects. A
  \<^verbatim>\<open>std::set<std::string>\<close> is a strictly ascending list; the arrays indexed by
  \<^verbatim>\<open>DataKind\<close> are records with one field per kind, read in the order of the kinds.
  \<^verbatim>\<open>CalculateChanges\<close> recurses through the recorded dependents and takes a bound on the
  depth, which is shown never to matter.
\<close>

datatype DataKind = kFlag | kSegment

section \<open>Dependency sets\<close>

record DependencySet =
  flag_set :: "string list"
  segment_set :: "string list"

definition DependencySet_empty :: DependencySet where
  "DependencySet_empty = \<lparr>flag_set = [], segment_set = []\<rparr>"

definition DependencySet_Data :: "DependencySet \<Rightarrow> DataKind \<Rightarrow> string list" where
  "DependencySet_Data ds kind = (case kind of kFlag \<Rightarrow> flag_set ds | kSegment \<Rightarrow> segment_set ds)"

definition DependencySet_Set :: "DataKind \<Rightarrow> string \<Rightarrow> DependencySet \<Rightarrow> DependencySet" where
  "DependencySet_Set kind key ds =
     (case kind of
        kFlag \<Rightarrow> ds\<lparr>flag_set := insort_insert key (flag_set ds)\<rparr>
      | kSegment \<Rightarrow> ds\<lparr>segment_set := insort_insert key (segment_set ds)\<rparr>)"

definition DependencySet_Remove :: "DataKind \<Rightarrow> string \<Rightarrow> DependencySet \<Rightarrow> DependencySet" where
  "DependencySet_Remove kind key ds =
     (case kind of
        kFlag \<Rightarrow> ds\<lparr>flag_set := remove1 key (flag_set ds)\<rparr>
      | kSegment \<Rightarrow> ds\<lparr>segment_set := remove1 key (segment_set ds)\<rparr>)"

definition DependencySet_Contains :: "DependencySet \<Rightarrow> DataKind \<Rightarrow> string \<Rightarrow> bool" where
  "DependencySet_Contains ds kind key \<longleftrightarrow> key \<in> set (DependencySet_Data ds kind)"

definition DependencySet_Size :: "DependencySet \<Rightarrow> nat" where
  "DependencySet_Size ds = length (flag_set ds) + length (segment_set ds)"

text \<open>The elements in the order of \<^verbatim>\<open>for (deps_by_kind : set) for (dep : deps_by_kind.Data())\<close>.\<close>

definition dependencies :: "DependencySet \<Rightarrow> (DataKind \<times> string) list" where
  "dependencies ds = map (Pair kFlag) (flag_set ds) @ map (Pair kSegment) (segment_set ds)"

section \<open>Dependency maps\<close>

record DependencyMap =
  flag_map :: "(string \<times> DependencySet) list"
  segment_map :: "(string \<times> DependencySet) list"

definition DependencyMap_empty :: DependencyMap where
  "DependencyMap_empty = \<lparr>flag_map = [], segment_map = []\<rparr>"

definition DependencyMap_Set :: "DataKind \<Rightarrow> string \<Rightarrow> DependencySet \<Rightarrow> DependencyMap \<Rightarrow> DependencyMap" where
  "DependencyMap_Set kind key val dm =
     (case kind of
        kFlag \<Rightarrow> dm\<lparr>flag_map := umap_emplace key val (flag_map dm)\<rparr>
      | kSegment \<Rightarrow> dm\<lparr>segment_map := umap_emplace key val (segment_map dm)\<rparr>)"

definition DependencyMap_Get :: "DependencyMap \<Rightarrow> DataKind \<Rightarrow> string \<Rightarrow> DependencySet option" where
  "DependencyMap_Get dm kind key =
     map_of (case kind of kFlag \<Rightarrow> flag_map dm | kSegment \<Rightarrow> segment_map dm) key"

definition DependencyMap_Clear :: "DependencyMap \<Rightarrow> DependencyMap" where
  "DependencyMap_Clear dm = dm\<lparr>flag_map := [], segment_map := []\<rparr>"

section \<open>The tracker\<close>

record DependencyTracker =
  dependencies_from :: DependencyMap
  dependencies_to :: DependencyMap

definition DependencyTracker_empty :: DependencyTracker where
  "DependencyTracker_empty =
     \<lparr>dependencies_from = DependencyMap_empty, dependencies_to = DependencyMap_empty\<rparr>"

definition CalculateClauseDeps :: "Clause list \<Rightarrow> DependencySet \<Rightarrow> DependencySet" where
  "CalculateClauseDeps clauses deps =
     fold (\<lambda>clause deps.
         if clause_op clause = kSegmentMatch
         then fold (\<lambda>value. DependencySet_Set kSegment (AsString value)) (clause_values clause) deps
         else deps)
       clauses deps"

text \<open>
  The common part of the updates. \<^verbatim>\<open>Get\<close> returns a copy of the recorded set, so the
  changes to \<^verbatim>\<open>deps_to_this_dep\<close> are changes to a local variable.
\<close>

definition UpdateDependencies :: "DataKind \<Rightarrow> string \<Rightarrow> DependencySet \<Rightarrow> DependencyTracker \<Rightarrow> DependencyTracker" where
  "UpdateDependencies kind key deps t =
     (let to1 =
        (case DependencyMap_Get (dependencies_from t) kind key of
           Some current_deps \<Rightarrow>
             fold (\<lambda>(kind_of_dep, dep) dto.
                 case DependencyMap_Get dto kind_of_dep dep of
                   Some deps_to_this_dep \<Rightarrow>
                     (let deps_to_this_dep = DependencySet_Remove kind_of_dep key deps_to_this_dep in dto)
                 | None \<Rightarrow> dto)
               (dependencies current_deps) (dependencies_to t)
         | None \<Rightarrow> dependencies_to t);
      from1 = DependencyMap_Set kind key deps (dependencies_from t);
      to2 =
        fold (\<lambda>(kind_of_dep, dep) dto.
            case DependencyMap_Get dto kind_of_dep dep of
              None \<Rightarrow>
                DependencyMap_Set kind_of_dep dep (DependencySet_Set kind key DependencySet_empty) dto
            | Some deps_to_this_dep \<Rightarrow>
                (let deps_to_this_dep = DependencySet_Set kind key deps_to_this_dep in dto))
          (dependencies deps) to1
      in t\<lparr>dependencies_from := from1, dependencies_to := to2\<rparr>)"

definition UpdateDependencies_flag :: "string \<Rightarrow> FlagDescriptor \<Rightarrow> DependencyTracker \<Rightarrow> DependencyTracker" where
  "UpdateDependencies_flag key flag t =
     (let deps =
        (case descr_item flag of
           Some item \<Rightarrow>
             (let deps = fold (\<lambda>prereq. DependencySet_Set kFlag (prereq_key prereq))
                           (prerequisites item) DependencySet_empty
              in fold (\<lambda>rule. CalculateClauseDeps (rule_clauses rule)) (flag_rules item) deps)
         | None \<Rightarrow> DependencySet_empty)
      in UpdateDependencies kFlag key deps t)"

definition UpdateDependencies_segment :: "string \<Rightarrow> SegmentDescriptor \<Rightarrow> DependencyTracker \<Rightarrow> DependencyTracker" where
  "UpdateDependencies_segment key segment t =
     (let deps =
        (case descr_item segment of
           Some item \<Rightarrow>
             fold (\<lambda>rule. CalculateClauseDeps (srule_clauses rule)) (segment_rules item) DependencySet_empty
         | None \<Rightarrow> DependencySet_empty)
      in UpdateDependencies kSegment key deps t)"

definition DependencyTracker_Clear :: "DependencyTracker \<Rightarrow> DependencyTracker" where
  "DependencyTracker_Clear t =
     t\<lparr>dependencies_to := DependencyMap_Clear (dependencies_to t),
       dependencies_from := DependencyMap_Clear (dependencies_from t)\<rparr>"

text \<open>The loop over affected items, with the recursive call as a parameter.\<close>

fun visit_all :: "(DataKind \<Rightarrow> string \<Rightarrow> DependencySet \<Rightarrow> DependencySet option) \<Rightarrow>
    (DataKind \<times> string) list \<Rightarrow> DependencySet \<Rightarrow> DependencySet option" where
  "visit_all f [] ds = Some ds"
| "visit_all f ((kind, dep) # rest) ds =
     (case f kind dep ds of None \<Rightarrow> None | Some ds' \<Rightarrow> visit_all f rest ds')"

primrec CalculateChanges :: "nat \<Rightarrow> DependencyTracker \<Rightarrow> DataKind \<Rightarrow> string \<Rightarrow> DependencySet \<Rightarrow> DependencySet option" where
  "CalculateChanges 0 t kind key dependency_set = None"
| "CalculateChanges (Suc fuel) t kind key dependency_set =
     (if \<not> DependencySet_Contains dependency_set kind key then
        (let dependency_set = DependencySet_Set kind key dependency_set in
         case DependencyMap_Get (dependencies_to t) kind key of
           Some affected_items \<Rightarrow>
             visit_all (CalculateChanges fuel t) (dependencies affected_items) dependency_set
         | None \<Rightarrow> Some dependency_set)
      else Some dependency_set)"

section \<open>Elements and edges\<close>

abbreviation elements :: "DependencySet \<Rightarrow> (DataKind \<times> string) set" where
  "elements ds \<equiv> set (dependencies ds)"

lemma Contains_iff [simp]: "DependencySet_Contains ds kind key \<longleftrightarrow> (kind, key) \<in> elements ds"
  by (cases kind) (auto simp: DependencySet_Contains_def DependencySet_Data_def dependencies_def)

lemma elements_Set [simp]: "elements (DependencySet_Set kind key ds) = insert (kind, key) (elements ds)"
  by (cases kind) (auto simp: DependencySet_Set_def dependencies_def set_insort_insert)

lemma elements_empty [simp]: "elements DependencySet_empty = {}"
  by (simp add: DependencySet_empty_def dependencies_def)

lemma finite_elements [simp]: "finite (elements ds)"
  by simp

definition set_ok :: "DependencySet \<Rightarrow> bool" where
  "set_ok ds \<longleftrightarrow> sorted_wrt (<) (flag_set ds) \<and> sorted_wrt (<) (segment_set ds)"

lemma set_ok_empty [simp]: "set_ok DependencySet_empty"
  by (simp add: set_ok_def DependencySet_empty_def)

lemma set_ok_Set [simp]: "set_ok ds \<Longrightarrow> set_ok (DependencySet_Set kind key ds)"
  by (cases kind)
    (auto simp: set_ok_def DependencySet_Set_def strict_sorted_iff sorted_insort_insert distinct_insort_insert)

lemma set_ok_Remove: "set_ok ds \<Longrightarrow> set_ok (DependencySet_Remove kind key ds)"
  by (cases kind)
    (auto simp: set_ok_def DependencySet_Remove_def strict_sorted_iff sorted_remove1)

lemma Size_card: "set_ok ds \<Longrightarrow> DependencySet_Size ds = card (elements ds)"
proof -
  assume "set_ok ds"
  then have "distinct (dependencies ds)"
    by (auto simp: set_ok_def dependencies_def strict_sorted_iff distinct_map inj_on_def)
  then have "card (elements ds) = length (dependencies ds)" by (rule distinct_card)
  then show ?thesis by (simp add: DependencySet_Size_def dependencies_def)
qed

text \<open>An edge leads from an item to an item recorded as depending on it.\<close>

definition dependents :: "DependencyTracker \<Rightarrow> DataKind \<times> string \<Rightarrow> (DataKind \<times> string) list" where
  "dependents t p =
     (case DependencyMap_Get (dependencies_to t) (fst p) (snd p) of
        Some ds \<Rightarrow> dependencies ds | None \<Rightarrow> [])"

definition affects :: "DependencyTracker \<Rightarrow> ((DataKind \<times> string) \<times> (DataKind \<times> string)) set" where
  "affects t = {(p, q). q \<in> set (dependents t p)}"

definition tracked :: "DependencyTracker \<Rightarrow> (DataKind \<times> string) list" where
  "tracked t =
     map (\<lambda>(key, _). (kFlag, key)) (flag_map (dependencies_to t)) @
     map (\<lambda>(key, _). (kSegment, key)) (segment_map (dependencies_to t))"

lemma Get_tracked: "DependencyMap_Get (dependencies_to t) kind key = Some ds \<Longrightarrow> (kind, key) \<in> set (tracked t)"
  by (cases kind) (force simp: DependencyMap_Get_def tracked_def dest: map_of_SomeD)+

section \<open>The recursion computes a closure\<close>

text \<open>
  What one call establishes: it returns a set that has the starting set and the item,
  holds the dependents of everything it added, and adds only what is reachable.
\<close>

definition visits :: "DependencyTracker \<Rightarrow> (DataKind \<times> string) set \<Rightarrow> DependencySet \<Rightarrow> DependencySet option \<Rightarrow> bool" where
  "visits t ps ds result \<longleftrightarrow>
     (\<exists>r. result = Some r \<and> (set_ok ds \<longrightarrow> set_ok r) \<and> elements ds \<union> ps \<subseteq> elements r \<and>
          (\<forall>p \<in> elements r - elements ds. set (dependents t p) \<subseteq> elements r) \<and>
          elements r \<subseteq> elements ds \<union> (affects t)\<^sup>* `` ps)"

lemma visit_all_visits:
  assumes "\<And>kind key ds'. elements ds \<subseteq> elements ds' \<Longrightarrow> visits t {(kind, key)} ds' (f kind key ds')"
  shows "visits t (set ps) ds (visit_all f ps ds)"
  using assms
proof (induction ps arbitrary: ds)
  case Nil
  then show ?case by (simp add: visits_def)
next
  case (Cons p ps)
  obtain kind key where p: "p = (kind, key)" by force
  obtain r1 where r1: "f kind key ds = Some r1" "set_ok ds \<longrightarrow> set_ok r1"
    "elements ds \<union> {(kind, key)} \<subseteq> elements r1"
    "\<forall>p \<in> elements r1 - elements ds. set (dependents t p) \<subseteq> elements r1"
    "elements r1 \<subseteq> elements ds \<union> (affects t)\<^sup>* `` {(kind, key)}"
    using Cons.prems [of ds kind key] unfolding visits_def by blast
  have "visits t (set ps) r1 (visit_all f ps r1)"
    using r1(3) by (intro Cons.IH Cons.prems) blast
  then obtain r where r: "visit_all f ps r1 = Some r" "set_ok r1 \<longrightarrow> set_ok r"
    "elements r1 \<union> set ps \<subseteq> elements r"
    "\<forall>p \<in> elements r - elements r1. set (dependents t p) \<subseteq> elements r"
    "elements r \<subseteq> elements r1 \<union> (affects t)\<^sup>* `` set ps"
    unfolding visits_def by blast
  have "\<forall>p \<in> elements r - elements ds. set (dependents t p) \<subseteq> elements r"
    using r1(4) r(3,4) by blast
  moreover have "elements r \<subseteq> elements ds \<union> (affects t)\<^sup>* `` set (p # ps)"
    using r1(5) r(5) by (auto simp: p)
  ultimately show ?case
    using r1(1,2,3) r(1,2,3) unfolding visits_def p by auto
qed

lemma CalculateChanges_visits:
  "card (set (tracked t) - elements ds) < fuel \<Longrightarrow>
   visits t {(kind, key)} ds (CalculateChanges fuel t kind key ds)"
proof (induction fuel arbitrary: kind key ds)
  case (Suc fuel)
  let ?p = "(kind, key)" and ?ds = "DependencySet_Set kind key ds"
  show ?case
  proof (cases "?p \<in> elements ds")
    case True
    then show ?thesis by (auto simp: visits_def)
  next
    case new: False
    show ?thesis
    proof (cases "DependencyMap_Get (dependencies_to t) kind key")
      case None
      then have "dependents t ?p = []" by (simp add: dependents_def)
      then show ?thesis using None new by (auto simp: visits_def)
    next
      case (Some affected)
      have deps: "dependents t ?p = dependencies affected" using Some by (simp add: dependents_def)
      have step: "(affects t)\<^sup>* `` set (dependencies affected) \<subseteq> (affects t)\<^sup>* `` {?p}"
        using deps by (auto simp: affects_def intro: converse_rtrancl_into_rtrancl)
      have "card (set (tracked t) - elements ds') < fuel" if "elements ?ds \<subseteq> elements ds'" for ds'
      proof -
        have "card (set (tracked t) - elements ds') < card (set (tracked t) - elements ds)"
          using that new Get_tracked [OF Some] by (intro psubset_card_mono) auto
        then show ?thesis using Suc.prems by simp
      qed
      then have "visits t (elements affected) ?ds
          (visit_all (CalculateChanges fuel t) (dependencies affected) ?ds)"
        by (intro visit_all_visits Suc.IH)
      then obtain r where r: "visit_all (CalculateChanges fuel t) (dependencies affected) ?ds = Some r"
        "set_ok ?ds \<longrightarrow> set_ok r" "elements ?ds \<union> elements affected \<subseteq> elements r"
        "\<forall>p \<in> elements r - elements ?ds. set (dependents t p) \<subseteq> elements r"
        "elements r \<subseteq> elements ?ds \<union> (affects t)\<^sup>* `` elements affected"
        unfolding visits_def by blast
      have "set (dependents t p) \<subseteq> elements r" if "p \<in> elements r - elements ds" for p
        using that r(3,4) deps by (cases "p = ?p") auto
      moreover have "elements r \<subseteq> elements ds \<union> (affects t)\<^sup>* `` {?p}"
        using r(5) step by auto
      ultimately show ?thesis
        using r(1,2,3) Some new unfolding visits_def by (auto simp: Let_def)
    qed
  qed
qed simp

definition closed :: "DependencyTracker \<Rightarrow> DependencySet \<Rightarrow> bool" where
  "closed t ds \<longleftrightarrow> (\<forall>p \<in> elements ds. set (dependents t p) \<subseteq> elements ds)"

lemma closed_empty [simp]: "closed t DependencySet_empty"
  by (simp add: closed_def)

lemma closed_reachable:
  assumes "closed t ds" and "p \<in> elements ds" and "(p, q) \<in> (affects t)\<^sup>*"
  shows "q \<in> elements ds"
  using assms(3,2) assms(1) by (induction rule: rtrancl_induct) (auto simp: closed_def affects_def)

lemma visits_closed:
  assumes "visits t ps ds result" and "closed t ds"
  obtains r where "result = Some r" "closed t r" "elements r = elements ds \<union> (affects t)\<^sup>* `` ps"
    "set_ok ds \<Longrightarrow> set_ok r"
proof -
  obtain r where r: "result = Some r" "set_ok ds \<longrightarrow> set_ok r" "elements ds \<union> ps \<subseteq> elements r"
    "\<forall>p \<in> elements r - elements ds. set (dependents t p) \<subseteq> elements r"
    "elements r \<subseteq> elements ds \<union> (affects t)\<^sup>* `` ps"
    using assms(1) unfolding visits_def by blast
  have cl: "closed t r" using r(3,4) assms(2) unfolding closed_def by blast
  have "(affects t)\<^sup>* `` ps \<subseteq> elements r" using r(3) closed_reachable [OF cl] by blast
  then show thesis using that r cl by blast
qed

section \<open>What the updates record\<close>

lemma Get_Set:
  "DependencyMap_Get (DependencyMap_Set kind key val dm) kind' key' =
     (if (kind', key') = (kind, key) \<and> DependencyMap_Get dm kind key = None then Some val
      else DependencyMap_Get dm kind' key')"
  by (cases kind; cases kind')
    (auto simp: DependencyMap_Get_def DependencyMap_Set_def umap_emplace_def split: option.splits)

lemma Get_Clear [simp]: "DependencyMap_Get (DependencyMap_Clear dm) kind key = None"
  by (cases kind) (simp_all add: DependencyMap_Get_def DependencyMap_Clear_def)

lemma Get_empty [simp]: "DependencyMap_Get DependencyMap_empty kind key = None"
  by (cases kind) (simp_all add: DependencyMap_Get_def DependencyMap_empty_def)

lemma removal_lost:
  "fold (\<lambda>(kind_of_dep, dep) dto.
       case DependencyMap_Get dto kind_of_dep dep of Some _ \<Rightarrow> dto | None \<Rightarrow> dto) deps dto = dto"
  by (induction deps) (auto split: option.splits)

lemma additions:
  "DependencyMap_Get
     (fold (\<lambda>(kind_of_dep, dep) dto.
         case DependencyMap_Get dto kind_of_dep dep of
           None \<Rightarrow> DependencyMap_Set kind_of_dep dep val dto
         | Some _ \<Rightarrow> dto) deps dto) kind' key' =
   (case DependencyMap_Get dto kind' key' of
      Some s \<Rightarrow> Some s
    | None \<Rightarrow> if (kind', key') \<in> set deps then Some val else None)"
proof (induction deps arbitrary: dto)
  case (Cons d deps)
  show ?case
    by (cases d) (auto simp: Cons.IH Get_Set split: option.splits)
qed (simp split: option.splits)

lemma UpdateDependencies_to:
  "DependencyMap_Get (dependencies_to (UpdateDependencies kind key deps t)) kind' key' =
     (case DependencyMap_Get (dependencies_to t) kind' key' of
        Some s \<Rightarrow> Some s
      | None \<Rightarrow>
          if (kind', key') \<in> elements deps then Some (DependencySet_Set kind key DependencySet_empty)
          else None)"
  by (simp add: UpdateDependencies_def removal_lost additions Let_def cong: option.case_cong split: option.splits)

text \<open>A sequence of updates, each for an item with its dependencies.\<close>

definition updates :: "(DataKind \<times> string \<times> DependencySet) list \<Rightarrow> DependencyTracker \<Rightarrow> DependencyTracker" where
  "updates us t = fold (\<lambda>(kind, key, deps). UpdateDependencies kind key deps) us t"

lemma updates_to:
  "DependencyMap_Get (dependencies_to (updates us t)) kind' key' =
     (case DependencyMap_Get (dependencies_to t) kind' key' of
        Some s \<Rightarrow> Some s
      | None \<Rightarrow>
          (case List.find (\<lambda>(_, _, deps). DependencySet_Contains deps kind' key') us of
             Some (kind, key, _) \<Rightarrow> Some (DependencySet_Set kind key DependencySet_empty)
           | None \<Rightarrow> None))"
proof (induction us arbitrary: t)
  case Nil
  then show ?case by (simp add: updates_def split: option.splits)
next
  case (Cons u us)
  obtain kind key deps where u: "u = (kind, key, deps)" by (cases u)
  have "updates (u # us) t = updates us (UpdateDependencies kind key deps t)"
    by (simp add: updates_def u)
  then show ?case
    by (simp add: Cons.IH UpdateDependencies_to u split: option.splits)
qed

section \<open>Properties\<close>

text \<open>
  The changes of an item. Starting from a set that already holds the dependents of
  its elements, as the empty set does, the recursion returns for every bound above the
  number of tracked items, also when dependencies are circular, and adds exactly the
  item and what is reachable from it through recorded dependents.
\<close>

theorem CalculateChanges_closure:
  assumes "closed t ds" and "length (tracked t) < fuel"
  shows "\<exists>r. CalculateChanges fuel t kind key ds = Some r \<and> closed t r \<and>
    elements r = elements ds \<union> (affects t)\<^sup>* `` {(kind, key)}"
proof -
  have "card (set (tracked t) - elements ds) \<le> length (tracked t)"
    using card_mono [of "set (tracked t)" "set (tracked t) - elements ds"] card_length [of "tracked t"]
    by simp
  then have "visits t {(kind, key)} ds (CalculateChanges fuel t kind key ds)"
    using assms(2) by (intro CalculateChanges_visits) simp
  then show ?thesis using assms(1) by (rule visits_closed) blast
qed

text \<open>Two flags that are prerequisites of each other.\<close>

definition cyclic_tracker :: DependencyTracker where
  "cyclic_tracker =
     updates [(kFlag, ''a'', DependencySet_Set kFlag ''b'' DependencySet_empty),
              (kFlag, ''b'', DependencySet_Set kFlag ''a'' DependencySet_empty)] DependencyTracker_empty"

theorem CalculateChanges_closure_witness:
  "closed cyclic_tracker DependencySet_empty \<and> length (tracked cyclic_tracker) < 3 \<and>
   (\<exists>r. CalculateChanges 3 cyclic_tracker kFlag ''a'' DependencySet_empty = Some r \<and>
     elements r = (affects cyclic_tracker)\<^sup>* `` {(kFlag, ''a'')})"
proof -
  have "length (tracked cyclic_tracker) < 3" by code_simp
  then show ?thesis
    using CalculateChanges_closure [of cyclic_tracker DependencySet_empty 3 kFlag "''a''"] by simp blast
qed

text \<open>
  What the tracker knows of an item is one dependent: the first item since the
  tracker was cleared whose update named it. Items that come to depend on it later are
  not recorded, and the record is not changed when the first one is updated to no longer
  depend on it.
\<close>

theorem first_dependent_recorded:
  "DependencyMap_Get (dependencies_to (updates us (DependencyTracker_Clear t))) kind' key' =
     (case List.find (\<lambda>(_, _, deps). DependencySet_Contains deps kind' key') us of
        Some (kind, key, _) \<Rightarrow> Some (DependencySet_Set kind key DependencySet_empty)
      | None \<Rightarrow> None)"
  by (simp add: updates_to DependencyTracker_Clear_def split: option.splits)

end
