(* ===== verification/Change_Notifier.thy ===== *)
theory Change_Notifier
  imports Memory_Store Dependency_Tracker
begin

text \<open>
  The change notifier of \<^verbatim>\<open>libs/server-sdk/src/data_components/change_notifier\<close>, which
  passes data on to the memory store, keeps the dependency tracker up to date and tells
  listeners which flags a change affects. The data systems construct it with the same
  memory store as sink and as source, so the model holds one store. A call of the signal
  is recorded with the changed keys and the store as it is at that moment, which is what a
  handler that reads the store sees.
\<close>

record ChangeNotifier =
  cn_store :: MemoryStore
  dependency_tracker :: DependencyTracker
  listeners :: nat
  signals :: "(string list \<times> MemoryStore) list"

definition ChangeNotifier_new :: "MemoryStore \<Rightarrow> ChangeNotifier" where
  "ChangeNotifier_new store =
     \<lparr>cn_store = store, dependency_tracker = DependencyTracker_empty, listeners = 0, signals = []\<rparr>"

definition OnFlagChange :: "ChangeNotifier \<Rightarrow> ChangeNotifier" where
  "OnFlagChange c = c\<lparr>listeners := Suc (listeners c)\<rparr>"

definition HasListeners :: "ChangeNotifier \<Rightarrow> bool" where
  "HasListeners c \<longleftrightarrow> listeners c \<noteq> 0"

definition NotifyChanges :: "DependencySet \<Rightarrow> ChangeNotifier \<Rightarrow> ChangeNotifier" where
  "NotifyChanges changes c =
     (let flag_changes = DependencySet_Data changes kFlag in
      if flag_changes \<noteq> [] then c\<lparr>signals := signals c @ [(flag_changes, cn_store c)]\<rparr> else c)"

text \<open>
  The calls of the tracker, with a bound above the number of items it tracks, so that the
  recursion returns (\<open>calculate_spec\<close>).
\<close>

definition calculate :: "DependencyTracker \<Rightarrow> DataKind \<Rightarrow> string \<Rightarrow> DependencySet \<Rightarrow> DependencySet" where
  "calculate t kind key ds =
     (case CalculateChanges (Suc (length (tracked t))) t kind key ds of Some r \<Rightarrow> r | None \<Rightarrow> ds)"

text \<open>The template \<^verbatim>\<open>CalculateChanges\<close> of the notifier, for one kind of item.\<close>

definition CollectionChanges :: "DependencyTracker \<Rightarrow> DataKind \<Rightarrow> 'a Collection \<Rightarrow> 'a Collection \<Rightarrow>
    DependencySet \<Rightarrow> DependencySet" where
  "CollectionChanges t kind existing_flags_or_segments new_flags_or_segments updated_items =
     (let updated_items =
        fold (\<lambda>(key, old) updated_items.
            case map_of new_flags_or_segments key of
              Some new \<Rightarrow>
                if descr_version new \<le> descr_version old then updated_items
                else calculate t kind key updated_items
            | None \<Rightarrow> calculate t kind key updated_items)
          existing_flags_or_segments updated_items
      in fold (\<lambda>(key, new) updated_items.
            case map_of existing_flags_or_segments key of
              Some oldItem \<Rightarrow>
                if descr_version new \<le> descr_version oldItem then updated_items
                else calculate t kind key updated_items
            | None \<Rightarrow> calculate t kind key updated_items)
          new_flags_or_segments updated_items)"

definition ChangeNotifier_Init :: "SDKDataSet \<Rightarrow> ChangeNotifier \<Rightarrow> ChangeNotifier" where
  "ChangeNotifier_Init data_set c =
     (let change_notifications =
        (if HasListeners c then
           (let t = dependency_tracker c;
                updated_items = CollectionChanges t kFlag (AllFlags (cn_store c)) (ds_flags data_set)
                  DependencySet_empty
            in Some (CollectionChanges t kSegment (AllSegments (cn_store c)) (ds_segments data_set)
                  updated_items))
         else None);
      t = DependencyTracker_Clear (dependency_tracker c);
      t = fold (\<lambda>(key, flag). UpdateDependencies_flag key flag) (ds_flags data_set) t;
      t = fold (\<lambda>(key, segment). UpdateDependencies_segment key segment) (ds_segments data_set) t;
      c = c\<lparr>dependency_tracker := t\<rparr>;
      c = c\<lparr>cn_store := MemoryStore_Init data_set (cn_store c)\<rparr>
      in case change_notifications of Some changes \<Rightarrow> NotifyChanges changes c | None \<Rightarrow> c)"

text \<open>
  The template \<^verbatim>\<open>UpsertCommon\<close>; \<open>update_deps\<close> and \<open>sink_upsert\<close> are the overloads of
  \<^verbatim>\<open>UpdateDependencies\<close> and of the sink's \<^verbatim>\<open>Upsert\<close> for the kind of item.
\<close>

definition UpsertCommon ::
  "(string \<Rightarrow> 'a ItemDescriptor \<Rightarrow> DependencyTracker \<Rightarrow> DependencyTracker) \<Rightarrow>
   (string \<Rightarrow> 'a ItemDescriptor \<Rightarrow> MemoryStore \<Rightarrow> MemoryStore) \<Rightarrow>
   DataKind \<Rightarrow> string \<Rightarrow> 'a ItemDescriptor option \<Rightarrow> 'a ItemDescriptor \<Rightarrow> ChangeNotifier \<Rightarrow> ChangeNotifier" where
  "UpsertCommon update_deps sink_upsert kind key existing updated c =
     (if (case existing of Some e \<Rightarrow> descr_version updated \<le> descr_version e | None \<Rightarrow> False) then c
      else
        (let c = c\<lparr>dependency_tracker := update_deps key updated (dependency_tracker c)\<rparr>;
             c = (if HasListeners c then
                    (let updated_deps = calculate (dependency_tracker c) kind key DependencySet_empty
                     in NotifyChanges updated_deps c)
                  else c)
         in c\<lparr>cn_store := sink_upsert key updated (cn_store c)\<rparr>))"

definition ChangeNotifier_Upsert_flag :: "string \<Rightarrow> FlagDescriptor \<Rightarrow> ChangeNotifier \<Rightarrow> ChangeNotifier" where
  "ChangeNotifier_Upsert_flag key flag c =
     UpsertCommon UpdateDependencies_flag Upsert_flag kFlag key (MemoryStore_GetFlag (cn_store c) key) flag c"

definition ChangeNotifier_Upsert_segment :: "string \<Rightarrow> SegmentDescriptor \<Rightarrow> ChangeNotifier \<Rightarrow> ChangeNotifier" where
  "ChangeNotifier_Upsert_segment key segment c =
     UpsertCommon UpdateDependencies_segment Upsert_segment kSegment key
       (MemoryStore_GetSegment (cn_store c) key) segment c"

definition ChangeNotifier_Apply :: "ChangeSetData ChangeSet \<Rightarrow> ChangeNotifier \<Rightarrow> ChangeNotifier" where
  "ChangeNotifier_Apply change_set c =
     (if cs_type change_set = kNoChange then c
      else
        (let t = dependency_tracker c;
             change_notifications =
               (if HasListeners c then
                  Some (if cs_type change_set = kFull then
                     (let (new_flags, new_segments) =
                        fold (\<lambda>change (new_flags, new_segments).
                            case change_object change of
                              FlagObject f \<Rightarrow> (umap_emplace (change_key change) f new_flags, new_segments)
                            | SegmentObject s \<Rightarrow> (new_flags, umap_emplace (change_key change) s new_segments))
                          (cs_data change_set) ([], []);
                      affected = CollectionChanges t kFlag (AllFlags (cn_store c)) new_flags DependencySet_empty
                      in CollectionChanges t kSegment (AllSegments (cn_store c)) new_segments affected)
                   else
                     fold (\<lambda>change.
                         case change_object change of
                           FlagObject _ \<Rightarrow> calculate t kFlag (change_key change)
                         | SegmentObject _ \<Rightarrow> calculate t kSegment (change_key change))
                       (cs_data change_set) DependencySet_empty)
                else None);
             t = (if cs_type change_set = kFull then DependencyTracker_Clear t else t);
             t = fold (\<lambda>change.
                   case change_object change of
                     FlagObject f \<Rightarrow> UpdateDependencies_flag (change_key change) f
                   | SegmentObject s \<Rightarrow> UpdateDependencies_segment (change_key change) s)
                 (cs_data change_set) t;
             c = c\<lparr>dependency_tracker := t\<rparr>;
             c = c\<lparr>cn_store := MemoryStore_Apply change_set (cn_store c)\<rparr>
         in case change_notifications of Some changes \<Rightarrow> NotifyChanges changes c | None \<Rightarrow> c))"

section \<open>Calculated changes\<close>

text \<open>Sets the notifier accumulates: sorted, and closed under recorded dependents.\<close>

definition accumulates :: "DependencyTracker \<Rightarrow> (DataKind \<times> string) set \<Rightarrow> DependencySet \<Rightarrow> DependencySet \<Rightarrow> bool" where
  "accumulates t ps ds r \<longleftrightarrow> (set_ok ds \<and> closed t ds \<longrightarrow>
     set_ok r \<and> closed t r \<and> elements r = elements ds \<union> (affects t)\<^sup>* `` ps)"

lemma calculate_spec: "accumulates t {(kind, key)} ds (calculate t kind key ds)"
  unfolding accumulates_def
proof
  assume ds: "set_ok ds \<and> closed t ds"
  have "card (set (tracked t) - elements ds) \<le> length (tracked t)"
    using card_mono [of "set (tracked t)" "set (tracked t) - elements ds"] card_length [of "tracked t"]
    by simp
  then have "visits t {(kind, key)} ds (CalculateChanges (Suc (length (tracked t))) t kind key ds)"
    by (intro CalculateChanges_visits) simp
  then show "set_ok (calculate t kind key ds) \<and> closed t (calculate t kind key ds) \<and>
      elements (calculate t kind key ds) = elements ds \<union> (affects t)\<^sup>* `` {(kind, key)}"
    using conjunct2 [OF ds] by (rule visits_closed) (simp add: calculate_def ds)
qed

lemma accumulates_refl: "accumulates t {} ds ds"
  by (simp add: accumulates_def)

lemma accumulates_trans:
  "accumulates t ps ds r \<Longrightarrow> accumulates t qs r r' \<Longrightarrow> accumulates t (ps \<union> qs) ds r'"
  by (auto simp: accumulates_def Image_Un)

lemma accumulates_fold:
  assumes "\<And>x ds. x \<in> set xs \<Longrightarrow> accumulates t (ps x) ds (f x ds)"
  shows "accumulates t (\<Union> (ps ` set xs)) ds (fold f xs ds)"
  using assms
proof (induction xs arbitrary: ds)
  case (Cons x xs)
  have "accumulates t (ps x \<union> \<Union> (ps ` set xs)) ds (fold f xs (f x ds))"
    using Cons.prems Cons.IH by (intro accumulates_trans) auto
  then show ?case by simp
qed (simp add: accumulates_refl)

text \<open>The keys that one side has and the other does not, or that have a newer version.\<close>

definition changed :: "'a Collection \<Rightarrow> 'a Collection \<Rightarrow> string set" where
  "changed old new =
     {key. case (map_of old key, map_of new key) of
        (Some x, Some y) \<Rightarrow> descr_version x < descr_version y
      | (None, None) \<Rightarrow> False
      | _ \<Rightarrow> True}"

lemma CollectionChanges_spec:
  assumes "distinct (map fst old)" and "distinct (map fst new)"
  shows "accumulates t (Pair kind ` changed old new) ds (CollectionChanges t kind old new ds)"
proof -
  let ?one = "\<lambda>(key, x). (case map_of new key of
      Some y \<Rightarrow> if descr_version y \<le> descr_version x then {} else {(kind, key)} | None \<Rightarrow> {(kind, key)})"
  let ?two = "\<lambda>(key, y). (case map_of old key of
      Some x \<Rightarrow> if descr_version y \<le> descr_version x then {} else {(kind, key)} | None \<Rightarrow> {(kind, key)})"
  have same: "\<Union> (?one ` set old) \<union> \<Union> (?two ` set new) = Pair kind ` changed old new"
  proof (intro equalityI subsetI)
    fix p assume "p \<in> \<Union> (?one ` set old) \<union> \<Union> (?two ` set new)"
    then consider (one) key x where "(key, x) \<in> set old" "p \<in> ?one (key, x)"
      | (two) key y where "(key, y) \<in> set new" "p \<in> ?two (key, y)" by fast
    then show "p \<in> Pair kind ` changed old new"
    proof cases
      case one
      have "map_of old key = Some x" using assms(1) one(1) by (rule map_of_is_SomeI)
      then show ?thesis using one(2) by (auto simp: changed_def split: option.splits if_splits)
    next
      case two
      have "map_of new key = Some y" using assms(2) two(1) by (rule map_of_is_SomeI)
      then show ?thesis using two(2) by (auto simp: changed_def split: option.splits if_splits)
    qed
  next
    fix p assume "p \<in> Pair kind ` changed old new"
    then obtain key where p: "p = (kind, key)" "key \<in> changed old new" by blast
    show "p \<in> \<Union> (?one ` set old) \<union> \<Union> (?two ` set new)"
    proof (cases "map_of old key")
      case None
      then obtain y where "map_of new key = Some y" using p(2) by (auto simp: changed_def split: option.splits)
      then have "(key, y) \<in> set new" "p \<in> ?two (key, y)" using None p(1) by (auto dest: map_of_SomeD)
      then show ?thesis by blast
    next
      case (Some x)
      then have "(key, x) \<in> set old" by (rule map_of_SomeD)
      moreover have "p \<in> ?one (key, x)"
        using Some p by (auto simp: changed_def split: option.splits)
      ultimately show ?thesis by blast
    qed
  qed
  have "accumulates t (\<Union> (?one ` set old)) ds
      (fold (\<lambda>(key, x) ds. case map_of new key of
          Some y \<Rightarrow> if descr_version y \<le> descr_version x then ds else calculate t kind key ds
        | None \<Rightarrow> calculate t kind key ds) old ds)" for ds
    by (rule accumulates_fold) (auto intro: calculate_spec accumulates_refl split: option.splits)
  moreover have "accumulates t (\<Union> (?two ` set new)) ds
      (fold (\<lambda>(key, y) ds. case map_of old key of
          Some x \<Rightarrow> if descr_version y \<le> descr_version x then ds else calculate t kind key ds
        | None \<Rightarrow> calculate t kind key ds) new ds)" for ds
    by (rule accumulates_fold) (auto intro: calculate_spec accumulates_refl split: option.splits)
  ultimately have "accumulates t (\<Union> (?one ` set old) \<union> \<Union> (?two ` set new)) ds
      (CollectionChanges t kind old new ds)"
    unfolding CollectionChanges_def Let_def by (intro accumulates_trans)
  then show ?thesis using same by simp
qed

text \<open>The flags that a change of some items affects.\<close>

definition affected_flags :: "DependencyTracker \<Rightarrow> (DataKind \<times> string) set \<Rightarrow> string set" where
  "affected_flags t ps = {f. (kFlag, f) \<in> (affects t)\<^sup>* `` ps}"

lemma accumulated_flags:
  assumes "accumulates t ps DependencySet_empty r"
  shows "flag_set r = sorted_list_of_set (affected_flags t ps)" and "finite (affected_flags t ps)"
proof -
  have r: "set_ok r" "elements r = (affects t)\<^sup>* `` ps" using assms by (simp_all add: accumulates_def)
  have "set (flag_set r) = affected_flags t ps"
    unfolding affected_flags_def r(2) [symmetric] by (auto simp: dependencies_def)
  moreover have "sorted_list_of_set (set (flag_set r)) = flag_set r"
    using r(1) by (intro sorted_list_of_set.idem_if_sorted_distinct) (simp_all add: set_ok_def strict_sorted_iff)
  ultimately show "flag_set r = sorted_list_of_set (affected_flags t ps)" "finite (affected_flags t ps)"
    by (metis, metis finite_set)
qed

text \<open>The signal for affected flags: none when there are none.\<close>

definition announcement :: "string set \<Rightarrow> MemoryStore \<Rightarrow> (string list \<times> MemoryStore) list" where
  "announcement fs store = (if fs = {} then [] else [(sorted_list_of_set fs, store)])"

lemma NotifyChanges_spec:
  assumes "accumulates t ps DependencySet_empty r"
  shows "NotifyChanges r c = c\<lparr>signals := signals c @ announcement (affected_flags t ps) (cn_store c)\<rparr>"
  using accumulated_flags [OF assms]
  by (auto simp: NotifyChanges_def DependencySet_Data_def announcement_def)

lemma NotifyChanges_spec_opt:
  assumes "accumulates t ps DependencySet_empty r"
  shows "(case if b then Some r else None of Some changes \<Rightarrow> NotifyChanges changes c | None \<Rightarrow> c) =
    c\<lparr>signals := signals c @ (if b then announcement (affected_flags t ps) (cn_store c) else [])\<rparr>"
  using NotifyChanges_spec [OF assms] by simp

lemma changed_emplaced: "changed old (fold (\<lambda>(k, v). umap_emplace k v) new []) = changed old new"
  by (simp add: changed_def map_of_fold_umap_emplace)

text \<open>The items of two new collections that differ from what a store holds.\<close>

definition store_changes :: "MemoryStore \<Rightarrow> Flag Collection \<Rightarrow> Segment Collection \<Rightarrow> (DataKind \<times> string) set" where
  "store_changes store flags segments =
     Pair kFlag ` changed (AllFlags store) flags \<union> Pair kSegment ` changed (AllSegments store) segments"

lemma both_collections:
  assumes "MemoryStore_ok store" and "distinct (map fst flags)" and "distinct (map fst segments)"
  shows "accumulates t (store_changes store flags segments) DependencySet_empty
    (CollectionChanges t kSegment (AllSegments store) segments
      (CollectionChanges t kFlag (AllFlags store) flags DependencySet_empty))"
  unfolding store_changes_def using assms
  by (intro accumulates_trans [OF CollectionChanges_spec CollectionChanges_spec])
    (simp_all add: MemoryStore_ok_def AllFlags_def AllSegments_def)

lemma grouped_changes:
  "fold (\<lambda>change (new_flags, new_segments).
       case change_object change of
         FlagObject f \<Rightarrow> (umap_emplace (change_key change) f new_flags, new_segments)
       | SegmentObject s \<Rightarrow> (new_flags, umap_emplace (change_key change) s new_segments)) data (fs, ss) =
   (fold (\<lambda>(k, v). umap_emplace k v) (flag_writes data) fs,
    fold (\<lambda>(k, v). umap_emplace k v) (segment_writes data) ss)"
  by (induction data arbitrary: fs ss) (auto simp: flag_writes_def segment_writes_def split: ItemObject.splits)

text \<open>The items a change set names.\<close>

definition named_items :: "ChangeSetData \<Rightarrow> (DataKind \<times> string) set" where
  "named_items data =
     (\<lambda>change. (case change_object change of FlagObject _ \<Rightarrow> kFlag | SegmentObject _ \<Rightarrow> kSegment, change_key change))
       ` set data"

lemma partial_changes:
  "accumulates t (named_items data) ds
     (fold (\<lambda>change. case change_object change of
          FlagObject _ \<Rightarrow> calculate t kFlag (change_key change)
        | SegmentObject _ \<Rightarrow> calculate t kSegment (change_key change)) data ds)"
proof -
  let ?p = "\<lambda>change. {(case change_object change of FlagObject _ \<Rightarrow> kFlag | SegmentObject _ \<Rightarrow> kSegment, change_key change)}"
  have "named_items data = \<Union> (?p ` set data)" by (auto simp: named_items_def)
  then show ?thesis
    by (simp only:) (rule accumulates_fold, auto intro: calculate_spec split: ItemObject.splits)
qed

section \<open>Properties\<close>

text \<open>
  C23. Upserting a flag. A version that is not newer than the one in the store is
  ignored. Otherwise the store gets the flag, and listeners, if there are any, are told
  once about the flag and every flag that depends on it, directly or through others, as
  far as the tracker has recorded it. The signal is emitted before the store is written:
  a handler that reads the store still finds the old version.
\<close>

theorem notifier_upsert:
  "ChangeNotifier_Upsert_flag key flag c =
     (let t = UpdateDependencies_flag key flag (dependency_tracker c) in
      case MemoryStore_GetFlag (cn_store c) key of
        Some old \<Rightarrow>
          if descr_version flag \<le> descr_version old then c
          else c\<lparr>cn_store := Upsert_flag key flag (cn_store c), dependency_tracker := t,
                 signals := signals c @
                   (if listeners c = 0 then []
                    else [(sorted_list_of_set (affected_flags t {(kFlag, key)}), cn_store c)])\<rparr>
      | None \<Rightarrow>
          c\<lparr>cn_store := Upsert_flag key flag (cn_store c), dependency_tracker := t,
            signals := signals c @
              (if listeners c = 0 then []
               else [(sorted_list_of_set (affected_flags t {(kFlag, key)}), cn_store c)])\<rparr>)"
proof -
  have "key \<in> affected_flags t {(kFlag, key)}" for t by (auto simp: affected_flags_def)
  then have ann: "announcement (affected_flags t {(kFlag, key)}) store =
      [(sorted_list_of_set (affected_flags t {(kFlag, key)}), store)]" for t store
    by (auto simp: announcement_def)
  show ?thesis
    unfolding ChangeNotifier_Upsert_flag_def UpsertCommon_def HasListeners_def Let_def
    by (cases "listeners c = 0")
      (simp_all add: NotifyChanges_spec [OF calculate_spec] ann split: option.split)
qed

lemma Clear_empty: "DependencyTracker_Clear t = DependencyTracker_empty"
  by (cases t) (simp add: DependencyTracker_Clear_def DependencyTracker_empty_def DependencyMap_Clear_def
      DependencyMap_empty_def)

text \<open>
  C24. Replacing all data. The store is rebuilt from the new data. So is the tracker: nothing of
  its old content stays, and it holds what recording the dependencies of the new flags and then of
  the new segments in an empty tracker gives. The listeners stay connected.
  They are told, after the store has been written, about exactly the flags affected
  by an item that is new, gone or of a newer version, following the dependencies of the
  old data; if there is no such flag they are told nothing.
\<close>

theorem notifier_init:
  assumes "MemoryStore_ok (cn_store c)"
    and "distinct (map fst (ds_flags data_set))" and "distinct (map fst (ds_segments data_set))"
  shows "cn_store (ChangeNotifier_Init data_set c) = MemoryStore_Init data_set (cn_store c) \<and>
    signals (ChangeNotifier_Init data_set c) = signals c @
      (if listeners c = 0 then []
       else announcement
         (affected_flags (dependency_tracker c)
            (store_changes (cn_store c) (ds_flags data_set) (ds_segments data_set)))
         (MemoryStore_Init data_set (cn_store c))) \<and>
    dependency_tracker (ChangeNotifier_Init data_set c) =
      fold (\<lambda>(key, segment). UpdateDependencies_segment key segment) (ds_segments data_set)
        (fold (\<lambda>(key, flag). UpdateDependencies_flag key flag) (ds_flags data_set) DependencyTracker_empty) \<and>
    listeners (ChangeNotifier_Init data_set c) = listeners c"
  unfolding ChangeNotifier_Init_def HasListeners_def Let_def
  by (simp add: NotifyChanges_spec_opt [OF both_collections [OF assms]] Clear_empty)

text \<open>A store with one flag, a notifier with a listener, and newer data for that flag.\<close>

definition sample_notifier :: ChangeNotifier where
  "sample_notifier = OnFlagChange (ChangeNotifier_new
     (Upsert_flag ''b'' (FlagDescriptor_of (flag_b False)) MemoryStore_empty))"

definition newer_b :: FlagDescriptor where
  "newer_b = \<lparr>descr_version = 2, descr_item = None\<rparr>"

lemma sample_notifier_flags:
  "ms_flags (cn_store sample_notifier) = [(''b'', FlagDescriptor_of (flag_b False))]"
  "ms_segments (cn_store sample_notifier) = []" "listeners sample_notifier = 1"
  "dependency_tracker sample_notifier = DependencyTracker_empty" "signals sample_notifier = []"
  by (simp_all add: sample_notifier_def OnFlagChange_def ChangeNotifier_new_def Upsert_flag_def MemoryStore_empty_def)

lemma affected_unknown [simp]: "affected_flags DependencyTracker_empty ps = {f. (kFlag, f) \<in> ps}"
  by (simp add: affected_flags_def affects_def dependents_def DependencyTracker_empty_def)

theorem notifier_init_witness:
  "signals (ChangeNotifier_Init \<lparr>ds_flags = [(''b'', newer_b)], ds_segments = []\<rparr> sample_notifier) =
     [([''b''], MemoryStore_Init \<lparr>ds_flags = [(''b'', newer_b)], ds_segments = []\<rparr> (cn_store sample_notifier))]"
  (is "signals (ChangeNotifier_Init ?d _) = _")
proof -
  have ok: "MemoryStore_ok (cn_store sample_notifier)" by (simp add: MemoryStore_ok_def sample_notifier_flags)
  have "{f. (kFlag, f) \<in> store_changes (cn_store sample_notifier) (ds_flags ?d) (ds_segments ?d)} = {''b''}"
    by (auto simp: store_changes_def changed_def AllFlags_def AllSegments_def sample_notifier_flags newer_b_def
        FlagDescriptor_of_def flag_b_def sample_flag_def split: option.splits if_splits)
  then show ?thesis
    using notifier_init [OF ok, of ?d] by (simp add: sample_notifier_flags announcement_def)
qed

text \<open>
  Applying a change set. Nothing happens for a change set without changes. A partial
  one announces the flags affected by any item it names, whatever the versions; a full one
  those affected by an item that is new, gone or newer. The store is written first, and
  handlers see the new data.
\<close>

theorem notifier_apply:
  assumes "MemoryStore_ok (cn_store c)"
  shows "cn_store (ChangeNotifier_Apply cs c) = MemoryStore_Apply cs (cn_store c) \<and>
    signals (ChangeNotifier_Apply cs c) = signals c @
      (if listeners c = 0 \<or> cs_type cs = kNoChange then []
       else announcement
         (affected_flags (dependency_tracker c)
            (if cs_type cs = kFull
             then store_changes (cn_store c) (flag_writes (cs_data cs)) (segment_writes (cs_data cs))
             else named_items (cs_data cs)))
         (MemoryStore_Apply cs (cn_store c)))"
proof (cases "cs_type cs")
  case kFull
  let ?fs = "fold (\<lambda>(k, v). umap_emplace k v) (flag_writes (cs_data cs)) []"
  let ?ss = "fold (\<lambda>(k, v). umap_emplace k v) (segment_writes (cs_data cs)) []"
  have same: "store_changes (cn_store c) ?fs ?ss =
      store_changes (cn_store c) (flag_writes (cs_data cs)) (segment_writes (cs_data cs))"
    unfolding store_changes_def by (simp add: changed_emplaced)
  have acc: "accumulates t (store_changes (cn_store c) ?fs ?ss) DependencySet_empty
      (CollectionChanges t kSegment (AllSegments (cn_store c)) ?ss
        (CollectionChanges t kFlag (AllFlags (cn_store c)) ?fs DependencySet_empty))" for t
    using assms by (intro both_collections distinct_fold_umap_emplace) simp_all
  show ?thesis
    using kFull
    by (simp add: ChangeNotifier_Apply_def HasListeners_def grouped_changes NotifyChanges_spec [OF acc] same Let_def)
next
  case kPartial
  then show ?thesis
    by (simp add: ChangeNotifier_Apply_def HasListeners_def NotifyChanges_spec [OF partial_changes] Let_def)
next
  case kNoChange
  then show ?thesis by (simp add: ChangeNotifier_Apply_def MemoryStore_Apply_def)
qed

theorem notifier_apply_witness:
  "signals (ChangeNotifier_Apply
      \<lparr>cs_type = kPartial, cs_data = [\<lparr>change_key = ''b'', change_object = FlagObject newer_b\<rparr>], cs_selector = None\<rparr>
      sample_notifier) =
     [([''b''], Upsert_flag ''b'' newer_b (cn_store sample_notifier))]"
  (is "signals (ChangeNotifier_Apply ?cs _) = _")
proof -
  have ok: "MemoryStore_ok (cn_store sample_notifier)" by (simp add: MemoryStore_ok_def sample_notifier_flags)
  have "{f. (kFlag, f) \<in> named_items (cs_data ?cs)} = {''b''}" by (auto simp: named_items_def)
  moreover have "MemoryStore_Apply ?cs m = Upsert_flag ''b'' newer_b m" for m
    by (simp add: MemoryStore_Apply_def apply_change_Upsert)
  ultimately show ?thesis
    using notifier_apply [OF ok, of ?cs] by (simp add: sample_notifier_flags announcement_def)
qed

end
