(* ===== verification/FDv2_System.thy ===== *)
theory FDv2_System
  imports Source_Manager Change_Notifier "HOL-Library.Sublist"
begin

text \<open>
  The orchestration of the FDv2 data system,
  \<^verbatim>\<open>libs/server-sdk/src/data_systems/fdv2/fdv2_data_system.cpp\<close>. The handlers run one at a time
  on the executor, in the order they were posted. A call of \<^verbatim>\<open>Next\<close> of a synchronizer with
  its race against the conditions is a wait for that synchronizer; it ends once, with a
  result, with a condition, or, as the interface of synchronizers documents, with a
  shutdown when the synchronizer is closed or destroyed. The initializers and
  synchronizers are the environment: they deliver any results at any time. A synchronizer
  is known by the number of synchronizers built before it.
\<close>

section \<open>State\<close>

datatype task =
    RunInitializers
  | InitializerResult FDv2SourceResult
  | SynchronizerResult FDv2SourceResult
  | ConditionFired ConditionType
  | RetryTimerFired

record FDv2DataSystem =
  initializer_factories :: nat
  has_fallback_factory :: bool
  has_recovery_factory :: bool
  status_manager :: StatusManager
  change_notifier :: ChangeNotifier
  closed :: bool
  selector :: Selector
  initializer_index :: nat
  source_manager :: SourceManager
  initializer_pending :: bool
  active_synchronizer :: "nat option"
  active_conditions :: "Conditions option"
  built :: nat
  waits :: "nat list"
  retry_timer :: bool
  posted :: "task list"

definition FDv2DataSystem_new :: "int \<Rightarrow> nat \<Rightarrow> bool list \<Rightarrow> bool \<Rightarrow> bool \<Rightarrow> FDv2DataSystem" where
  "FDv2DataSystem_new now initializers factories fallback recovery =
     \<lparr>initializer_factories = initializers, has_fallback_factory = fallback, has_recovery_factory = recovery,
      status_manager = StatusManager_new now, change_notifier = ChangeNotifier_new MemoryStore_empty,
      closed = False, selector = None, initializer_index = 0, source_manager = SourceManager_new factories,
      initializer_pending = False, active_synchronizer = None, active_conditions = None, built = 0, waits = [],
      retry_timer = False, posted = []\<rparr>"

abbreviation store :: "FDv2DataSystem \<Rightarrow> MemoryStore" where
  "store s \<equiv> cn_store (change_notifier s)"

definition post :: "task \<Rightarrow> FDv2DataSystem \<Rightarrow> FDv2DataSystem" where
  "post t s = s\<lparr>posted := posted s @ [t]\<rparr>"

definition shutdown_result :: FDv2SourceResult where
  "shutdown_result = \<lparr>src_value = SrcShutdown, fdv1_fallback = None\<rparr>"

text \<open>Closing a synchronizer ends its waits with a shutdown; the continuations are posted.\<close>

definition close_synchronizer :: "FDv2DataSystem \<Rightarrow> FDv2DataSystem" where
  "close_synchronizer s =
     (case active_synchronizer s of
        None \<Rightarrow> s
      | Some i \<Rightarrow> s\<lparr>waits := filter (\<lambda>w. w \<noteq> i) (waits s),
          posted := posted s @ map (\<lambda>_. SynchronizerResult shutdown_result) (filter (\<lambda>w. w = i) (waits s))\<rparr>)"

definition reset_active :: "FDv2DataSystem \<Rightarrow> FDv2DataSystem" where
  "reset_active s = (close_synchronizer s)\<lparr>active_synchronizer := None, active_conditions := None\<rparr>"

section \<open>Handlers\<close>

definition ApplyChangeSet :: "int \<Rightarrow> ChangeSetData ChangeSet \<Rightarrow> FDv2DataSystem \<Rightarrow> FDv2DataSystem" where
  "ApplyChangeSet now change_set s =
     (let s = (if cs_selector change_set \<noteq> None then s\<lparr>selector := cs_selector change_set\<rparr> else s);
          s = s\<lparr>change_notifier := ChangeNotifier_Apply change_set (change_notifier s)\<rparr>
      in s\<lparr>status_manager := SetState now dsValid (status_manager s)\<rparr>)"

definition BuildActiveConditions :: "FDv2DataSystem \<Rightarrow> Conditions" where
  "BuildActiveConditions s =
     (if AvailableSynchronizerCount (source_manager s) = 1 then Conditions_new []
      else Conditions_new
        ((if has_fallback_factory s then [FallbackCondition] else []) @
         (if \<not> IsPrimeSynchronizer (source_manager s) \<and> has_recovery_factory s then [RecoveryCondition] else [])))"

definition RunSynchronizerNext :: "FDv2DataSystem \<Rightarrow> FDv2DataSystem" where
  "RunSynchronizerNext s =
     (if closed s then s
      else case active_synchronizer s of
        None \<Rightarrow> s
      | Some i \<Rightarrow>
          (case active_conditions s of
             None \<Rightarrow> s
           | Some c \<Rightarrow>
               (case aggregate_result c of
                  Some t \<Rightarrow> post (ConditionFired t) s
                | None \<Rightarrow> s\<lparr>waits := waits s @ [i]\<rparr>)))"

definition StartSynchronizers :: "int \<Rightarrow> FDv2DataSystem \<Rightarrow> FDv2DataSystem" where
  "StartSynchronizers now s =
     (if closed s then s
      else
        (let (nxt, sm) = NextSynchronizer (source_manager s);
             s = (close_synchronizer s)\<lparr>source_manager := sm\<rparr>
         in case nxt of
              Some _ \<Rightarrow>
                (let s = s\<lparr>active_synchronizer := Some (built s), built := Suc (built s)\<rparr>;
                     s = s\<lparr>active_conditions := Some (BuildActiveConditions s)\<rparr>
                 in RunSynchronizerNext s)
            | None \<Rightarrow>
                (let s = s\<lparr>active_synchronizer := None\<rparr>;
                     any_synchronizers_configured = SynchronizerCount sm > 0
                 in if any_synchronizers_configured \<or> \<not> MemoryStore_Initialized (store s)
                    then s\<lparr>status_manager := SetState_kind now dsOff ekUnknown
                      (if any_synchronizers_configured
                       then ''all data source acquisition methods have been exhausted''
                       else ''all initializers exhausted and no synchronizers configured'') (status_manager s)\<rparr>
                    else s)))"

definition RunNextInitializer :: "int \<Rightarrow> FDv2DataSystem \<Rightarrow> FDv2DataSystem" where
  "RunNextInitializer now s =
     (if closed s then s
      else if initializer_index s \<ge> initializer_factories s then StartSynchronizers now s
      else s\<lparr>initializer_index := Suc (initializer_index s), initializer_pending := True\<rparr>)"

definition Initialize :: "int \<Rightarrow> FDv2DataSystem \<Rightarrow> FDv2DataSystem" where
  "Initialize now s =
     (if initializer_factories s = 0 \<and> SynchronizerCount (source_manager s) = 0
      then s\<lparr>status_manager := SetState now dsValid (status_manager s)\<rparr>
      else post RunInitializers s)"

definition ScheduleFDv2Retry :: "int \<Rightarrow> FDv2DataSystem \<Rightarrow> FDv2DataSystem" where
  "ScheduleFDv2Retry ttl s = (if ttl = 0 then s else s\<lparr>retry_timer := True\<rparr>)"

definition no_fallback_message :: string where
  "no_fallback_message = ''FDv1 fallback directive received; no FDv1 fallback configured''"

text \<open>The end of \<open>OnInitializerResult\<close>, after the result was looked at.\<close>

definition after_initializer :: "int \<Rightarrow> FDv2SourceResult \<Rightarrow> bool \<Rightarrow> bool \<Rightarrow> FDv2DataSystem \<Rightarrow> FDv2DataSystem" where
  "after_initializer now result got_basis got_shutdown s =
     (if closed s \<or> got_shutdown then s
      else
        (case fdv1_fallback result of
           None \<Rightarrow> if got_basis then StartSynchronizers now s else RunNextInitializer now s
         | Some ttl \<Rightarrow>
             (let s = s\<lparr>source_manager := SwitchToFDv1Fallback (source_manager s)\<rparr>;
                  disconnected = (AvailableSynchronizerCount (source_manager s) = 0);
                  s = ScheduleFDv2Retry ttl s
              in if disconnected
                 then s\<lparr>status_manager := SetState_kind now dsInterrupted ekUnknown no_fallback_message (status_manager s)\<rparr>
                 else StartSynchronizers now s)))"

definition interrupted :: "int \<Rightarrow> ErrorInfo \<Rightarrow> FDv2DataSystem \<Rightarrow> FDv2DataSystem" where
  "interrupted now error s =
     s\<lparr>status_manager := SetState_kind now dsInterrupted (ei_kind error) (ei_message error) (status_manager s)\<rparr>"

definition OnInitializerResult :: "int \<Rightarrow> FDv2SourceResult \<Rightarrow> FDv2DataSystem \<Rightarrow> FDv2DataSystem" where
  "OnInitializerResult now result s =
     (case src_value result of
        SrcChangeSet cs \<Rightarrow> after_initializer now result (cs_selector cs \<noteq> None) False (ApplyChangeSet now cs s)
      | SrcShutdown \<Rightarrow> after_initializer now result False True s
      | SrcInterrupted error \<Rightarrow> after_initializer now result False False (interrupted now error s)
      | SrcTerminalError error \<Rightarrow> after_initializer now result False False (interrupted now error s)
      | SrcGoodbye _ \<Rightarrow> after_initializer now result False False s)"

definition OnConditionFired :: "int \<Rightarrow> ConditionType \<Rightarrow> FDv2DataSystem \<Rightarrow> FDv2DataSystem" where
  "OnConditionFired now t s =
     (if t = ctCancelled then s
      else if closed s then s
      else
        (let s = reset_active s;
             s = (if t = ctRecovery then s\<lparr>source_manager := ResetSourceIndex (source_manager s)\<rparr> else s)
         in StartSynchronizers now s))"

text \<open>The end of \<open>OnSynchronizerResult\<close>, after the result was looked at.\<close>

definition after_synchronizer :: "int \<Rightarrow> FDv2SourceResult \<Rightarrow> bool \<Rightarrow> bool \<Rightarrow> FDv2DataSystem \<Rightarrow> FDv2DataSystem" where
  "after_synchronizer now result got_shutdown advance s =
     (if closed s \<or> got_shutdown then reset_active s
      else if fdv1_fallback result \<noteq> None \<and> \<not> IsCurrentSynchronizerFDv1Fallback (source_manager s) then
        (let s = reset_active (s\<lparr>source_manager := SwitchToFDv1Fallback (source_manager s)\<rparr>);
             disconnected = (AvailableSynchronizerCount (source_manager s) = 0);
             s = ScheduleFDv2Retry (the (fdv1_fallback result)) s
         in if disconnected
            then s\<lparr>status_manager := SetState_kind now dsInterrupted ekUnknown no_fallback_message (status_manager s)\<rparr>
            else StartSynchronizers now s)
      else if advance then
        StartSynchronizers now
          (reset_active (s\<lparr>source_manager := BlockCurrentSynchronizer (source_manager s)\<rparr>))
      else RunSynchronizerNext s)"

definition OnSynchronizerResult :: "int \<Rightarrow> FDv2SourceResult \<Rightarrow> FDv2DataSystem \<Rightarrow> FDv2DataSystem" where
  "OnSynchronizerResult now result s =
     (if closed s then s
      else
        (let s = s\<lparr>active_conditions := map_option (Conditions_Inform result) (active_conditions s)\<rparr>
         in case src_value result of
              SrcChangeSet cs \<Rightarrow> after_synchronizer now result False False (ApplyChangeSet now cs s)
            | SrcShutdown \<Rightarrow> after_synchronizer now result True False s
            | SrcInterrupted error \<Rightarrow> after_synchronizer now result False False (interrupted now error s)
            | SrcTerminalError error \<Rightarrow> after_synchronizer now result False True (interrupted now error s)
            | SrcGoodbye _ \<Rightarrow> after_synchronizer now result False False s))"

definition OnFDv1RetryTimer :: "int \<Rightarrow> FDv2DataSystem \<Rightarrow> FDv2DataSystem" where
  "OnFDv1RetryTimer now s =
     (if closed s then s
      else StartSynchronizers now
        (reset_active (s\<lparr>source_manager := SwitchBackToFDv2 (source_manager s)\<rparr>)))"

definition FDv2DataSystem_Close :: "FDv2DataSystem \<Rightarrow> FDv2DataSystem" where
  "FDv2DataSystem_Close s =
     (let s = s\<lparr>closed := True, retry_timer := False\<rparr>;
          s = (if initializer_pending s
               then post (InitializerResult shutdown_result) (s\<lparr>initializer_pending := False\<rparr>) else s);
          s = close_synchronizer s
      in s\<lparr>active_conditions := map_option Conditions_Close (active_conditions s)\<rparr>)"

section \<open>Steps\<close>

fun run_task :: "int \<Rightarrow> task \<Rightarrow> FDv2DataSystem \<Rightarrow> FDv2DataSystem" where
  "run_task now RunInitializers s = RunNextInitializer now s"
| "run_task now (InitializerResult r) s = OnInitializerResult now r s"
| "run_task now (SynchronizerResult r) s = OnSynchronizerResult now r s"
| "run_task now (ConditionFired t) s = OnConditionFired now t s"
| "run_task now RetryTimerFired s = OnFDv1RetryTimer now s"

text \<open>
  What can happen: the executor runs the task posted first, a source delivers a result, the
  delay of a condition ends, the retry delay ends, or the system is closed.
\<close>

datatype fd_op =
    ExecutorRuns int
  | InitializerDelivers FDv2SourceResult
  | SynchronizerDelivers nat FDv2SourceResult
  | ConditionTimer nat
  | RetryTimer
  | CloseSystem

fun fd_step :: "fd_op \<Rightarrow> FDv2DataSystem \<Rightarrow> FDv2DataSystem" where
  "fd_step (ExecutorRuns now) s =
     (case posted s of [] \<Rightarrow> s | t # ts \<Rightarrow> run_task now t (s\<lparr>posted := ts\<rparr>))"
| "fd_step (InitializerDelivers r) s =
     (if initializer_pending s then post (InitializerResult r) (s\<lparr>initializer_pending := False\<rparr>) else s)"
| "fd_step (SynchronizerDelivers k r) s =
     (if k < length (waits s)
      then post (SynchronizerResult r) (s\<lparr>waits := take k (waits s) @ drop (Suc k) (waits s)\<rparr>) else s)"
| "fd_step (ConditionTimer k) s =
     (case active_conditions s of
        None \<Rightarrow> s
      | Some c \<Rightarrow>
          (let (fired, c') = timer_fires k c;
               s = s\<lparr>active_conditions := Some c'\<rparr>
           in case fired of
                None \<Rightarrow> s
              | Some t \<Rightarrow> s\<lparr>waits := filter (\<lambda>w. Some w \<noteq> active_synchronizer s) (waits s),
                  posted := posted s @ map (\<lambda>_. ConditionFired t)
                    (filter (\<lambda>w. Some w = active_synchronizer s) (waits s))\<rparr>))"
| "fd_step RetryTimer s = (if retry_timer s then post RetryTimerFired (s\<lparr>retry_timer := False\<rparr>) else s)"
| "fd_step CloseSystem s = FDv2DataSystem_Close s"

section \<open>Change sets in flight\<close>

text \<open>
  A task carries at most one change set. What matters of a state to the data is its store,
  its selector and the change sets that are posted.
\<close>

fun result_changes :: "FDv2SourceResult \<Rightarrow> ChangeSetData ChangeSet list" where
  "result_changes r = (case src_value r of SrcChangeSet cs \<Rightarrow> [cs] | _ \<Rightarrow> [])"

fun carried :: "task \<Rightarrow> ChangeSetData ChangeSet list" where
  "carried (InitializerResult r) = result_changes r"
| "carried (SynchronizerResult r) = result_changes r"
| "carried _ = []"

fun delivered :: "fd_op \<Rightarrow> ChangeSetData ChangeSet list" where
  "delivered (InitializerDelivers r) = result_changes r"
| "delivered (SynchronizerDelivers _ r) = result_changes r"
| "delivered _ = []"

definition view :: "FDv2DataSystem \<Rightarrow> MemoryStore \<times> Selector \<times> ChangeSetData ChangeSet list" where
  "view s = (store s, selector s, concat (map carried (posted s)))"

definition next_selector :: "ChangeSetData ChangeSet \<Rightarrow> Selector \<Rightarrow> Selector" where
  "next_selector cs sel = (if cs_selector cs \<noteq> None then cs_selector cs else sel)"

lemma view_updates [simp]:
  "view (s\<lparr>status_manager := x1\<rparr>) = view s" "view (s\<lparr>source_manager := x2\<rparr>) = view s"
  "view (s\<lparr>active_synchronizer := x3\<rparr>) = view s" "view (s\<lparr>active_conditions := x4\<rparr>) = view s"
  "view (s\<lparr>built := x5\<rparr>) = view s" "view (s\<lparr>waits := x6\<rparr>) = view s" "view (s\<lparr>retry_timer := x7\<rparr>) = view s"
  "view (s\<lparr>initializer_index := x8\<rparr>) = view s" "view (s\<lparr>initializer_pending := x9\<rparr>) = view s"
  "view (s\<lparr>closed := x10\<rparr>) = view s"
  by (simp_all add: view_def)

lemma view_post: "view (post t s) = (store s, selector s, concat (map carried (posted s)) @ carried t)"
  by (simp add: view_def post_def)

lemma concat_shutdowns: "concat (map (carried \<circ> (\<lambda>_. SynchronizerResult shutdown_result)) ws) = []"
  by (simp add: shutdown_result_def)

lemma view_close [simp]: "view (close_synchronizer s) = view s"
  by (simp add: close_synchronizer_def view_def concat_shutdowns split: option.splits)

lemma view_reset [simp]: "view (reset_active s) = view s"
  by (simp add: reset_active_def)

lemma view_RunSynchronizerNext [simp]: "view (RunSynchronizerNext s) = view s"
  by (simp add: RunSynchronizerNext_def view_post split: option.splits) (simp add: view_def)

lemma view_StartSynchronizers [simp]: "view (StartSynchronizers now s) = view s"
  by (simp add: StartSynchronizers_def Let_def split: option.splits prod.splits)

lemma view_RunNextInitializer [simp]: "view (RunNextInitializer now s) = view s"
  by (simp add: RunNextInitializer_def)

lemma view_ScheduleFDv2Retry [simp]: "view (ScheduleFDv2Retry ttl s) = view s"
  by (simp add: ScheduleFDv2Retry_def)

lemma view_OnConditionFired [simp]: "view (OnConditionFired now t s) = view s"
  by (simp add: OnConditionFired_def Let_def)

lemma view_OnFDv1RetryTimer [simp]: "view (OnFDv1RetryTimer now s) = view s"
  by (simp add: OnFDv1RetryTimer_def)

lemma store_ChangeNotifier_Apply: "cn_store (ChangeNotifier_Apply cs c) = MemoryStore_Apply cs (cn_store c)"
proof (cases "cs_type cs = kNoChange")
  case True
  then show ?thesis by (simp add: ChangeNotifier_Apply_def MemoryStore_Apply_def)
next
  case False
  then show ?thesis by (simp add: ChangeNotifier_Apply_def NotifyChanges_def Let_def)
qed

lemma view_ApplyChangeSet:
  "view (ApplyChangeSet now cs s) =
     (MemoryStore_Apply cs (store s), next_selector cs (selector s), concat (map carried (posted s)))"
  by (simp add: ApplyChangeSet_def Let_def view_def store_ChangeNotifier_Apply next_selector_def)

lemma closed_ApplyChangeSet [simp]: "closed (ApplyChangeSet now cs s) = closed s"
  by (simp add: ApplyChangeSet_def Let_def)

lemma view_after [simp]:
  "view (after_initializer now r got_basis got_shutdown s) = view s"
  "view (after_synchronizer now r got_shutdown advance s) = view s"
  "view (interrupted now error s) = view s"
  by (simp_all add: after_initializer_def after_synchronizer_def interrupted_def Let_def split: option.splits)

lemma view_OnInitializerResult:
  "view (OnInitializerResult now r s) =
     (case src_value r of SrcChangeSet cs \<Rightarrow> view (ApplyChangeSet now cs s) | _ \<Rightarrow> view s)"
  by (cases "src_value r") (simp_all add: OnInitializerResult_def)

lemma view_OnSynchronizerResult:
  "view (OnSynchronizerResult now r s) =
     (case src_value r of SrcChangeSet cs \<Rightarrow> if closed s then view s else view (ApplyChangeSet now cs s) | _ \<Rightarrow> view s)"
  by (cases "src_value r") (simp_all add: OnSynchronizerResult_def Let_def view_ApplyChangeSet)

text \<open>A task applies the change set it carries, or drops it.\<close>

lemma view_run_task:
  "view (run_task now t s) = view s \<or>
   (\<exists>cs. carried t = [cs] \<and> view (run_task now t s) =
     (MemoryStore_Apply cs (store s), next_selector cs (selector s), concat (map carried (posted s))))"
  by (cases t) (auto simp: view_OnInitializerResult view_OnSynchronizerResult view_ApplyChangeSet split: SourceValue.splits)

definition holds :: "ChangeSetData ChangeSet list \<Rightarrow> FDv2DataSystem \<Rightarrow> bool" where
  "holds css s \<longleftrightarrow> store s = fold MemoryStore_Apply css MemoryStore_empty \<and> selector s = fold next_selector css None"

lemma holds_view: "view s' = view s \<Longrightarrow> holds css s' = holds css s"
  by (simp add: view_def holds_def)

lemma step_in_flight:
  assumes "holds css s" and "subseq (css @ concat (map carried (posted s))) dels"
  shows "\<exists>css'. holds css' (fd_step op s) \<and>
    subseq (css' @ concat (map carried (posted (fd_step op s)))) (dels @ delivered op)"
proof -
  have same: ?thesis if "view (fd_step op s) = view s"
  proof (intro exI [of _ css] conjI)
    show "holds css (fd_step op s)" using holds_view [OF that] assms(1) by simp
    show "subseq (css @ concat (map carried (posted (fd_step op s)))) (dels @ delivered op)"
      using that list_emb_prefix [OF assms(2)] by (simp add: view_def)
  qed
  have deliver: "subseq (css @ concat (map carried (posted s)) @ result_changes r) (dels @ result_changes r)" for r
    using list_emb_append_mono [OF assms(2) subseq_order.order_refl, of "result_changes r"] by simp
  show ?thesis
  proof (cases op)
    case (ExecutorRuns now)
    show ?thesis
    proof (cases "posted s")
      case Nil
      then show ?thesis using ExecutorRuns by (intro same) simp
    next
      case (Cons t ts)
      let ?s = "s\<lparr>posted := ts\<rparr>"
      have step: "fd_step op s = run_task now t ?s" "delivered op = []" using ExecutorRuns Cons by simp_all
      from view_run_task [of now t ?s] show ?thesis
      proof (elim disjE exE conjE)
        assume v: "view (run_task now t ?s) = view ?s"
        show ?thesis
        proof (intro exI [of _ css] conjI)
          show "holds css (fd_step op s)" using v assms(1) by (simp add: step holds_def view_def)
          have "subseq (css @ concat (map carried ts)) (css @ carried t @ concat (map carried ts))"
            by (intro list_emb_append_mono subseq_order.order_refl list_emb_append2)
          moreover have "subseq (css @ carried t @ concat (map carried ts)) dels" using assms(2) Cons by simp
          ultimately have "subseq (css @ concat (map carried ts)) dels" by (rule subseq_order.order_trans)
          then show "subseq (css @ concat (map carried (posted (fd_step op s)))) (dels @ delivered op)"
            using v by (simp add: step view_def)
        qed
      next
        fix cs
        assume c: "carried t = [cs]" and v: "view (run_task now t ?s) =
          (MemoryStore_Apply cs (store ?s), next_selector cs (selector ?s), concat (map carried (posted ?s)))"
        show ?thesis
        proof (intro exI [of _ "css @ [cs]"] conjI)
          show "holds (css @ [cs]) (fd_step op s)" using v assms(1) by (simp add: step holds_def view_def)
          show "subseq ((css @ [cs]) @ concat (map carried (posted (fd_step op s)))) (dels @ delivered op)"
            using v c assms(2) Cons by (simp add: step view_def)
        qed
      qed
    qed
  next
    case (InitializerDelivers r)
    show ?thesis
    proof (intro exI [of _ css] conjI)
      show "holds css (fd_step op s)" using assms(1) InitializerDelivers by (simp add: holds_def post_def)
      show "subseq (css @ concat (map carried (posted (fd_step op s)))) (dels @ delivered op)"
        using deliver [of r] list_emb_prefix [OF assms(2)] InitializerDelivers by (simp add: post_def)
    qed
  next
    case (SynchronizerDelivers k r)
    show ?thesis
    proof (intro exI [of _ css] conjI)
      show "holds css (fd_step op s)" using assms(1) SynchronizerDelivers by (simp add: holds_def post_def)
      show "subseq (css @ concat (map carried (posted (fd_step op s)))) (dels @ delivered op)"
        using deliver [of r] list_emb_prefix [OF assms(2)] SynchronizerDelivers by (simp add: post_def)
    qed
  next
    case (ConditionTimer k)
    have "concat (map (carried \<circ> (\<lambda>_. ConditionFired t)) ws) = []" for t and ws :: "nat list" by simp
    then show ?thesis
      using ConditionTimer
      by (intro same) (simp add: Let_def view_def split: option.splits prod.splits)
  next
    case RetryTimer
    then show ?thesis by (intro same) (simp add: post_def view_def)
  next
    case CloseSystem
    have "view (post (InitializerResult shutdown_result) s) = view s" for s
      by (simp add: view_post shutdown_result_def) (simp add: view_def)
    then show ?thesis using CloseSystem by (intro same) (simp add: FDv2DataSystem_Close_def Let_def)
  qed
qed

lemma run_in_flight:
  assumes "holds css s" and "subseq (css @ concat (map carried (posted s))) dels"
  shows "\<exists>css'. holds css' (fold fd_step ops s) \<and>
    subseq (css' @ concat (map carried (posted (fold fd_step ops s)))) (dels @ concat (map delivered ops))"
  using assms
proof (induction ops arbitrary: s css dels)
  case Nil
  then show ?case by auto
next
  case (Cons op ops)
  obtain css' where c: "holds css' (fd_step op s)"
    "subseq (css' @ concat (map carried (posted (fd_step op s)))) (dels @ delivered op)"
    using step_in_flight [OF Cons.prems] by blast
  from Cons.IH [OF c] show ?case by simp
qed

section \<open>One step at a time\<close>

text \<open>The waits and tasks that will continue the orchestration.\<close>

definition pending :: "FDv2DataSystem \<Rightarrow> nat" where
  "pending s = length (waits s) + length (posted s) + (if initializer_pending s then 1 else 0)"

definition proper :: "Conditions \<Rightarrow> bool" where
  "proper c \<longleftrightarrow> ctCancelled \<notin> set (map tc_type (conditions c))"

definition conditions_ok :: "FDv2DataSystem \<Rightarrow> bool" where
  "conditions_ok s \<longleftrightarrow> ConditionFired ctCancelled \<notin> set (posted s) \<and>
     (\<forall>c. active_conditions s = Some c \<longrightarrow>
       proper c \<and> (closed s \<or> aggregate_result c \<noteq> Some ctCancelled))"

fun initial :: "task \<Rightarrow> bool" where
  "initial RunInitializers = True"
| "initial (InitializerResult _) = True"
| "initial _ = False"

definition orderly :: "FDv2DataSystem \<Rightarrow> bool" where
  "orderly s \<longleftrightarrow> pending s \<le> 1 \<and> conditions_ok s \<and>
     (\<forall>i. active_synchronizer s = Some i \<longrightarrow> active_conditions s \<noteq> None \<and> (closed s \<or> pending s = 1)) \<and>
     (\<forall>w\<in>set (waits s). active_synchronizer s = Some w) \<and>
     (initializer_pending s \<or> (\<exists>t\<in>set (posted s). initial t) \<longrightarrow> active_synchronizer s = None)"

text \<open>Between the steps: nothing is pending, and an active synchronizer has its conditions.\<close>

definition idle :: "FDv2DataSystem \<Rightarrow> bool" where
  "idle s \<longleftrightarrow> pending s = 0 \<and> conditions_ok s \<and> (\<forall>i. active_synchronizer s = Some i \<longrightarrow> active_conditions s \<noteq> None)"

lemma idle_fields: "idle s \<Longrightarrow> waits s = [] \<and> posted s = [] \<and> \<not> initializer_pending s"
  by (simp add: idle_def pending_def split: if_splits)

lemma idle_updates [simp]:
  "idle (s\<lparr>status_manager := x1\<rparr>) = idle s" "idle (s\<lparr>source_manager := x2\<rparr>) = idle s"
  "idle (s\<lparr>retry_timer := x3\<rparr>) = idle s" "idle (s\<lparr>change_notifier := x4\<rparr>) = idle s"
  "idle (s\<lparr>selector := x5\<rparr>) = idle s"
  by (simp_all add: idle_def pending_def conditions_ok_def)

lemma idle_close: "idle s \<Longrightarrow> close_synchronizer s = s"
  using idle_fields [of s] by (simp add: close_synchronizer_def split: option.splits)

lemma idle_reset: "idle s \<Longrightarrow> idle (reset_active s)"
  by (simp add: reset_active_def idle_close) (simp add: idle_def pending_def conditions_ok_def)

lemma idle_ApplyChangeSet: "idle s \<Longrightarrow> idle (ApplyChangeSet now cs s)"
  by (simp add: ApplyChangeSet_def Let_def)

lemma tc_type_Inform [simp]: "tc_type (Condition_Inform r c) = tc_type c"
  by (simp add: Condition_Inform_def CancelTimer_def ArmTimer_def split: SourceValue.splits)

lemma proper_Inform [simp]: "proper (Conditions_Inform r c) = proper c"
  by (simp add: proper_def Conditions_Inform_def comp_def image_image)

lemma idle_Inform:
  "idle s \<Longrightarrow> idle (s\<lparr>active_conditions := map_option (Conditions_Inform r) (active_conditions s)\<rparr>)"
  by (auto simp: idle_def pending_def conditions_ok_def) (auto simp: Conditions_Inform_def)

lemma orderly_idle: "idle s \<Longrightarrow> closed s \<or> active_synchronizer s = None \<Longrightarrow> orderly s"
  using idle_fields [of s] by (auto simp: orderly_def idle_def)

lemma orderly_RunSynchronizerNext: "idle s \<Longrightarrow> orderly (RunSynchronizerNext s)"
proof (cases "closed s \<or> active_synchronizer s = None")
  case True
  assume "idle s"
  then show ?thesis using True orderly_idle by (auto simp: RunSynchronizerNext_def)
next
  case False
  assume i: "idle s"
  then show ?thesis
    using False idle_fields [OF i]
    by (auto simp: RunSynchronizerNext_def orderly_def pending_def conditions_ok_def idle_def post_def split: option.splits)
qed

lemma conditions_ok_Build: "proper (BuildActiveConditions s)"
  "aggregate_result (BuildActiveConditions s) = None"
  by (auto simp: proper_def BuildActiveConditions_def Conditions_new_def FallbackCondition_def RecoveryCondition_def
      TimedCondition_new_def ArmTimer_def)

lemma orderly_StartSynchronizers:
  assumes "idle s"
  shows "orderly (StartSynchronizers now s)"
proof (cases "closed s")
  case True
  then show ?thesis using orderly_idle [OF assms] by (simp add: StartSynchronizers_def)
next
  case False
  obtain nxt sm where n: "NextSynchronizer (source_manager s) = (nxt, sm)" by force
  show ?thesis
  proof (cases nxt)
    case None
    have "idle (s\<lparr>source_manager := sm, active_synchronizer := None\<rparr>)"
      using assms by (simp add: idle_def pending_def conditions_ok_def)
    then have "orderly (s\<lparr>source_manager := sm, active_synchronizer := None\<rparr>)"
      and "orderly (s\<lparr>source_manager := sm, active_synchronizer := None, status_manager := x\<rparr>)" for x
      using orderly_idle [of "s\<lparr>source_manager := sm, active_synchronizer := None\<rparr>"]
        orderly_idle [of "s\<lparr>source_manager := sm, active_synchronizer := None, status_manager := x\<rparr>"] by simp_all
    then show ?thesis
      using None n False by (simp add: StartSynchronizers_def idle_close [OF assms] Let_def)
  next
    case (Some i)
    let ?s = "s\<lparr>source_manager := sm, active_synchronizer := Some (built s), built := Suc (built s)\<rparr>"
    have "idle (?s\<lparr>active_conditions := Some (BuildActiveConditions ?s)\<rparr>)"
      using assms conditions_ok_Build [of ?s] by (simp add: idle_def pending_def conditions_ok_def)
    from orderly_RunSynchronizerNext [OF this] show ?thesis
      using Some n False by (simp add: StartSynchronizers_def idle_close [OF assms] Let_def)
  qed
qed

lemma active_simps [simp]:
  "active_synchronizer (reset_active s) = None" "closed (reset_active s) = closed s"
  "active_synchronizer (ApplyChangeSet now cs s) = active_synchronizer s"
  by (simp_all add: reset_active_def close_synchronizer_def ApplyChangeSet_def Let_def split: option.splits)

lemma ScheduleFDv2Retry_simps [simp]:
  "idle (ScheduleFDv2Retry ttl s) = idle s" "active_synchronizer (ScheduleFDv2Retry ttl s) = active_synchronizer s"
  by (simp_all add: ScheduleFDv2Retry_def)

lemma orderly_RunNextInitializer:
  assumes "idle s" and "active_synchronizer s = None"
  shows "orderly (RunNextInitializer now s)"
proof (cases "closed s \<or> initializer_factories s \<le> initializer_index s")
  case True
  then show ?thesis
    using orderly_StartSynchronizers [OF assms(1)] orderly_idle [OF assms(1)] by (auto simp: RunNextInitializer_def)
next
  case False
  then show ?thesis
    using idle_fields [OF assms(1)] assms
    by (simp add: RunNextInitializer_def orderly_def pending_def conditions_ok_def idle_def)
qed

lemma orderly_after_initializer:
  assumes "idle s" and "active_synchronizer s = None"
  shows "orderly (after_initializer now r got_basis got_shutdown s)"
  using assms orderly_idle [OF assms(1)] orderly_StartSynchronizers [OF assms(1)] orderly_RunNextInitializer [OF assms]
  by (auto simp: after_initializer_def Let_def intro!: orderly_idle orderly_StartSynchronizers split: option.splits)

lemma interrupted_simps [simp]:
  "idle (interrupted now error s) = idle s" "active_synchronizer (interrupted now error s) = active_synchronizer s"
  by (simp_all add: interrupted_def)

lemma orderly_OnInitializerResult:
  assumes "idle s" and "active_synchronizer s = None"
  shows "orderly (OnInitializerResult now r s)"
  using assms
  by (cases "src_value r") (simp_all add: OnInitializerResult_def orderly_after_initializer idle_ApplyChangeSet)

lemma orderly_after_synchronizer:
  assumes "idle s"
  shows "orderly (after_synchronizer now r got_shutdown advance s)"
proof -
  note reset = idle_reset [OF assms] and run = orderly_RunSynchronizerNext [OF assms]
  have "idle (reset_active (s\<lparr>source_manager := x\<rparr>))" for x
    using assms by (intro idle_reset) simp
  then show ?thesis
    using reset run
    by (auto simp: after_synchronizer_def Let_def intro!: orderly_idle orderly_StartSynchronizers)
qed

lemma orderly_OnSynchronizerResult:
  assumes "idle s"
  shows "orderly (OnSynchronizerResult now r s)"
proof (cases "closed s")
  case True
  then show ?thesis using orderly_idle [OF assms] by (simp add: OnSynchronizerResult_def)
next
  case False
  then show ?thesis
    using idle_Inform [OF assms]
    by (cases "src_value r")
      (simp_all add: OnSynchronizerResult_def Let_def orderly_after_synchronizer idle_ApplyChangeSet)
qed

lemma orderly_run_task:
  assumes "idle s" and "t \<noteq> ConditionFired ctCancelled" and "initial t \<Longrightarrow> active_synchronizer s = None"
  shows "orderly (run_task now t s)"
proof (cases t)
  case (ConditionFired c)
  have "idle (reset_active s)" by (rule idle_reset [OF assms(1)])
  then show ?thesis
    using ConditionFired assms(2) orderly_idle [OF assms(1)]
    by (auto simp: OnConditionFired_def Let_def intro!: orderly_StartSynchronizers)
next
  case RetryTimerFired
  have "idle (reset_active (s\<lparr>source_manager := x\<rparr>))" for x
    using assms(1) by (intro idle_reset) simp
  then show ?thesis
    using RetryTimerFired orderly_idle [OF assms(1)]
    by (auto simp: OnFDv1RetryTimer_def intro!: orderly_StartSynchronizers)
qed (use assms orderly_RunNextInitializer orderly_OnInitializerResult orderly_OnSynchronizerResult in simp_all)

lemma timer_fires_types:
  assumes "timer_fires k c = (fired, c')"
  shows "map tc_type (conditions c') = map tc_type (conditions c)"
    and "fired = None \<and> aggregate_result c' = aggregate_result c \<or>
      (\<exists>x\<in>set (conditions c). fired = Some (tc_type x) \<and> aggregate_result c' = Some (tc_type x))"
  using assms
  by (auto simp: timer_fires_def resolve_condition_def Let_def map_update list_update_same_conv
      split: if_splits option.splits)

lemma Close_types: "map tc_type (conditions (Conditions_Close c)) = map tc_type (conditions c)"
  by (simp add: Conditions_Close_def TimedCondition_Close_def CancelTimer_def resolve_condition_def split: option.splits)

lemma orderly_waits:
  assumes "orderly s"
  shows "filter (\<lambda>w. Some w = active_synchronizer s) (waits s) = waits s"
    and "filter (\<lambda>w. Some w \<noteq> active_synchronizer s) (waits s) = []"
  using assms by (auto simp: orderly_def filter_id_conv filter_empty_conv)

lemma orderly_step:
  assumes "orderly s" and "op \<noteq> RetryTimer"
  shows "orderly (fd_step op s)"
proof (cases op)
  case (ExecutorRuns now)
  show ?thesis
  proof (cases "posted s")
    case Nil
    then show ?thesis using assms(1) ExecutorRuns by simp
  next
    case (Cons t ts)
    have none: "waits s = []" "ts = []" "\<not> initializer_pending s"
      using assms(1) Cons by (auto simp: orderly_def pending_def split: if_splits)
    have "idle (s\<lparr>posted := ts\<rparr>)" "t \<noteq> ConditionFired ctCancelled"
      using assms(1) Cons none by (auto simp: orderly_def idle_def pending_def conditions_ok_def)
    moreover have "active_synchronizer (s\<lparr>posted := ts\<rparr>) = None" if "initial t"
      using assms(1) Cons that by (auto simp: orderly_def)
    ultimately show ?thesis using Cons ExecutorRuns by (simp add: orderly_run_task)
  qed
next
  case (InitializerDelivers r)
  show ?thesis
    using assms(1) InitializerDelivers by (auto simp: orderly_def pending_def conditions_ok_def post_def)
next
  case (SynchronizerDelivers k r)
  show ?thesis
  proof (cases "k < length (waits s)")
    case True
    then obtain w where w: "waits s = [w]" "k = 0" "posted s = []" "\<not> initializer_pending s"
      using assms(1) by (cases "waits s") (auto simp: orderly_def pending_def split: if_splits)
    then show ?thesis
      using assms(1) SynchronizerDelivers by (auto simp: orderly_def pending_def conditions_ok_def post_def)
  next
    case False
    then show ?thesis using assms(1) SynchronizerDelivers by simp
  qed
next
  case (ConditionTimer k)
  show ?thesis
  proof (cases "active_conditions s")
    case None
    then show ?thesis using assms(1) ConditionTimer by simp
  next
    case (Some c)
    obtain fired c' where f: "timer_fires k c = (fired, c')" by force
    have c: "proper c" "closed s \<or> aggregate_result c \<noteq> Some ctCancelled"
      using assms(1) Some by (auto simp: orderly_def conditions_ok_def)
    have types: "tc_type x \<noteq> ctCancelled" if "x \<in> set (conditions c)" for x
      using c(1) that unfolding proper_def set_map by (metis imageI)
    have c': "proper c'" using c(1) unfolding proper_def timer_fires_types(1) [OF f] .
    have a': "closed s \<or> aggregate_result c' \<noteq> Some ctCancelled" "fired \<noteq> Some ctCancelled"
      using timer_fires_types(2) [OF f] c(2) types types [THEN not_sym] by auto
    show ?thesis
    proof (cases fired)
      case None
      then show ?thesis
        using assms(1) ConditionTimer f c' a' Some
        by (auto simp: orderly_def pending_def conditions_ok_def)
    next
      case (Some t)
      then show ?thesis
        using assms(1) ConditionTimer f c' a' \<open>active_conditions s = Some c\<close> orderly_waits [OF assms(1)]
        by (auto simp: orderly_def pending_def conditions_ok_def)
    qed
  qed
next
  case CloseSystem
  have "proper (Conditions_Close c) = proper c" for c
    unfolding proper_def Close_types ..
  then show ?thesis
    using assms(1) CloseSystem orderly_waits [OF assms(1)]
    by (cases "active_synchronizer s")
      (auto simp: FDv2DataSystem_Close_def close_synchronizer_def orderly_def pending_def conditions_ok_def post_def Let_def)
qed (use assms(2) in simp)

section \<open>Properties\<close>

text \<open>
  C10. The store holds what was delivered, in order: whatever happens, the store is the
  empty store with some of the delivered change sets applied, each at most once and in the
  order they were delivered, and the selector is the last one among them that was not
  empty.
\<close>

theorem fdv2_store_in_order:
  "\<exists>css. subseq css (concat (map delivered ops)) \<and>
    store (fold fd_step ops (Initialize now (FDv2DataSystem_new t n factories fallback recovery))) =
      fold MemoryStore_Apply css MemoryStore_empty \<and>
    selector (fold fd_step ops (Initialize now (FDv2DataSystem_new t n factories fallback recovery))) =
      fold (\<lambda>cs sel. if cs_selector cs \<noteq> None then cs_selector cs else sel) css None"
proof -
  let ?s = "Initialize now (FDv2DataSystem_new t n factories fallback recovery)"
  have "holds [] ?s" "subseq ([] @ concat (map carried (posted ?s))) []"
    by (simp_all add: holds_def Initialize_def FDv2DataSystem_new_def ChangeNotifier_new_def post_def)
  from run_in_flight [OF this, of ops] obtain css where css: "holds css (fold fd_step ops ?s)"
    "subseq (css @ concat (map carried (posted (fold fd_step ops ?s)))) (concat (map delivered ops))" by auto
  have "subseq css (css @ concat (map carried (posted (fold fd_step ops ?s))))" by (rule list_emb_prefix) simp
  then have "subseq css (concat (map delivered ops))" using css(2) by (rule subseq_order.order_trans)
  then show ?thesis using css(1) by (auto simp: holds_def next_selector_def [abs_def])
qed

text \<open>
  The orchestration goes on: as long as the retry timer does not fire, at most one step
  of it is pending at any time, whatever the sources and conditions do; and while a
  synchronizer is active and the system is not closed, exactly one is, so that the next
  result or condition is taken up.
\<close>

theorem orchestration_goes_on:
  assumes "s = fold fd_step ops (Initialize now (FDv2DataSystem_new t n factories fallback recovery))"
    and "RetryTimer \<notin> set ops"
  shows "pending s \<le> 1 \<and> (\<forall>i. active_synchronizer s = Some i \<and> \<not> closed s \<longrightarrow> pending s = 1)"
proof -
  have "orderly (fold fd_step ops s0)" if "orderly s0" for s0
    using that assms(2) by (induction ops arbitrary: s0) (auto simp: orderly_step)
  moreover have "orderly (Initialize now (FDv2DataSystem_new t n factories fallback recovery))"
    by (simp add: Initialize_def FDv2DataSystem_new_def post_def orderly_def pending_def conditions_ok_def)
  ultimately have "orderly s" using assms(1) by simp
  then show ?thesis by (auto simp: orderly_def)
qed

definition sample_full_change :: FDv2SourceResult where
  "sample_full_change =
     \<lparr>src_value = SrcChangeSet \<lparr>cs_type = kFull, cs_data = [], cs_selector = Some \<lparr>sel_version = 1, sel_state = ''s''\<rparr>\<rparr>,
      fdv1_fallback = None\<rparr>"

theorem orchestration_goes_on_witness:
  "\<exists>s. s = fold fd_step [ExecutorRuns 1, SynchronizerDelivers 0 sample_full_change, ExecutorRuns 2]
       (Initialize 0 (FDv2DataSystem_new 0 0 [False] False False)) \<and>
     active_synchronizer s = Some 0 \<and> pending s = 1"
proof -
  let ?ops = "[ExecutorRuns 1, SynchronizerDelivers 0 sample_full_change, ExecutorRuns 2]"
  let ?s = "fold fd_step ?ops (Initialize 0 (FDv2DataSystem_new 0 0 [False] False False))"
  have "active_synchronizer ?s = Some 0 \<and> \<not> closed ?s"
    by (simp add: Initialize_def FDv2DataSystem_new_def SynchronizerCount_def SourceManager_new_def post_def
        RunNextInitializer_def StartSynchronizers_def NextSynchronizer_def close_synchronizer_def Let_def
        BuildActiveConditions_def AvailableSynchronizerCount_def Conditions_new_def RunSynchronizerNext_def
        sample_full_change_def OnSynchronizerResult_def after_synchronizer_def Conditions_Inform_def ApplyChangeSet_def)
  then show ?thesis
    using orchestration_goes_on [of ?s ?ops 0 0 0 "[False]" False False] by simp
qed

text \<open>
  With nothing pending and nothing active, nothing happens any more.
\<close>

definition dead :: "FDv2DataSystem \<Rightarrow> bool" where
  "dead s \<longleftrightarrow> pending s = 0 \<and> active_synchronizer s = None \<and> active_conditions s = None \<and> \<not> retry_timer s"

lemma dead_step: "dead s \<Longrightarrow> dead (fd_step op s) \<and> store (fd_step op s) = store s"
  by (cases op) (auto simp: dead_def pending_def FDv2DataSystem_Close_def close_synchronizer_def Let_def split: if_splits)

lemma dead_run: "dead s \<Longrightarrow> dead (fold fd_step ops s) \<and> store (fold fd_step ops s) = store s"
  by (induction ops arbitrary: s) (auto simp: dead_step)

text \<open>
  C31. The return from the fallback protocol stops the data system. When the retry timer
  fires while a synchronizer is active, the handler closes it and starts another one; the
  wait for the closed one ends with a shutdown, and the handler of that result takes it
  for the shutdown of the new synchronizer and drops it. After three tasks nothing is
  active or pending although the system was not closed, and the store never changes again.
\<close>

theorem retry_timer_stops_updates:
  assumes "\<not> closed s" and "active_synchronizer s = Some i" and "waits s = [i]" and "posted s = []"
    and "\<not> initializer_pending s" and "retry_timer s"
    and "\<exists>e\<in>set (synchronizers (source_manager s)). \<not> is_fdv1_fallback e"
    and "s' = fold fd_step [RetryTimer, ExecutorRuns t1, ExecutorRuns t2, ExecutorRuns t3] s"
  shows "\<not> closed s' \<and> built s' = Suc (built s) \<and> active_synchronizer s' = None \<and> pending s' = 0 \<and>
    store (fold fd_step ops s') = store s"
proof -
  let ?sm = "SwitchBackToFDv2 (source_manager s)"
  obtain nxt sm where n: "NextSynchronizer ?sm = (nxt, sm)" by force
  obtain e where e: "e \<in> set (synchronizers (source_manager s))" "\<not> is_fdv1_fallback e" using assms(7) by blast
  have "0 < AvailableSynchronizerCount ?sm"
    using e by (auto simp: Available_count SwitchBackToFDv2_def filter_empty_conv)
  moreover have "synchronizers ?sm \<noteq> []" using e by (auto simp: SwitchBackToFDv2_def)
  ultimately obtain j where j: "nxt = Some j"
    using find_cyclic_None [of ?sm] next_loop_find [of ?sm "length (synchronizers ?sm)"] n
    by (auto simp: NextSynchronizer_def cyclic_order_def)
  let ?r = "SynchronizerResult shutdown_result"
  let ?s2 = "fold fd_step [RetryTimer, ExecutorRuns t1] s"
  have s2: "posted ?s2 = [?r]" "waits ?s2 = [built s]" "active_synchronizer ?s2 = Some (built s)"
    "\<not> initializer_pending ?s2" "\<not> retry_timer ?s2" "\<not> closed ?s2" "built ?s2 = Suc (built s)" "store ?s2 = store s"
    using assms(1-6) n j
    by (simp_all add: post_def OnFDv1RetryTimer_def reset_active_def close_synchronizer_def StartSynchronizers_def
        RunSynchronizerNext_def conditions_ok_Build(2) Let_def)
  have s3: "posted (fd_step (ExecutorRuns t2) u) = [?r]" "waits (fd_step (ExecutorRuns t2) u) = []"
    "active_synchronizer (fd_step (ExecutorRuns t2) u) = None" "active_conditions (fd_step (ExecutorRuns t2) u) = None"
    "initializer_pending (fd_step (ExecutorRuns t2) u) = initializer_pending u"
    "retry_timer (fd_step (ExecutorRuns t2) u) = retry_timer u" "closed (fd_step (ExecutorRuns t2) u) = closed u"
    "built (fd_step (ExecutorRuns t2) u) = built u" "store (fd_step (ExecutorRuns t2) u) = store u"
    if "posted u = [?r]" "waits u = [k]" "active_synchronizer u = Some k" "\<not> closed u" for u k
    using that
    by (simp_all add: OnSynchronizerResult_def after_synchronizer_def reset_active_def close_synchronizer_def
        shutdown_result_def Let_def)
  have s4: "dead (fd_step (ExecutorRuns t3) u)" "closed (fd_step (ExecutorRuns t3) u) = closed u"
    "built (fd_step (ExecutorRuns t3) u) = built u" "store (fd_step (ExecutorRuns t3) u) = store u"
    if "posted u = [?r]" "waits u = []" "active_synchronizer u = None" "active_conditions u = None"
      "\<not> initializer_pending u" "\<not> retry_timer u" "\<not> closed u" for u
    using that
    by (simp_all add: OnSynchronizerResult_def after_synchronizer_def reset_active_def close_synchronizer_def
        shutdown_result_def dead_def pending_def Let_def)
  note s3' = s3 [OF s2(1,2,3,6)]
  note s4' = s4 [OF s3'(1-4)]
  have s': "s' = fd_step (ExecutorRuns t3) (fd_step (ExecutorRuns t2) ?s2)" using assms(8) by simp
  have "dead s'" "closed s' = closed s" "built s' = Suc (built s)" "store s' = store s"
    unfolding s' using s4' s3' s2 assms(1) by simp_all
  then show ?thesis using dead_run [of s' ops] assms(1) by (simp add: dead_def)
qed

definition sample_directive :: FDv2SourceResult where
  "sample_directive = \<lparr>src_value = SrcGoodbye None, fdv1_fallback = Some 1\<rparr>"

theorem retry_timer_stops_updates_witness:
  "\<exists>s'. s' = fold fd_step
       [ExecutorRuns 1, SynchronizerDelivers 0 sample_directive, ExecutorRuns 2,
        RetryTimer, ExecutorRuns 3, ExecutorRuns 4, ExecutorRuns 5]
       (Initialize 0 (FDv2DataSystem_new 0 0 [False, True] False False)) \<and>
     active_synchronizer s' = None \<and> pending s' = 0 \<and> \<not> closed s'"
proof -
  let ?s = "fold fd_step [ExecutorRuns 1, SynchronizerDelivers 0 sample_directive, ExecutorRuns 2]
    (Initialize 0 (FDv2DataSystem_new 0 0 [False, True] False False))"
  have "\<not> closed ?s" "active_synchronizer ?s = Some 1" "waits ?s = [1]" "posted ?s = []" "\<not> initializer_pending ?s"
    "retry_timer ?s" "\<exists>e\<in>set (synchronizers (source_manager ?s)). \<not> is_fdv1_fallback e"
    by (simp_all add: Initialize_def FDv2DataSystem_new_def SynchronizerCount_def SourceManager_new_def post_def
        RunNextInitializer_def StartSynchronizers_def NextSynchronizer_def close_synchronizer_def reset_active_def Let_def
        BuildActiveConditions_def AvailableSynchronizerCount_def Conditions_new_def RunSynchronizerNext_def
        IsPrimeSynchronizer_def sample_directive_def OnSynchronizerResult_def after_synchronizer_def Conditions_Inform_def
        IsCurrentSynchronizerFDv1Fallback_def SwitchToFDv1Fallback_def ScheduleFDv2Retry_def)
  from retry_timer_stops_updates [OF this refl, of 3 4 5 "[]"] show ?thesis by simp
qed

end
