(* ===== verification/Context_Filter.thy ===== *)
theory Context_Filter
  imports Contexts
begin

text \<open>
  The context filter of \<^verbatim>\<open>libs/internal/src/context_filter.cpp\<close>, which turns a context into
  the JSON of an analytics event and leaves private attributes out. The filter walks the
  attributes with an explicit stack whose items refer to the JSON node that a value goes
  into; such a reference is an address, the members and indices on the way from the root
  to the node. A JSON value has the kinds of \<^verbatim>\<open>boost::json::kind\<close>; an object is the
  list of its members in the order of insertion.
\<close>

section \<open>JSON values and references into them\<close>

datatype json =
    JNull
  | JBool bool
  | JInt64 i64
  | JUint64 u64
  | JNumber double
  | JString string
  | JArray "json list"
  | JObject "(string \<times> json) list"

datatype step = Member string | Index nat

fun update_member :: "string \<Rightarrow> (json \<Rightarrow> json) \<Rightarrow> (string \<times> json) list \<Rightarrow> (string \<times> json) list" where
  "update_member k f [] = []"
| "update_member k f ((k', v) # kvs) =
     (if k = k' then (k', f v) # kvs else (k', v) # update_member k f kvs)"

fun node_at :: "step list \<Rightarrow> json \<Rightarrow> json option" where
  "node_at [] j = Some j"
| "node_at (Member k # p) (JObject kvs) = Option.bind (map_of kvs k) (node_at p)"
| "node_at (Index i # p) (JArray js) = (if i < length js then node_at p (js ! i) else None)"
| "node_at _ _ = None"

fun update_at :: "step list \<Rightarrow> (json \<Rightarrow> json) \<Rightarrow> json \<Rightarrow> json" where
  "update_at [] f j = f j"
| "update_at (Member k # p) f (JObject kvs) = JObject (update_member k (update_at p f) kvs)"
| "update_at (Index i # p) f (JArray js) =
     JArray (if i < length js then js[i := update_at p f (js ! i)] else js)"
| "update_at _ _ j = j"

text \<open>\<^verbatim>\<open>emplace\<close> and \<^verbatim>\<open>insert_or_assign\<close> of a JSON object.\<close>

definition object_emplace :: "string \<Rightarrow> json \<Rightarrow> (string \<times> json) list \<Rightarrow> (string \<times> json) list" where
  "object_emplace k j kvs = (case map_of kvs k of Some _ \<Rightarrow> kvs | None \<Rightarrow> kvs @ [(k, j)])"

definition object_assign :: "string \<Rightarrow> json \<Rightarrow> (string \<times> json) list \<Rightarrow> (string \<times> json) list" where
  "object_assign k j kvs =
     (case map_of kvs k of Some _ \<Rightarrow> update_member k (\<lambda>_. j) kvs | None \<Rightarrow> kvs @ [(k, j)])"

section \<open>The filter\<close>

record ContextFilter =
  all_attributes_private :: bool
  global_private_attributes :: RefSet

record StackItem =
  item_value :: Value
  item_path :: "string list"
  item_parent :: "step list"

text \<open>
  The parent of an item is an object or an array; \<^verbatim>\<open>as_array\<close> of anything else would throw.
\<close>

definition put_into :: "string list \<Rightarrow> json \<Rightarrow> json \<Rightarrow> json" where
  "put_into path addition parent =
     (case parent of
        JObject kvs \<Rightarrow> JObject (object_emplace (last path) addition kvs)
      | JArray js \<Rightarrow> JArray (js @ [addition])
      | j \<Rightarrow> j)"

definition Emplace :: "StackItem \<Rightarrow> json \<Rightarrow> json \<Rightarrow> json" where
  "Emplace item addition filtered =
     update_at (item_parent item) (put_into (item_path item) addition) filtered"

definition AppendContainer :: "StackItem \<Rightarrow> json \<Rightarrow> json \<Rightarrow> step list \<times> json" where
  "AppendContainer item value filtered =
     (case node_at (item_parent item) filtered of
        Some (JArray js) \<Rightarrow> item_parent item @ [Index (length js)]
      | _ \<Rightarrow> item_parent item @ [Member (last (item_path item))],
      Emplace item value filtered)"

definition AppendSimpleType :: "StackItem \<Rightarrow> json \<Rightarrow> json" where
  "AppendSimpleType item filtered =
     (case Type (item_value item) of
        kNull \<Rightarrow> Emplace item JNull filtered
      | kBool \<Rightarrow> Emplace item (JBool (AsBool (item_value item))) filtered
      | kNumber \<Rightarrow> Emplace item (JNumber (AsDouble (item_value item))) filtered
      | kString \<Rightarrow> Emplace item (JString (c_str (AsString (item_value item)))) filtered
      | _ \<Rightarrow> filtered)"

definition find_private :: "RefSet \<Rightarrow> string list \<Rightarrow> AttributeReference option" where
  "find_private refs path = List.find (\<lambda>ref. ref_valid ref \<and> ref_eq_path ref path) (map snd refs)"

definition Redact :: "ContextFilter \<Rightarrow> string list \<Rightarrow> string list \<Rightarrow> Attributes \<Rightarrow> bool \<Rightarrow> bool \<times> string list" where
  "Redact filt redactions path attributes redactAll =
     (if redactAll then (True, redactions @ [PathToStringReference path])
      else
        (case find_private (global_private_attributes filt) path of
           Some global \<Rightarrow> (True, redactions @ [redaction_name global])
         | None \<Rightarrow>
             (case find_private (private_attributes attributes) path of
                Some local \<Rightarrow> (True, redactions @ [redaction_name local])
              | None \<Rightarrow> (False, redactions))))"

fun value_size :: "Value \<Rightarrow> nat" where
  "value_size (VArray vs) = Suc (sum_list (map value_size vs))"
| "value_size (VObject kvs) = Suc (sum_list (map (\<lambda>kv. value_size (snd kv)) kvs))"
| "value_size v = 1"

text \<open>
  The loop over the stack, whose top is the head of the list. The members of an object
  are pushed in order, so the last one is on top; the elements of an array are pushed in
  reverse, so the first one is on top.
\<close>

function filter_stack :: "ContextFilter \<Rightarrow> Attributes \<Rightarrow> bool \<Rightarrow> StackItem list \<Rightarrow> json \<Rightarrow> string list \<Rightarrow> json \<times> string list" where
  "filter_stack filt attributes redactAll [] filtered redactions = (filtered, redactions)"
| "filter_stack filt attributes redactAll (item # stack) filtered redactions =
     (let (redacted, redactions) =
        (if item_path item \<noteq> [] then Redact filt redactions (item_path item) attributes redactAll
         else (False, redactions))
      in if redacted then filter_stack filt attributes redactAll stack filtered redactions
         else case item_value item of
           VObject kvs \<Rightarrow>
             (let (nested, filtered) = AppendContainer item (JObject []) filtered in
              filter_stack filt attributes redactAll
                (rev (map (\<lambda>(k, v). \<lparr>item_value = v, item_path = item_path item @ [k], item_parent = nested\<rparr>) kvs)
                 @ stack) filtered redactions)
         | VArray vs \<Rightarrow>
             (let (nested, filtered) = AppendContainer item (JArray []) filtered in
              filter_stack filt attributes redactAll
                (map (\<lambda>v. \<lparr>item_value = v, item_path = [], item_parent = nested\<rparr>) vs @ stack) filtered redactions)
         | _ \<Rightarrow> filter_stack filt attributes redactAll stack (AppendSimpleType item filtered) redactions)"
  by pat_completeness auto

lemma value_size_pos [simp]: "0 < value_size v"
  by (cases v) simp_all

lemma sum_list_items:
  "sum_list (map (\<lambda>i. value_size (item_value i))
     (rev (map (\<lambda>(k, v). \<lparr>item_value = v, item_path = p k, item_parent = a\<rparr>) kvs))) =
   sum_list (map (\<lambda>kv. value_size (snd kv)) kvs)"
  "sum_list (map (\<lambda>i. value_size (item_value i))
     (map (\<lambda>v. \<lparr>item_value = v, item_path = q, item_parent = a\<rparr>) vs)) = sum_list (map value_size vs)"
  by (simp_all add: comp_def case_prod_unfold rev_map [symmetric] sum_list_rev)

termination filter_stack
  by (relation "measure (\<lambda>(filt, attributes, redactAll, stack, filtered, redactions).
      sum_list (map (\<lambda>i. value_size (item_value i)) stack))")
    (auto simp: sum_list_items simp del: map_map)

declare filter_stack.simps(2) [simp del]

definition FilterSingleContext :: "ContextFilter \<Rightarrow> string \<Rightarrow> bool \<Rightarrow> Attributes \<Rightarrow> bool \<Rightarrow> json" where
  "FilterSingleContext filt kind include_kind attributes redactAnonymous =
     (let obj = [(''key'', JString (Key attributes))];
          obj = (if include_kind then object_emplace ''kind'' (JString kind) obj else obj);
          obj = (if Anonymous attributes then object_emplace ''anonymous'' (JBool (Anonymous attributes)) obj else obj);
          redactAll = (all_attributes_private filt \<or> (redactAnonymous \<and> Anonymous attributes));
          (obj, redactions) =
            (if Name attributes \<noteq> [] then
               (case Redact filt [] [''name''] attributes redactAll of
                  (True, redactions) \<Rightarrow> (obj, redactions)
                | (False, redactions) \<Rightarrow> (object_assign ''name'' (JString (Name attributes)) obj, redactions))
             else (obj, []));
          stack = rev (map (\<lambda>(k, v). \<lparr>item_value = v, item_path = [k], item_parent = []\<rparr>)
            (AsObject (custom_attributes attributes)));
          (filtered, redactions) = filter_stack filt attributes redactAll stack (JObject obj) redactions
      in if redactions \<noteq> [] then
           (case filtered of
              JObject obj \<Rightarrow>
                JObject (object_emplace ''_meta''
                  (JObject [(''redactedAttributes'', JArray (map JString redactions))]) obj)
            | j \<Rightarrow> j)
         else filtered)"

text \<open>
  \<^verbatim>\<open>context.Attributes(kind)\<close> of a kind that the context does not have is undefined, which
  is \<open>None\<close> here.
\<close>

fun multi_members :: "ContextFilter \<Rightarrow> Context \<Rightarrow> bool \<Rightarrow> string list \<Rightarrow> (string \<times> json) list \<Rightarrow> (string \<times> json) list option" where
  "multi_members filt context redactAnonymous [] obj = Some obj"
| "multi_members filt context redactAnonymous (kind # kinds) obj =
     (case Context_Attributes context kind of
        None \<Rightarrow> None
      | Some attributes \<Rightarrow>
          multi_members filt context redactAnonymous kinds
            (object_emplace kind (FilterSingleContext filt kind False attributes redactAnonymous) obj))"

definition FilterMultiContext :: "ContextFilter \<Rightarrow> Context \<Rightarrow> bool \<Rightarrow> json option" where
  "FilterMultiContext filt context redactAnonymous =
     map_option JObject
       (multi_members filt context redactAnonymous (ctx_kinds context) [(''kind'', JString ''multi'')])"

definition Filter_context :: "ContextFilter \<Rightarrow> Context \<Rightarrow> bool \<Rightarrow> json option" where
  "Filter_context filt context redactAnonymous =
     (if length (ctx_kinds context) = 1 then
        (let kind = ctx_kinds context ! 0 in
         case Context_Attributes context kind of
           Some attributes \<Rightarrow> Some (FilterSingleContext filt kind True attributes redactAnonymous)
         | None \<Rightarrow> None)
      else FilterMultiContext filt context redactAnonymous)"

definition Filter :: "ContextFilter \<Rightarrow> Context \<Rightarrow> json option" where
  "Filter filt context = Filter_context filt context False"

definition FilterWithAnonymousRedaction :: "ContextFilter \<Rightarrow> Context \<Rightarrow> json option" where
  "FilterWithAnonymousRedaction filt context = Filter_context filt context True"

section \<open>References\<close>

lemma map_of_update_member: "map_of (update_member k f kvs) = (map_of kvs)(k := map_option f (map_of kvs k))"
  by (induction kvs) (auto simp: fun_eq_iff)

lemma update_member_comp: "update_member k f (update_member k g kvs) = update_member k (f \<circ> g) kvs"
  by (induction kvs) auto

lemma update_member_cong: "map_option f (map_of kvs k) = map_option g (map_of kvs k) \<Longrightarrow> update_member k f kvs = update_member k g kvs"
  by (induction kvs) (auto split: if_splits)

lemma node_update: "node_at p j = Some n \<Longrightarrow> node_at p (update_at p f j) = Some (f n)"
  by (induction p j rule: node_at.induct)
    (auto simp: map_of_update_member bind_eq_Some_conv split: if_splits)

lemma update_cong: "node_at p j = Some n \<Longrightarrow> f n = g n \<Longrightarrow> update_at p f j = update_at p g j"
  by (induction p j rule: node_at.induct)
    (auto simp: bind_eq_Some_conv intro!: update_member_cong split: if_splits)

lemma update_update: "update_at p f (update_at p g j) = update_at p (f \<circ> g) j"
  by (induction p j rule: node_at.induct) (auto simp: update_member_comp comp_def intro!: update_member_cong option.map_cong)

lemma update_append: "update_at (p @ q) f j = update_at p (update_at q f) j"
  by (induction p j rule: node_at.induct) (auto intro!: update_member_cong option.map_cong)

lemma update_member_id: "(\<And>x. map_of kvs k = Some x \<Longrightarrow> f x = x) \<Longrightarrow> update_member k f kvs = kvs"
  by (induction kvs) (auto split: if_splits)

lemma update_id: "update_at p (\<lambda>x. x) j = j"
  by (induction p j rule: node_at.induct) (auto simp: list_update_same_conv intro!: update_member_id)

lemma node_append: "node_at (p @ q) j = Option.bind (node_at p j) (node_at q)"
  by (induction p j rule: node_at.induct) (auto intro!: Option.bind_cong)

section \<open>The filter as a recursion\<close>

text \<open>
  The name under which an attribute is redacted, and what a value becomes: its JSON with
  the redacted members left out, and their names in the order in which they are found.
\<close>

definition redaction_of :: "ContextFilter \<Rightarrow> Attributes \<Rightarrow> bool \<Rightarrow> string list \<Rightarrow> string option" where
  "redaction_of filt attributes redactAll path =
     (if redactAll then Some (PathToStringReference path)
      else case find_private (global_private_attributes filt) path of
             Some ref \<Rightarrow> Some (redaction_name ref)
           | None \<Rightarrow> map_option redaction_name (find_private (private_attributes attributes) path))"

fun render :: "(string list \<Rightarrow> string option) \<Rightarrow> string list \<Rightarrow> Value \<Rightarrow> json \<times> string list"
  and render_members :: "(string list \<Rightarrow> string option) \<Rightarrow> string list \<Rightarrow> (string \<times> Value) list \<Rightarrow> (string \<times> json) list \<times> string list"
  and render_elements :: "(string list \<Rightarrow> string option) \<Rightarrow> Value list \<Rightarrow> json list \<times> string list" where
  "render red path VNull = (JNull, [])"
| "render red path (VBool b) = (JBool b, [])"
| "render red path (VNumber x) = (JNumber x, [])"
| "render red path (VString s) = (JString (c_str s), [])"
| "render red path (VArray vs) = (let (js, rs) = render_elements red vs in (JArray js, rs))"
| "render red path (VObject kvs) = (let (ms, rs) = render_members red path kvs in (JObject ms, rs))"
| "render_members red path [] = ([], [])"
| "render_members red path ((k, v) # kvs) =
     (let (ms, rs) = render_members red path kvs in
      case red (path @ [k]) of
        Some r \<Rightarrow> (ms, rs @ [r])
      | None \<Rightarrow> (let (j, rs') = render red (path @ [k]) v in (ms @ [(k, j)], rs @ rs')))"
| "render_elements red [] = ([], [])"
| "render_elements red (v # vs) =
     (let (j, rs) = render red [] v; (js, rs') = render_elements red vs in (j # js, rs @ rs'))"

text \<open>The keys of every object in a value are distinct, as they are in a \<^verbatim>\<open>std::map\<close>.\<close>

fun keys_ok :: "Value \<Rightarrow> bool" where
  "keys_ok (VArray vs) \<longleftrightarrow> (\<forall>v\<in>set vs. keys_ok v)"
| "keys_ok (VObject kvs) \<longleftrightarrow> distinct (map fst kvs) \<and> (\<forall>kv\<in>set kvs. keys_ok (snd kv))"
| "keys_ok v \<longleftrightarrow> True"

lemma Redact_redaction_of:
  "Redact filt rs path attributes redactAll =
     (case redaction_of filt attributes redactAll path of Some r \<Rightarrow> (True, rs @ [r]) | None \<Rightarrow> (False, rs))"
  by (simp add: Redact_def redaction_of_def split: option.splits)

lemma keys_render_members: "fst ` set (fst (render_members red path kvs)) \<subseteq> fst ` set kvs"
proof (induction kvs)
  case (Cons kv kvs)
  obtain k v where kv: "kv = (k, v)" by force
  obtain ms rs where r: "render_members red path kvs = (ms, rs)" by force
  have "fst ` set ms \<subseteq> insert k (fst ` set kvs)" using Cons.IH r by (simp add: subset_insertI2)
  then show ?case
    using r by (cases "red (path @ [k])"; cases "render red (path @ [k]) v") (simp_all add: kv)
qed simp

text \<open>The place an item goes to: an array, or an object that does not have its key.\<close>

definition slot :: "StackItem \<Rightarrow> json \<Rightarrow> bool" where
  "slot item j \<longleftrightarrow>
     (case node_at (item_parent item) j of
        Some (JObject kvs) \<Rightarrow> last (item_path item) \<notin> fst ` set kvs
      | Some (JArray js) \<Rightarrow> True
      | _ \<Rightarrow> False)"

lemma update_member_append:
  "k \<notin> fst ` set kvs \<Longrightarrow> update_member k f (kvs @ [(k, x)]) = kvs @ [(k, f x)]"
  by (induction kvs) auto

lemma object_emplace_new: "k \<notin> fst ` set kvs \<Longrightarrow> object_emplace k x kvs = kvs @ [(k, x)]"
  using map_of_eq_None_iff [of kvs k] by (simp add: object_emplace_def)

lemma container_filled:
  assumes "slot item j" and "AppendContainer item x j = (nested, j')"
  shows "node_at nested j' = Some x" and "update_at nested (\<lambda>_. y) j' = Emplace item y j"
proof -
  let ?p = "item_parent item"
  consider (obj) kvs where "node_at ?p j = Some (JObject kvs)" "last (item_path item) \<notin> fst ` set kvs"
    | (arr) js where "node_at ?p j = Some (JArray js)"
    using assms(1) by (auto simp: slot_def split: option.splits json.splits)
  then have "node_at nested j' = Some x \<and> update_at nested (\<lambda>_. y) j' = Emplace item y j"
  proof cases
    case obj
    have j': "j' = Emplace item x j" and n: "nested = ?p @ [Member (last (item_path item))]"
      using assms(2) obj by (auto simp: AppendContainer_def)
    have "node_at ?p j' = Some (JObject (kvs @ [(last (item_path item), x)]))"
      using node_update [OF obj(1)] obj(2) by (simp add: j' Emplace_def put_into_def object_emplace_new)
    moreover have "map_of kvs (last (item_path item)) = None" using obj(2) by (simp add: map_of_eq_None_iff)
    ultimately have "node_at nested j' = Some x" by (simp add: n node_append map_add_def)
    moreover have "update_at nested (\<lambda>_. y) j' = Emplace item y j"
      unfolding n update_append j' Emplace_def update_update
      by (rule update_cong [OF obj(1)]) (simp add: put_into_def object_emplace_new obj(2) update_member_append)
    ultimately show ?thesis ..
  next
    case arr
    have j': "j' = Emplace item x j" and n: "nested = ?p @ [Index (length js)]"
      using assms(2) arr by (auto simp: AppendContainer_def)
    have "node_at ?p j' = Some (JArray (js @ [x]))"
      using node_update [OF arr] by (simp add: j' Emplace_def put_into_def)
    then have "node_at nested j' = Some x" by (simp add: n node_append)
    moreover have "update_at nested (\<lambda>_. y) j' = Emplace item y j"
      unfolding n update_append j' Emplace_def update_update
      by (rule update_cong [OF arr]) (simp add: put_into_def)
    ultimately show ?thesis ..
  qed
  then show "node_at nested j' = Some x" "update_at nested (\<lambda>_. y) j' = Emplace item y j" by simp_all
qed

lemma filter_stack_redacted:
  assumes "item_path item \<noteq> []" and "redaction_of filt attributes redactAll (item_path item) = Some r"
  shows "filter_stack filt attributes redactAll (item # stack) j rs =
    filter_stack filt attributes redactAll stack j (rs @ [r])"
  using assms by (simp add: filter_stack.simps(2) Redact_redaction_of)

lemma filter_stack_kept:
  assumes "item_path item \<noteq> [] \<Longrightarrow> redaction_of filt attributes redactAll (item_path item) = None"
  shows "filter_stack filt attributes redactAll (item # stack) j rs =
     (case item_value item of
        VObject kvs \<Rightarrow>
          (let (nested, j) = AppendContainer item (JObject []) j in
           filter_stack filt attributes redactAll
             (rev (map (\<lambda>(k, v). \<lparr>item_value = v, item_path = item_path item @ [k], item_parent = nested\<rparr>) kvs)
              @ stack) j rs)
      | VArray vs \<Rightarrow>
          (let (nested, j) = AppendContainer item (JArray []) j in
           filter_stack filt attributes redactAll
             (map (\<lambda>v. \<lparr>item_value = v, item_path = [], item_parent = nested\<rparr>) vs @ stack) j rs)
      | _ \<Rightarrow> filter_stack filt attributes redactAll stack (AppendSimpleType item j) rs)"
  using assms by (simp add: filter_stack.simps(2) [of _ _ _ item] Redact_redaction_of)

text \<open>
  The loop over the stack does what the recursion says: an item on top of the stack puts
  its rendering into its place, and so do the members of an object and the elements of an
  array.
\<close>

definition places :: "ContextFilter \<Rightarrow> Attributes \<Rightarrow> bool \<Rightarrow> Value \<Rightarrow> bool" where
  "places filt attributes redactAll v \<longleftrightarrow>
     (\<forall>item j rs stack.
        slot item j \<longrightarrow> item_value item = v \<longrightarrow>
        (item_path item \<noteq> [] \<longrightarrow> redaction_of filt attributes redactAll (item_path item) = None) \<longrightarrow>
        filter_stack filt attributes redactAll (item # stack) j rs =
        (let (x, rs') = render (redaction_of filt attributes redactAll) (item_path item) v
         in filter_stack filt attributes redactAll stack (Emplace item x j) (rs @ rs')))"

lemma placesD:
  assumes "places filt attributes redactAll v" and "slot \<lparr>item_value = v, item_path = path, item_parent = p\<rparr> j"
    and "path \<noteq> [] \<Longrightarrow> redaction_of filt attributes redactAll path = None"
    and "render (redaction_of filt attributes redactAll) path v = (x, rs')"
  shows "filter_stack filt attributes redactAll (\<lparr>item_value = v, item_path = path, item_parent = p\<rparr> # stack) j rs =
    filter_stack filt attributes redactAll stack (update_at p (put_into path x) j) (rs @ rs')"
  using assms unfolding places_def Emplace_def by fastforce

lemma filter_stack_members:
  assumes "\<forall>kv\<in>set kvs. places filt attributes redactAll (snd kv)" and "distinct (map fst kvs)"
    and "node_at p j = Some (JObject ms)" and "fst ` set kvs \<inter> fst ` set ms = {}"
    and "render_members (redaction_of filt attributes redactAll) path kvs = (ms', rs')"
  shows "filter_stack filt attributes redactAll
      (rev (map (\<lambda>(k, v). \<lparr>item_value = v, item_path = path @ [k], item_parent = p\<rparr>) kvs) @ stack) j rs =
    filter_stack filt attributes redactAll stack (update_at p (\<lambda>_. JObject (ms @ ms')) j) (rs @ rs')"
  using assms(1,2,4,5)
proof (induction kvs arbitrary: stack ms' rs')
  case Nil
  have "update_at p (\<lambda>_. JObject ms) j = update_at p (\<lambda>x. x) j" using assms(3) by (rule update_cong) simp
  then show ?case using Nil by (simp add: update_id)
next
  case (Cons kv kvs)
  obtain k v where kv: "kv = (k, v)" by force
  let ?red = "redaction_of filt attributes redactAll" and ?item = "\<lparr>item_value = v, item_path = path @ [k], item_parent = p\<rparr>"
  obtain ms1 rs1 where rest: "render_members ?red path kvs = (ms1, rs1)" by force
  let ?j = "update_at p (\<lambda>_. JObject (ms @ ms1)) j"
  have first: "filter_stack filt attributes redactAll
      (rev (map (\<lambda>(k, v). \<lparr>item_value = v, item_path = path @ [k], item_parent = p\<rparr>) (kv # kvs)) @ stack) j rs =
    filter_stack filt attributes redactAll (?item # stack) ?j (rs @ rs1)"
    using Cons.IH [OF _ _ _ rest, of "?item # stack"] Cons.prems by (simp add: kv)
  have node: "node_at p ?j = Some (JObject (ms @ ms1))" using assms(3) by (rule node_update)
  show ?case
  proof (cases "?red (path @ [k])")
    case (Some r)
    then show ?thesis
      unfolding first using Cons.prems(4) rest by (simp add: kv filter_stack_redacted)
  next
    case None
    obtain x rs2 where x: "render ?red (path @ [k]) v = (x, rs2)" by force
    have "k \<notin> fst ` set (ms @ ms1)"
      using Cons.prems(2,3) keys_render_members [of ?red path kvs] rest by (auto simp: kv)
    then have put: "put_into (path @ [k]) x (JObject (ms @ ms1)) = JObject (ms @ ms1 @ [(k, x)])"
      and slot: "slot ?item ?j"
      using node by (simp_all add: put_into_def object_emplace_new slot_def)
    have "places filt attributes redactAll v" using Cons.prems(1) by (simp add: kv)
    then have "filter_stack filt attributes redactAll (?item # stack) ?j (rs @ rs1) =
        filter_stack filt attributes redactAll stack (update_at p (put_into (path @ [k]) x) ?j) ((rs @ rs1) @ rs2)"
      using slot None x by (rule placesD)
    moreover have "update_at p (put_into (path @ [k]) x) ?j = update_at p (\<lambda>_. JObject (ms @ ms1 @ [(k, x)])) j"
      using put by (simp add: update_update comp_def)
    ultimately show ?thesis
      unfolding first using Cons.prems(4) rest None x by (simp add: kv)
  qed
qed

lemma filter_stack_elements:
  assumes "\<forall>v\<in>set vs. places filt attributes redactAll v" and "node_at p j = Some (JArray js)"
    and "render_elements (redaction_of filt attributes redactAll) vs = (js', rs')"
  shows "filter_stack filt attributes redactAll
      (map (\<lambda>v. \<lparr>item_value = v, item_path = [], item_parent = p\<rparr>) vs @ stack) j rs =
    filter_stack filt attributes redactAll stack (update_at p (\<lambda>_. JArray (js @ js')) j) (rs @ rs')"
  using assms
proof (induction vs arbitrary: j js js' rs rs')
  case Nil
  have "update_at p (\<lambda>_. JArray js) j = update_at p (\<lambda>x. x) j" using Nil.prems(2) by (rule update_cong) simp
  then show ?case using Nil by (simp add: update_id)
next
  case (Cons v vs)
  let ?red = "redaction_of filt attributes redactAll" and ?item = "\<lparr>item_value = v, item_path = [], item_parent = p\<rparr>"
  obtain x rs1 where x: "render ?red [] v = (x, rs1)" by force
  obtain js2 rs2 where rest: "render_elements ?red vs = (js2, rs2)" by force
  let ?j = "update_at p (put_into [] x) j"
  have "slot ?item j" using Cons.prems(2) by (simp add: slot_def)
  moreover have "places filt attributes redactAll v" using Cons.prems(1) by simp
  ultimately have "filter_stack filt attributes redactAll
      (?item # map (\<lambda>v. \<lparr>item_value = v, item_path = [], item_parent = p\<rparr>) vs @ stack) j rs =
    filter_stack filt attributes redactAll (map (\<lambda>v. \<lparr>item_value = v, item_path = [], item_parent = p\<rparr>) vs @ stack)
      ?j (rs @ rs1)"
    using x by (intro placesD) simp_all
  moreover have node: "node_at p ?j = Some (JArray (js @ [x]))"
    using node_update [OF Cons.prems(2)] by (simp add: put_into_def)
  moreover have "update_at p (\<lambda>_. JArray ((js @ [x]) @ js2)) ?j = update_at p (\<lambda>_. JArray (js @ x # js2)) j"
    by (simp add: update_update comp_def)
  ultimately show ?case
    using Cons.IH [OF _ node rest] Cons.prems x rest by simp
qed

lemma keys_ok_places: "keys_ok v \<Longrightarrow> places filt attributes redactAll v"
proof (induction v)
  case (VArray vs)
  show ?case
    unfolding places_def
  proof (intro allI impI)
    fix item j rs stack
    assume item: "slot item j" "item_value item = VArray vs"
      "item_path item \<noteq> [] \<longrightarrow> redaction_of filt attributes redactAll (item_path item) = None"
    obtain nested j' where c: "AppendContainer item (JArray []) j = (nested, j')" by force
    obtain js rs' where r: "render_elements (redaction_of filt attributes redactAll) vs = (js, rs')" by force
    have "\<forall>v\<in>set vs. places filt attributes redactAll v" using VArray by simp
    from filter_stack_elements [OF this container_filled(1) [OF item(1) c] r]
    show "filter_stack filt attributes redactAll (item # stack) j rs =
        (let (x, rs') = render (redaction_of filt attributes redactAll) (item_path item) (VArray vs)
         in filter_stack filt attributes redactAll stack (Emplace item x j) (rs @ rs'))"
      using item c r container_filled(2) [OF item(1) c] by (simp add: filter_stack_kept)
  qed
next
  case (VObject kvs)
  show ?case
    unfolding places_def
  proof (intro allI impI)
    fix item j rs stack
    assume item: "slot item j" "item_value item = VObject kvs"
      "item_path item \<noteq> [] \<longrightarrow> redaction_of filt attributes redactAll (item_path item) = None"
    obtain nested j' where c: "AppendContainer item (JObject []) j = (nested, j')" by force
    obtain ms rs' where r: "render_members (redaction_of filt attributes redactAll) (item_path item) kvs = (ms, rs')"
      by force
    have "\<forall>kv\<in>set kvs. places filt attributes redactAll (snd kv)" using VObject by fastforce
    from filter_stack_members [OF this _ container_filled(1) [OF item(1) c] _ r]
    show "filter_stack filt attributes redactAll (item # stack) j rs =
        (let (x, rs') = render (redaction_of filt attributes redactAll) (item_path item) (VObject kvs)
         in filter_stack filt attributes redactAll stack (Emplace item x j) (rs @ rs'))"
      using VObject.prems item c r container_filled(2) [OF item(1) c] by (simp add: filter_stack_kept)
  qed
qed (simp_all add: places_def filter_stack_kept AppendSimpleType_def AsBool_def AsDouble_def AsString_def)

section \<open>A whole context\<close>

text \<open>
  Attributes as the builder makes them: the custom attributes have none of the names that
  the builder keeps for itself, and the objects among them have distinct keys.
\<close>

definition reserved_names :: "string set" where
  "reserved_names = {''key'', ''kind'', ''anonymous'', ''name'', ''_meta''}"

definition attributes_ok :: "Attributes \<Rightarrow> bool" where
  "attributes_ok a \<longleftrightarrow> keys_ok (VObject (AsObject (custom_attributes a))) \<and>
     fst ` set (AsObject (custom_attributes a)) \<inter> reserved_names = {}"

definition builder_values_ok :: "AttributesBuilder \<Rightarrow> bool" where
  "builder_values_ok b \<longleftrightarrow> omap_ok (ab_values b) \<and> (\<forall>kv\<in>set (ab_values b). keys_ok (snd kv)) \<and>
     fst ` set (ab_values b) \<inter> reserved_names = {}"

lemma omap_set_values: "kv \<in> set (omap_set k v m) \<Longrightarrow> kv = (k, v) \<or> kv \<in> set m"
  by (induction k v m rule: omap_set.induct) (auto split: if_splits)

lemma builder_values_ok_SetValue [inv_intros]:
  assumes "builder_values_ok b" and "keys_ok v"
  shows "builder_values_ok (SetValue name v private b)"
proof (cases "name \<in> reserved_names")
  case True
  then show ?thesis
    using assms(1)
    by (auto simp: builder_values_ok_def SetValue_def reserved_names_def ProtectedAttributes_def TypedAttributes_def
        SetAnonymous_def SetName_def Let_def)
next
  case False
  then have "ab_values (SetValue name v private b) = omap_set name v (ab_values b)"
    by (simp add: SetValue_def reserved_names_def ProtectedAttributes_def TypedAttributes_def Let_def)
  then show ?thesis
    using assms False omap_set_keys [of name v "ab_values b"]
    by (auto simp: builder_values_ok_def dest: omap_set_values)
qed

lemma attributes_ok_Build: "builder_values_ok b \<Longrightarrow> attributes_ok (BuildAttributes b)"
  by (auto simp: builder_values_ok_def attributes_ok_def BuildAttributes_def MakeAttributes_def AsObject_def omap_ok_distinct)

definition redacts_all :: "ContextFilter \<Rightarrow> Attributes \<Rightarrow> bool \<Rightarrow> bool" where
  "redacts_all filt a redactAnonymous \<longleftrightarrow> all_attributes_private filt \<or> (redactAnonymous \<and> Anonymous a)"

definition filter_reference :: "ContextFilter \<Rightarrow> string \<Rightarrow> bool \<Rightarrow> Attributes \<Rightarrow> bool \<Rightarrow> json" where
  "filter_reference filt kind include_kind a redactAnonymous =
     (let red = redaction_of filt a (redacts_all filt a redactAnonymous);
          base = [(''key'', JString (Key a))] @
                 (if include_kind then [(''kind'', JString kind)] else []) @
                 (if Anonymous a then [(''anonymous'', JBool True)] else []);
          (name, rs) = (if Name a = [] then ([], [])
                        else case red [''name''] of Some r \<Rightarrow> ([], [r]) | None \<Rightarrow> ([(''name'', JString (Name a))], []));
          (members, rs') = render_members red [] (AsObject (custom_attributes a));
          meta = (if rs @ rs' = [] then []
                  else [(''_meta'', JObject [(''redactedAttributes'', JArray (map JString (rs @ rs')))])])
      in JObject (base @ name @ members @ meta))"

lemma filter_custom:
  assumes "attributes_ok a" and "fst ` set obj \<subseteq> reserved_names"
    and "render_members (redaction_of filt a redactAll) [] (AsObject (custom_attributes a)) = (ms, rs')"
  shows "filter_stack filt a redactAll
      (rev (map (\<lambda>(k, v). \<lparr>item_value = v, item_path = [k], item_parent = []\<rparr>) (AsObject (custom_attributes a))))
      (JObject obj) rs = (JObject (obj @ ms), rs @ rs')"
proof -
  let ?kvs = "AsObject (custom_attributes a)"
  have "\<forall>kv\<in>set ?kvs. places filt a redactAll (snd kv)" and "distinct (map fst ?kvs)"
    using assms(1) keys_ok_places by (simp_all add: attributes_ok_def)
  moreover have "fst ` set ?kvs \<inter> reserved_names = {}" using assms(1) by (simp add: attributes_ok_def)
  then have "fst ` set ?kvs \<inter> fst ` set obj = {}" using assms(2) by blast
  ultimately have ok: "\<forall>kv\<in>set ?kvs. places filt a redactAll (snd kv)" "distinct (map fst ?kvs)"
    "fst ` set ?kvs \<inter> fst ` set obj = {}" by simp_all
  show ?thesis
    using filter_stack_members [OF ok(1,2) _ ok(3) assms(3), where p = "[]" and stack = "[]" and j = "JObject obj"]
    by simp
qed

lemma no_meta:
  assumes "fst ` set obj \<subseteq> reserved_names - {''_meta''}" and "attributes_ok a"
    and "render_members red [] (AsObject (custom_attributes a)) = (ms, rs')"
  shows "''_meta'' \<notin> fst ` set (obj @ ms)"
proof -
  let ?kvs = "AsObject (custom_attributes a)"
  have "''_meta'' \<in> reserved_names" by (simp add: reserved_names_def)
  moreover have "fst ` set ?kvs \<inter> reserved_names = {}" using assms(2) by (simp add: attributes_ok_def)
  moreover have "fst ` set ms \<subseteq> fst ` set ?kvs" using keys_render_members [of red "[]" ?kvs] assms(3) by simp
  ultimately have "''_meta'' \<notin> fst ` set ms" by blast
  moreover have "''_meta'' \<notin> fst ` set obj" using assms(1) by blast
  ultimately show ?thesis by (simp add: image_Un)
qed

lemma FilterSingleContext_reference:
  assumes "attributes_ok a"
  shows "FilterSingleContext filt kind include_kind a redactAnonymous =
    filter_reference filt kind include_kind a redactAnonymous"
proof -
  let ?red = "redaction_of filt a (redacts_all filt a redactAnonymous)"
  define base where "base = [(''key'', JString (Key a))] @
      (if include_kind then [(''kind'', JString kind)] else []) @
      (if Anonymous a then [(''anonymous'', JBool True)] else [])"
  define name where "name = (if Name a = [] then ([], [])
      else case ?red [''name''] of Some r \<Rightarrow> ([], [r]) | None \<Rightarrow> ([(''name'', JString (Name a))], []))"
  obtain ms rs' where r: "render_members ?red [] (AsObject (custom_attributes a)) = (ms, rs')" by force
  have names: "fst ` set (base @ fst name) \<subseteq> reserved_names - {''_meta''}"
    by (auto simp: base_def name_def reserved_names_def split: option.splits if_splits)
  have run: "filter_stack filt a (redacts_all filt a redactAnonymous)
      (rev (map (\<lambda>(k, v). \<lparr>item_value = v, item_path = [k], item_parent = []\<rparr>) (AsObject (custom_attributes a))))
      (JObject (base @ fst name)) (snd name) = (JObject ((base @ fst name) @ ms), snd name @ rs')"
    using names by (intro filter_custom [OF assms _ r]) auto
  have obj: "(if Anonymous a then object_emplace ''anonymous'' (JBool (Anonymous a))
      (if include_kind then object_emplace ''kind'' (JString kind) [(''key'', JString (Key a))]
       else [(''key'', JString (Key a))])
      else if include_kind then object_emplace ''kind'' (JString kind) [(''key'', JString (Key a))]
       else [(''key'', JString (Key a))]) = base"
    by (simp add: base_def object_emplace_def)
  have nam: "(if Name a \<noteq> [] then
      (case Redact filt [] [''name''] a (redacts_all filt a redactAnonymous) of
         (True, redactions) \<Rightarrow> (base, redactions)
       | (False, redactions) \<Rightarrow> (object_assign ''name'' (JString (Name a)) base, redactions))
      else (base, [])) = (base @ fst name, snd name)"
    by (auto simp: name_def Redact_redaction_of object_assign_def base_def split: option.splits)
  have "''_meta'' \<notin> fst ` set ((base @ fst name) @ ms)" using names assms r by (rule no_meta)
  then have meta: "object_emplace ''_meta'' x ((base @ fst name) @ ms) = ((base @ fst name) @ ms) @ [(''_meta'', x)]" for x
    by (rule object_emplace_new)
  show ?thesis
    unfolding FilterSingleContext_def filter_reference_def Let_def redacts_all_def [symmetric] obj nam
      base_def [symmetric] name_def [symmetric] prod.case run r
    using meta by (simp add: case_prod_unfold)
qed

fun json_lookup :: "string list \<Rightarrow> json \<Rightarrow> json option" where
  "json_lookup [] j = Some j"
| "json_lookup (k # ks) (JObject kvs) = Option.bind (map_of kvs k) (json_lookup ks)"
| "json_lookup (k # ks) _ = None"

lemma render_member:
  "(k, j) \<in> set (fst (render_members red path kvs)) \<Longrightarrow>
   \<exists>v. (k, v) \<in> set kvs \<and> red (path @ [k]) = None \<and> j = fst (render red (path @ [k]) v)"
proof (induction kvs)
  case (Cons kv kvs)
  obtain k' v where kv: "kv = (k', v)" by force
  obtain ms rs where r: "render_members red path kvs = (ms, rs)" by force
  obtain x rs' where x: "render red (path @ [k']) v = (x, rs')" by force
  show ?case
  proof (cases "(k, j) \<in> set ms")
    case True
    then show ?thesis using Cons.IH r by (auto simp: kv)
  next
    case False
    then show ?thesis using Cons.prems r x by (auto simp: kv split: option.splits)
  qed
qed simp

lemma hidden_member:
  "ks \<noteq> [] \<Longrightarrow> red (path @ ks) \<noteq> None \<Longrightarrow> json_lookup ks (JObject (fst (render_members red path kvs))) = None"
proof (induction ks arbitrary: path kvs)
  case (Cons k ks)
  show ?case
  proof (cases "map_of (fst (render_members red path kvs)) k")
    case (Some j)
    then obtain v where v: "red (path @ [k]) = None" "j = fst (render red (path @ [k]) v)"
      using render_member by (blast dest: map_of_SomeD)
    then have "ks \<noteq> []" using Cons.prems(2) by auto
    then obtain k' ks' where ks: "ks = k' # ks'" by (cases ks) auto
    have "json_lookup ks j = None"
    proof (cases v)
      case (VObject kvs')
      then have "j = JObject (fst (render_members red (path @ [k]) kvs'))"
        by (simp add: v(2) case_prod_unfold Let_def)
      then show ?thesis using Cons.IH [OF \<open>ks \<noteq> []\<close>, of "path @ [k]"] Cons.prems(2) by simp
    qed (simp_all add: v(2) ks case_prod_unfold Let_def)
    then show ?thesis using Some by simp
  qed simp
qed simp

text \<open>
  A path that must not be sent: a valid private reference names it, or everything is
  redacted.
\<close>

definition hidden :: "ContextFilter \<Rightarrow> Attributes \<Rightarrow> bool \<Rightarrow> string list \<Rightarrow> bool" where
  "hidden filt a redactAnonymous path \<longleftrightarrow>
     redacts_all filt a redactAnonymous \<or>
     (\<exists>ref \<in> snd ` set (global_private_attributes filt) \<union> snd ` set (private_attributes a).
        ref_valid ref \<and> components ref = path)"

lemma find_private_iff:
  "find_private refs path \<noteq> None \<longleftrightarrow> (\<exists>ref \<in> snd ` set refs. ref_valid ref \<and> components ref = path)"
  by (auto simp: find_private_def find_None_iff ref_eq_path_def)

lemma hidden_redaction:
  "hidden filt a redactAnonymous path \<longleftrightarrow> redaction_of filt a (redacts_all filt a redactAnonymous) path \<noteq> None"
  using find_private_iff [of "global_private_attributes filt" path] find_private_iff [of "private_attributes a" path]
  by (auto simp: hidden_def redaction_of_def split: option.splits)

lemma single_hidden:
  assumes "attributes_ok a" and "hidden filt a redactAnonymous path" and "path \<noteq> []"
    and "hd path \<notin> {''key'', ''kind'', ''anonymous'', ''_meta''}"
  shows "json_lookup path (FilterSingleContext filt kind include_kind a redactAnonymous) = None"
proof -
  let ?red = "redaction_of filt a (redacts_all filt a redactAnonymous)" and ?kvs = "AsObject (custom_attributes a)"
  obtain k ks where path: "path = k # ks" using assms(3) by (cases path) auto
  obtain ms rs where r: "render_members ?red [] ?kvs = (ms, rs)" by force
  have red: "?red path \<noteq> None" using assms(2) hidden_redaction by simp
  have custom: "json_lookup path (JObject ms) = None" using hidden_member [of path ?red "[]" ?kvs] red r assms(3) by simp
  have "fst ` set ms \<subseteq> fst ` set ?kvs" using keys_render_members [of ?red "[]" ?kvs] r by simp
  moreover have "fst ` set ?kvs \<inter> reserved_names = {}" using assms(1) by (simp add: attributes_ok_def)
  ultimately have "''name'' \<notin> fst ` set ms" by (auto simp: reserved_names_def)
  then have name: "map_of ms ''name'' = None" by (simp add: map_of_eq_None_iff)
  show ?thesis
    using assms(4) custom name red
    by (cases "k = ''name''"; cases ks)
      (auto simp: FilterSingleContext_reference [OF assms(1)] filter_reference_def r path map_add_def Let_def
        split: option.splits)
qed

lemma multi_members_kept:
  "multi_members filt ctx anon kinds obj = Some obj' \<Longrightarrow> map_of obj k = Some x \<Longrightarrow> map_of obj' k = Some x"
  by (induction kinds arbitrary: obj) (auto simp: object_emplace_def split: option.splits)

lemma multi_members_kind:
  "multi_members filt ctx anon kinds obj = Some obj' \<Longrightarrow> kind \<in> set kinds \<Longrightarrow> map_of obj kind = None \<Longrightarrow>
   Context_Attributes ctx kind = Some a \<Longrightarrow> map_of obj' kind = Some (FilterSingleContext filt kind False a anon)"
proof (induction kinds arbitrary: obj)
  case (Cons k kinds)
  then obtain b where b: "Context_Attributes ctx k = Some b"
    "multi_members filt ctx anon kinds (object_emplace k (FilterSingleContext filt k False b anon) obj) = Some obj'"
    by (auto split: option.splits)
  show ?case
  proof (cases "k = kind")
    case True
    then have "map_of (object_emplace k (FilterSingleContext filt k False b anon) obj) kind =
        Some (FilterSingleContext filt kind False a anon)"
      using Cons.prems b(1) by (simp add: object_emplace_def map_add_def)
    then show ?thesis by (rule multi_members_kept [OF b(2)])
  next
    case False
    then have "map_of (object_emplace k (FilterSingleContext filt k False b anon) obj) kind = None"
      using Cons.prems(3) by (simp add: object_emplace_def map_add_def split: option.splits)
    then show ?thesis using Cons.IH [OF b(2)] Cons.prems False by simp
  qed
qed simp

section \<open>Properties\<close>

text \<open>
  The loop over the stack, with its references into the JSON under construction, is
  the plain recursion over the attributes: for attributes as the builder makes them the
  result has the key, the kind and the anonymous flag where they apply, the name unless it
  is redacted, the custom attributes with every private one left out at any depth, and the
  names of what was redacted.
\<close>

theorem filter_is_recursive:
  assumes "attributes_ok a"
  shows "FilterSingleContext filt kind include_kind a redactAnonymous =
    filter_reference filt kind include_kind a redactAnonymous"
  using assms by (rule FilterSingleContext_reference)

definition sample_attributes :: Attributes where
  "sample_attributes =
     BuildAttributes (SetValue ''address'' (VObject [(''city'', VString ''Oslo''), (''street'', VString ''x'')]) False
       (AddPrivateAttribute (FromReferenceStr ''/address/street'') (AttributesBuilder_key ''user'' ''u'')))"

definition sample_filter :: ContextFilter where
  "sample_filter = \<lparr>all_attributes_private = False, global_private_attributes = []\<rparr>"

lemma sample_attributes_ok: "attributes_ok sample_attributes"
  unfolding sample_attributes_def
  by (intro attributes_ok_Build builder_values_ok_SetValue)
    (simp_all add: builder_values_ok_def AddPrivateAttribute_def AttributesBuilder_key_def)

lemmas sample_defs = SetValue_def AddPrivateAttribute_def RefSet_insert_def omap_emplace_def AttributesBuilder_key_def
  BuildAttributes_def MakeAttributes_def ProtectedAttributes_def TypedAttributes_def FromReferenceStr_eq decode_ref_def Value_opt_str_def

lemma sample_attributes_fields:
  "private_attributes sample_attributes =
     [([''address'', ''street''],
       \<lparr>ref_valid = True, redaction_name = ''/address/street'', components = [''address'', ''street'']\<rparr>)]"
  "AsObject (custom_attributes sample_attributes) =
     [(''address'', VObject [(''city'', VString ''Oslo''), (''street'', VString ''x'')])]"
  "Key sample_attributes = ''u''" "Name sample_attributes = []" "\<not> Anonymous sample_attributes"
  by (simp_all add: sample_attributes_def sample_defs AsObject_def Key_def Name_def Anonymous_def AsString_def AsBool_def)

lemma sample_redaction:
  "redaction_of sample_filter sample_attributes False path =
     (if path = [''address'', ''street''] then Some ''/address/street'' else None)"
  "redacts_all sample_filter sample_attributes redactAnonymous = False"
  by (auto simp: redaction_of_def find_private_def sample_filter_def sample_attributes_fields ref_eq_path_def redacts_all_def)

lemma sample_reference:
  "filter_reference sample_filter ''user'' True sample_attributes False =
     JObject [(''key'', JString ''u''), (''kind'', JString ''user''),
              (''address'', JObject [(''city'', JString ''Oslo'')]),
              (''_meta'', JObject [(''redactedAttributes'', JArray [JString ''/address/street''])])]"
  by (simp add: filter_reference_def sample_attributes_fields sample_redaction)

theorem filter_is_recursive_witness:
  "FilterSingleContext sample_filter ''user'' True sample_attributes False =
     filter_reference sample_filter ''user'' True sample_attributes False \<and>
   filter_reference sample_filter ''user'' True sample_attributes False =
     JObject [(''key'', JString ''u''), (''kind'', JString ''user''),
              (''address'', JObject [(''city'', JString ''Oslo'')]),
              (''_meta'', JObject [(''redactedAttributes'', JArray [JString ''/address/street''])])]"
proof
  show "FilterSingleContext sample_filter ''user'' True sample_attributes False =
      filter_reference sample_filter ''user'' True sample_attributes False"
    using sample_attributes_ok by (rule filter_is_recursive)
qed (rule sample_reference)

text \<open>
  C25. Private attributes are not sent. In the JSON of a context there is nothing at the
  path that a valid private reference of the configuration or of the context names, at
  any depth, for every kind of the context; and nothing at all, apart from the key, the
  kind and the anonymous flag, when all attributes are private or the context is anonymous
  and anonymous contexts are redacted.
\<close>

theorem private_attributes_not_sent:
  assumes "Filter_context filt ctx redactAnonymous = Some j" and "kind \<in> set (ctx_kinds ctx)"
    and "Context_Attributes ctx kind = Some a" and "attributes_ok a"
    and "hidden filt a redactAnonymous path" and "path \<noteq> []"
    and "hd path \<notin> {''key'', ''kind'', ''anonymous'', ''_meta''}"
  shows "json_lookup (if length (ctx_kinds ctx) = 1 then path else kind # path) j = None"
proof (cases "length (ctx_kinds ctx) = 1")
  case True
  then have "ctx_kinds ctx ! 0 = kind" using assms(2) by (auto simp: length_Suc_conv)
  then have "j = FilterSingleContext filt kind True a redactAnonymous"
    using assms(1,3) True by (simp add: Filter_context_def Let_def)
  then show ?thesis using True single_hidden [OF assms(4-7)] by simp
next
  case False
  then obtain obj where obj: "j = JObject obj"
    "multi_members filt ctx redactAnonymous (ctx_kinds ctx) [(''kind'', JString ''multi'')] = Some obj"
    using assms(1) by (auto simp: Filter_context_def FilterMultiContext_def)
  obtain k ks where path: "path = k # ks" using assms(6) by (cases path) auto
  have "Option.bind (map_of obj kind) (json_lookup path) = None"
  proof (cases "kind = ''kind''")
    case True
    then have "map_of obj kind = Some (JString ''multi'')" by (intro multi_members_kept [OF obj(2)]) simp
    then show ?thesis by (simp add: path)
  next
    case False
    then have "map_of obj kind = Some (FilterSingleContext filt kind False a redactAnonymous)"
      using assms(2,3) by (intro multi_members_kind [OF obj(2)]) simp_all
    then show ?thesis using single_hidden [OF assms(4-7)] by simp
  qed
  then show ?thesis using False by (simp add: obj(1))
qed

definition sample_filtered_context :: Context where
  "sample_filtered_context =
     \<lparr>ctx_attributes = [(''user'', sample_attributes)], ctx_kinds = [''user''], kinds_to_keys = [(''user'', ''u'')],
      ctx_valid = True, ctx_errors = [], canonical_key = ''u''\<rparr>"

theorem private_attributes_not_sent_witness:
  "\<exists>j. Filter_context sample_filter sample_filtered_context False = Some j \<and>
     json_lookup [''address'', ''street''] j = None \<and> json_lookup [''address'', ''city''] j = Some (JString ''Oslo'')"
proof -
  let ?ctx = sample_filtered_context
  let ?j = "FilterSingleContext sample_filter ''user'' True sample_attributes False"
  have j: "Filter_context sample_filter ?ctx False = Some ?j"
    by (simp add: Filter_context_def sample_filtered_context_def Context_Attributes_def)
  have "hidden sample_filter sample_attributes False [''address'', ''street'']"
    by (simp add: hidden_redaction sample_redaction)
  then have "json_lookup [''address'', ''street''] ?j = None"
    using private_attributes_not_sent [OF j, of "''user''" sample_attributes "[''address'', ''street'']"] sample_attributes_ok
    by (simp add: sample_filtered_context_def Context_Attributes_def)
  then show ?thesis
    using j by (simp add: FilterSingleContext_reference [OF sample_attributes_ok] sample_reference)
qed

text \<open>
  Inside arrays the names of members are compared with the private references as if
  they were names of attributes: when the attribute \<open>k\<close> is private, a member \<open>k\<close> of an
  object in an array of another attribute is left out as well.
\<close>

theorem array_members_redacted:
  assumes "attributes_ok a" and "AsObject (custom_attributes a) = [(c, VArray [VObject [(k, v)]])]"
    and "hidden filt a redactAnonymous [k]" and "\<not> hidden filt a redactAnonymous [c]"
  shows "json_lookup [c] (FilterSingleContext filt kind include_kind a redactAnonymous) = Some (JArray [JObject []])"
proof -
  let ?red = "redaction_of filt a (redacts_all filt a redactAnonymous)"
  obtain r where r: "?red [k] = Some r" using assms(3) hidden_redaction by blast
  have c: "?red [c] = None" using assms(4) hidden_redaction by blast
  have "c \<notin> reserved_names" using assms(1,2) by (simp add: attributes_ok_def)
  then show ?thesis
    by (auto simp: FilterSingleContext_reference [OF assms(1)] filter_reference_def assms(2) r c reserved_names_def
        map_add_def split: option.splits)
qed

definition contacts_attributes :: Attributes where
  "contacts_attributes =
     BuildAttributes (SetValue ''contacts'' (VArray [VObject [(''email'', VString ''x'')]]) False
       (AddPrivateAttribute (FromReferenceStr ''email'') (AttributesBuilder_key ''user'' ''u'')))"

theorem array_members_redacted_witness:
  "json_lookup [''contacts''] (FilterSingleContext sample_filter ''user'' True contacts_attributes False) =
     Some (JArray [JObject []])"
proof -
  have ok: "attributes_ok contacts_attributes"
    unfolding contacts_attributes_def
    by (intro attributes_ok_Build builder_values_ok_SetValue)
      (simp_all add: builder_values_ok_def AddPrivateAttribute_def AttributesBuilder_key_def)
  have cust: "AsObject (custom_attributes contacts_attributes) = [(''contacts'', VArray [VObject [(''email'', VString ''x'')]])]"
    by (simp add: contacts_attributes_def sample_defs AsObject_def)
  have "private_attributes contacts_attributes =
      [([''email''], \<lparr>ref_valid = True, redaction_name = ''email'', components = [''email'']\<rparr>)]"
    "\<not> Anonymous contacts_attributes"
    by (simp_all add: contacts_attributes_def sample_defs Anonymous_def AsBool_def)
  then have "hidden sample_filter contacts_attributes False [''email'']"
    "\<not> hidden sample_filter contacts_attributes False [''contacts'']"
    by (simp_all add: hidden_def redacts_all_def sample_filter_def)
  then show ?thesis by (rule array_members_redacted [OF ok cust])
qed

end
