(* ===== verification/Event_Buffers.thy ===== *)
theory Event_Buffers
  imports Context_Filter Data_Model
begin

text \<open>
  The data structures of event delivery, \<^verbatim>\<open>libs/internal/src/events\<close>: the events that go in
  and come out, the bounded outbox, the cache of context keys and the summarizer. Times
  are integers, and the JSON of a filtered context is a value of \<^typ>\<open>json\<close>.
\<close>

section \<open>Events\<close>

type_synonym Date = int
type_synonym EventContext = json

record TrackEventParams =
  tp_creation_date :: Date
  tp_key :: string
  tp_context :: Context
  tp_data :: "Value option"
  tp_metric_value :: "double option"

record TrackEvent =
  te_creation_date :: Date
  te_key :: string
  te_context :: EventContext
  te_data :: "Value option"
  te_metric_value :: "double option"

record IdentifyEventParams =
  ip_creation_date :: Date
  ip_context :: Context

record IdentifyEvent =
  ie_creation_date :: Date
  ie_context :: EventContext

record IndexEvent =
  ix_creation_date :: Date
  ix_context :: EventContext

record FeatureEventParams =
  fp_creation_date :: Date
  fp_key :: string
  fp_context :: Context
  fp_value :: Value
  fp_default :: Value
  fp_version :: "u64 option"
  fp_variation :: "u64 option"
  fp_reason :: "EvaluationReason option"
  require_full_event :: bool
  debug_events_until_date :: "Date option"
  fp_prereq_of :: "string option"

record FeatureEventBase =
  fb_creation_date :: Date
  fb_key :: string
  fb_version :: "u64 option"
  fb_variation :: "u64 option"
  fb_value :: Value
  fb_reason :: "EvaluationReason option"
  fb_default :: Value
  fb_prereq_of :: "string option"

definition MakeFeatureEventBase :: "FeatureEventParams \<Rightarrow> FeatureEventBase" where
  "MakeFeatureEventBase params =
     \<lparr>fb_creation_date = fp_creation_date params, fb_key = fp_key params, fb_version = fp_version params,
      fb_variation = fp_variation params, fb_value = fp_value params, fb_reason = fp_reason params,
      fb_default = fp_default params, fb_prereq_of = fp_prereq_of params\<rparr>"

datatype InputEvent = InFeature FeatureEventParams | InIdentify IdentifyEventParams | InTrack TrackEventParams

datatype OutputEvent =
    OutFeature FeatureEventBase EventContext
  | OutDebug FeatureEventBase EventContext
  | OutIdentify IdentifyEvent
  | OutIndex IndexEvent
  | OutTrack TrackEvent

section \<open>The outbox\<close>

record Outbox =
  ob_items :: "OutputEvent list"
  ob_capacity :: nat

definition MakeOutbox :: "nat \<Rightarrow> Outbox" where
  "MakeOutbox capacity = \<lparr>ob_items = [], ob_capacity = capacity\<rparr>"

definition Push :: "OutputEvent \<Rightarrow> Outbox \<Rightarrow> bool \<times> Outbox" where
  "Push item ob =
     (if length (ob_items ob) \<ge> ob_capacity ob then (False, ob)
      else (True, ob\<lparr>ob_items := ob_items ob @ [item]\<rparr>))"

fun PushDiscardingOverflow :: "OutputEvent list \<Rightarrow> Outbox \<Rightarrow> bool \<times> Outbox" where
  "PushDiscardingOverflow [] ob = (True, ob)"
| "PushDiscardingOverflow (it # items) ob =
     (case Push it ob of
        (False, ob) \<Rightarrow> (False, ob)
      | (True, ob) \<Rightarrow> PushDiscardingOverflow items ob)"

fun consume_loop :: "OutputEvent list \<Rightarrow> OutputEvent list \<Rightarrow> OutputEvent list" where
  "consume_loop out [] = out"
| "consume_loop out (front # items) = consume_loop (out @ [front]) items"

definition Consume :: "Outbox \<Rightarrow> OutputEvent list \<times> Outbox" where
  "Consume ob = (consume_loop [] (ob_items ob), ob\<lparr>ob_items := []\<rparr>)"

definition Outbox_Empty :: "Outbox \<Rightarrow> bool" where
  "Outbox_Empty ob \<longleftrightarrow> ob_items ob = []"

definition outbox_ok :: "Outbox \<Rightarrow> bool" where
  "outbox_ok ob \<longleftrightarrow> length (ob_items ob) \<le> ob_capacity ob"

lemma PushDiscardingOverflow_eq:
  "outbox_ok ob \<Longrightarrow> PushDiscardingOverflow items ob =
     (length items \<le> ob_capacity ob - length (ob_items ob),
      ob\<lparr>ob_items := ob_items ob @ take (ob_capacity ob - length (ob_items ob)) items\<rparr>)"
proof (induction items arbitrary: ob)
  case (Cons it items)
  show ?case
  proof (cases "length (ob_items ob) < ob_capacity ob")
    case True
    then have "outbox_ok (ob\<lparr>ob_items := ob_items ob @ [it]\<rparr>)" by (simp add: outbox_ok_def)
    from Cons.IH [OF this] show ?thesis
      using True by (simp add: Push_def take_Cons' Suc_diff_Suc split: if_splits) (auto simp: Suc_le_eq)
  next
    case False
    then show ?thesis using Cons.prems by (simp add: Push_def outbox_ok_def)
  qed
qed simp

lemma consume_loop_eq: "consume_loop out items = out @ items"
  by (induction items arbitrary: out) auto

lemma Consume_eq: "Consume ob = (ob_items ob, ob\<lparr>ob_items := []\<rparr>)"
  by (simp add: Consume_def consume_loop_eq)

section \<open>The cache of context keys\<close>

record LRUCache =
  lru_capacity :: nat
  lru_map :: "string list"
  lru_list :: "string list"

definition MakeLRUCache :: "nat \<Rightarrow> LRUCache" where
  "MakeLRUCache capacity = \<lparr>lru_capacity = capacity, lru_map = [], lru_list = []\<rparr>"

text \<open>
  The loop that makes room; \<^verbatim>\<open>back\<close> of an empty list is undefined, which is \<open>None\<close>. The
  keys of \<^verbatim>\<open>map_\<close> are a list without repetition.
\<close>

function evict :: "nat \<Rightarrow> string list \<Rightarrow> string list \<Rightarrow> (string list \<times> string list) option" where
  "evict capacity keys ls =
     (if length keys \<ge> capacity then
        (if ls = [] then None else evict capacity (remove1 (last ls) keys) (butlast ls))
      else Some (keys, ls))"
  by pat_completeness auto
termination
  by (relation "measure (\<lambda>(c, m, ls). length ls)") auto

declare evict.simps [simp del]

definition Notice :: "string \<Rightarrow> LRUCache \<Rightarrow> (bool \<times> LRUCache) option" where
  "Notice value c =
     (if value \<in> set (lru_map c) then
        Some (True, c\<lparr>lru_list := value # filter (\<lambda>x. x \<noteq> value) (lru_list c)\<rparr>)
      else
        (case evict (lru_capacity c) (lru_map c) (lru_list c) of
           None \<Rightarrow> None
         | Some (m, ls) \<Rightarrow> Some (False, c\<lparr>lru_list := value # ls, lru_map := value # m\<rparr>)))"

definition LRUCache_Clear :: "LRUCache \<Rightarrow> LRUCache" where
  "LRUCache_Clear c = c\<lparr>lru_map := [], lru_list := []\<rparr>"

definition LRUCache_Size :: "LRUCache \<Rightarrow> nat" where
  "LRUCache_Size c = length (lru_list c)"

text \<open>
  The cache against an unbounded list of all values, the most recently noticed first: it
  holds the first \<open>capacity\<close> of them.
\<close>

definition touch :: "string \<Rightarrow> string list \<Rightarrow> string list" where
  "touch value recent = value # filter (\<lambda>x. x \<noteq> value) recent"

definition lru_holds :: "string list \<Rightarrow> LRUCache \<Rightarrow> bool" where
  "lru_holds recent c \<longleftrightarrow> distinct recent \<and> 0 < lru_capacity c \<and> lru_list c = take (lru_capacity c) recent \<and>
     distinct (lru_map c) \<and> set (lru_map c) = set (lru_list c)"

lemma evict_one:
  assumes "distinct keys" and "distinct ls" and "set keys = set ls" and "length ls \<le> capacity" and "0 < capacity"
  shows "\<exists>m. evict capacity keys ls = Some (m, take (capacity - 1) ls) \<and> distinct m \<and>
    set m = set (take (capacity - 1) ls)"
proof -
  have len: "length keys = length ls" using assms(1-3) by (metis distinct_card)
  show ?thesis
  proof (cases "length ls = capacity")
    case True
    then have ne: "ls \<noteq> []" using assms(5) by auto
    have but: "take (capacity - 1) ls = butlast ls" using True by (simp add: butlast_conv_take)
    have "last ls \<in> set keys" using ne assms(3) by simp
    then have "length (remove1 (last ls) keys) = capacity - 1" using len True by (simp add: length_remove1)
    moreover have "\<not> capacity \<le> capacity - 1" using assms(5) by simp
    ultimately have "evict capacity keys ls = Some (remove1 (last ls) keys, butlast ls)"
      using True len ne by (simp add: evict.simps [of capacity])
    moreover have "set (remove1 (last ls) keys) = set (butlast ls)"
      using assms(1-3) ne by (simp add: set_butlast_distinct)
    ultimately show ?thesis
      using assms(1) unfolding but by (intro exI [of _ "remove1 (last ls) keys"]) simp
  next
    case False
    then have "length ls < capacity" using assms(4) by simp
    then show ?thesis using len assms(1,3) by (intro exI [of _ keys]) (simp add: evict.simps)
  qed
qed

lemma take_filter_neq:
  assumes "distinct ls" and "0 < n"
  shows "take (n - 1) (filter (\<lambda>x. x \<noteq> v) ls) =
    (if v \<in> set (take n ls) then filter (\<lambda>x. x \<noteq> v) (take n ls) else take (n - 1) ls)"
  using assms
proof (induction ls arbitrary: n)
  case (Cons x ls)
  show ?case
  proof (cases "x = v")
    case True
    have "filter (\<lambda>y. y \<noteq> v) ls = ls" "filter (\<lambda>y. y \<noteq> v) (take (n - 1) ls) = take (n - 1) ls"
      using Cons.prems(1) True by (auto simp: filter_id_conv dest: in_set_takeD)
    then show ?thesis using Cons.prems(2) True by (simp add: take_Cons')
  next
    case False
    then show ?thesis
      using Cons.IH [of "n - 1"] Cons.prems by (cases "n = 1") (auto simp: take_Cons')
  qed
qed simp

lemma Notice_holds:
  assumes "lru_holds recent c"
  shows "\<exists>c'. Notice value c = Some (value \<in> set (take (lru_capacity c) recent), c') \<and>
    lru_holds (touch value recent) c' \<and> lru_capacity c' = lru_capacity c"
proof -
  let ?n = "lru_capacity c"
  have d: "distinct recent" "0 < ?n" "lru_list c = take ?n recent" "distinct (lru_map c)"
    "set (lru_map c) = set (lru_list c)"
    using assms by (simp_all add: lru_holds_def)
  have "take ?n (touch value recent) = value # take (?n - 1) (filter (\<lambda>x. x \<noteq> value) recent)"
    using d(2) by (simp add: touch_def take_Cons')
  then have touched: "take ?n (touch value recent) = value #
      (if value \<in> set (take ?n recent) then filter (\<lambda>x. x \<noteq> value) (take ?n recent) else take (?n - 1) recent)"
    by (simp only: take_filter_neq [OF d(1,2)])
  have dt: "distinct (touch value recent)" using d(1) by (simp add: touch_def)
  show ?thesis
  proof (cases "value \<in> set (take ?n recent)")
    case True
    then show ?thesis
      using d dt touched by (auto simp: Notice_def lru_holds_def)
  next
    case False
    obtain m where m: "evict ?n (lru_map c) (lru_list c) = Some (m, take (?n - 1) (lru_list c))" "distinct m"
      "set m = set (take (?n - 1) (lru_list c))"
      using evict_one [OF d(4) _ d(5), of ?n] d by auto
    have "take (?n - 1) (lru_list c) = take (?n - 1) recent" by (simp add: d(3))
    moreover have "value \<notin> set (take (?n - 1) recent)"
      using False by (meson diff_le_self in_mono set_take_subset_set_take)
    ultimately show ?thesis
      using False d dt touched m by (simp add: Notice_def lru_holds_def)
  qed
qed

section \<open>The summarizer\<close>

text \<open>
  A counter is a 32-bit signed integer. The map from variation keys to counters is ordered
  in the source; only the order of the summary's JSON depends on that, so it is a list of
  entries with distinct keys here.
\<close>

record VariationKey =
  vk_version :: "u64 option"
  vk_variation :: "u64 option"

record VariationSummary =
  vs_count :: "32 word"
  vs_value :: Value

record SummaryState =
  ss_default :: Value
  ss_context_kinds :: "string set"
  ss_counters :: "(VariationKey \<times> VariationSummary) list"

record Summarizer =
  start_time :: Date
  end_time :: Date
  features :: "(string \<times> SummaryState) list"

definition MakeSummarizer :: "Date \<Rightarrow> Summarizer" where
  "MakeSummarizer start = \<lparr>start_time = start, end_time = 0, features = []\<rparr>"

definition Summarizer_Empty :: "Summarizer \<Rightarrow> bool" where
  "Summarizer_Empty s \<longleftrightarrow> features s = []"

definition Increment :: "VariationSummary \<Rightarrow> VariationSummary" where
  "Increment vs = vs\<lparr>vs_count := vs_count vs + 1\<rparr>"

definition variation_key :: "FeatureEventParams \<Rightarrow> VariationKey" where
  "variation_key ev = \<lparr>vk_version = fp_version ev, vk_variation = fp_variation ev\<rparr>"

text \<open>
  \<^verbatim>\<open>try_emplace(k, x).first\<close> is a reference to the entry of \<open>k\<close>, which is new when there was
  none; here it is the value of the entry, and the changed value is written back.
\<close>

definition try_emplace :: "'k \<Rightarrow> 'v \<Rightarrow> ('k \<times> 'v) list \<Rightarrow> 'v" where
  "try_emplace k x m = (case map_of m k of Some y \<Rightarrow> y | None \<Rightarrow> x)"

definition Summarizer_Update :: "FeatureEventParams \<Rightarrow> Summarizer \<Rightarrow> Summarizer" where
  "Summarizer_Update ev s =
     (let st = try_emplace (fp_key ev) \<lparr>ss_default = fp_default ev, ss_context_kinds = {}, ss_counters = []\<rparr> (features s);
          st = st\<lparr>ss_context_kinds := ss_context_kinds st \<union> set (ctx_kinds (fp_context ev))\<rparr>;
          counter = try_emplace (variation_key ev) \<lparr>vs_count = 0, vs_value = fp_value ev\<rparr> (ss_counters st);
          st = st\<lparr>ss_counters := AList.update (variation_key ev) (Increment counter) (ss_counters st)\<rparr>
      in s\<lparr>features := AList.update (fp_key ev) st (features s)\<rparr>)"

definition Summarizer_Finish :: "Date \<Rightarrow> Summarizer \<Rightarrow> Summarizer" where
  "Summarizer_Finish t s = s\<lparr>end_time := t\<rparr>"

text \<open>The counter of a flag's variation, and the events it counts.\<close>

definition counter_of :: "Summarizer \<Rightarrow> string \<Rightarrow> VariationKey \<Rightarrow> VariationSummary option" where
  "counter_of s key vk = Option.bind (map_of (features s) key) (\<lambda>st. map_of (ss_counters st) vk)"

definition counted :: "string \<Rightarrow> VariationKey \<Rightarrow> FeatureEventParams \<Rightarrow> bool" where
  "counted key vk ev \<longleftrightarrow> fp_key ev = key \<and> variation_key ev = vk"

lemma counter_of_Update:
  "counter_of (Summarizer_Update ev s) key vk =
     (if counted key vk ev
      then Some (Increment (case counter_of s key vk of Some c \<Rightarrow> c | None \<Rightarrow> \<lparr>vs_count = 0, vs_value = fp_value ev\<rparr>))
      else counter_of s key vk)"
  by (auto simp: counter_of_def Summarizer_Update_def try_emplace_def counted_def update_conv' Let_def
      split: option.splits)

definition summary_count :: "VariationSummary option \<Rightarrow> 32 word" where
  "summary_count c = (case c of Some vs \<Rightarrow> vs_count vs | None \<Rightarrow> 0)"

lemma counter_of_run:
  "summary_count (counter_of (fold Summarizer_Update evs s) key vk) =
     summary_count (counter_of s key vk) + of_nat (length (filter (counted key vk) evs))"
  by (induction evs arbitrary: s)
    (auto simp: counter_of_Update summary_count_def Increment_def split: option.splits)

lemma counter_value_run:
  "counter_of s key vk = Some c \<Longrightarrow>
   \<exists>c'. counter_of (fold Summarizer_Update evs s) key vk = Some c' \<and> vs_value c' = vs_value c"
proof (induction evs arbitrary: s c)
  case (Cons ev evs)
  have "\<exists>c1. counter_of (Summarizer_Update ev s) key vk = Some c1 \<and> vs_value c1 = vs_value c"
    using Cons.prems by (simp add: counter_of_Update Increment_def)
  then show ?case using Cons.IH [of "Summarizer_Update ev s"] by auto
qed simp

lemma counter_first:
  "counter_of s key vk = None \<Longrightarrow>
   map_option vs_value (counter_of (fold Summarizer_Update evs s) key vk) =
     map_option fp_value (List.find (counted key vk) evs)"
proof (induction evs arbitrary: s)
  case (Cons ev evs)
  show ?case
  proof (cases "counted key vk ev")
    case True
    let ?c = "Increment \<lparr>vs_count = 0, vs_value = fp_value ev\<rparr>"
    have "counter_of (Summarizer_Update ev s) key vk = Some ?c"
      using True Cons.prems by (simp add: counter_of_Update)
    then obtain c' where "counter_of (fold Summarizer_Update evs (Summarizer_Update ev s)) key vk = Some c'"
      "vs_value c' = vs_value ?c"
      using counter_value_run by blast
    then show ?thesis using True by (simp add: Increment_def)
  next
    case False
    then show ?thesis using Cons by (simp add: counter_of_Update)
  qed
qed simp

section \<open>Properties\<close>

text \<open>
  The summary counts evaluations: after any events, the counter of a flag's version
  and variation is the number of events for them, as long as that number fits into a
  32-bit signed integer, and its value is the value of the first of them; there is no
  counter for what was not evaluated.
\<close>

theorem summary_counts_evaluations:
  assumes "length (filter (counted key vk) evs) < 2 ^ 31"
  shows "sint (summary_count (counter_of (fold Summarizer_Update evs (MakeSummarizer t)) key vk)) =
      int (length (filter (counted key vk) evs)) \<and>
    map_option vs_value (counter_of (fold Summarizer_Update evs (MakeSummarizer t)) key vk) =
      map_option fp_value (List.find (counted key vk) evs)"
proof -
  let ?n = "length (filter (counted key vk) evs)"
  have none: "counter_of (MakeSummarizer t) key vk = None" by (simp add: counter_of_def MakeSummarizer_def)
  have "sint (of_nat ?n :: 32 word) = int ?n"
    using assms by (simp add: signed_of_nat signed_take_bit_int_eq_self)
  then show ?thesis
    using counter_of_run [of evs "MakeSummarizer t" key vk] counter_first [OF none, of evs] none
    by (simp add: summary_count_def)
qed

definition sample_evaluation :: "string \<Rightarrow> bool \<Rightarrow> FeatureEventParams" where
  "sample_evaluation key result =
     \<lparr>fp_creation_date = 0, fp_key = key,
      fp_context = \<lparr>ctx_attributes = [], ctx_kinds = [''user''], kinds_to_keys = [], ctx_valid = True, ctx_errors = [],
        canonical_key = ''u''\<rparr>,
      fp_value = VBool result, fp_default = VNull, fp_version = Some 1,
      fp_variation = Some (if result then 0 else 1), fp_reason = None, require_full_event = False,
      debug_events_until_date = None, fp_prereq_of = None\<rparr>"

theorem summary_counts_evaluations_witness:
  "sint (summary_count (counter_of (fold Summarizer_Update
      [sample_evaluation ''f'' True, sample_evaluation ''f'' False, sample_evaluation ''f'' True] (MakeSummarizer 0))
      ''f'' \<lparr>vk_version = Some 1, vk_variation = Some 0\<rparr>)) = 2"
  using summary_counts_evaluations [of "''f''" "\<lparr>vk_version = Some 1, vk_variation = Some 0\<rparr>"
    "[sample_evaluation ''f'' True, sample_evaluation ''f'' False, sample_evaluation ''f'' True]" 0]
  by (simp add: counted_def variation_key_def sample_evaluation_def)

text \<open>
  The cache of context keys is least-recently-used: after any values it holds the most
  recent distinct ones, up to its capacity, and noticing a value answers whether it is
  among them.
\<close>

theorem lru_cache_recency:
  assumes "0 < capacity"
  shows "\<exists>c. fold (\<lambda>v c. Option.bind c (map_option snd \<circ> Notice v)) vals (Some (MakeLRUCache capacity)) = Some c \<and>
    lru_list c = take capacity (fold touch vals []) \<and>
    map_option fst (Notice v c) = Some (v \<in> set (take capacity (fold touch vals [])))"
proof -
  have run: "\<exists>c'. fold (\<lambda>v c. Option.bind c (map_option snd \<circ> Notice v)) vals (Some c) = Some c' \<and>
      lru_holds (fold touch vals recent) c' \<and> lru_capacity c' = lru_capacity c" if "lru_holds recent c" for recent c
    using that
  proof (induction vals arbitrary: recent c)
    case (Cons v vals)
    obtain b c1 where c1: "Notice v c = Some (b, c1)" "lru_holds (touch v recent) c1" "lru_capacity c1 = lru_capacity c"
      using Notice_holds [OF Cons.prems, of v] by blast
    then show ?case using Cons.IH [OF c1(2)] by simp
  qed simp
  have "lru_holds [] (MakeLRUCache capacity)" using assms by (simp add: lru_holds_def MakeLRUCache_def)
  from run [OF this] obtain c where c: "fold (\<lambda>v c. Option.bind c (map_option snd \<circ> Notice v)) vals (Some (MakeLRUCache capacity)) = Some c"
    "lru_holds (fold touch vals []) c" "lru_capacity c = capacity"
    by (auto simp: MakeLRUCache_def)
  then show ?thesis
    using Notice_holds [OF c(2), of v] by (auto simp: lru_holds_def)
qed

theorem lru_cache_recency_witness:
  "\<exists>c. fold (\<lambda>v c. Option.bind c (map_option snd \<circ> Notice v)) [''a'', ''b'', ''a'', ''c''] (Some (MakeLRUCache 2)) = Some c \<and>
     lru_list c = [''c'', ''a''] \<and> map_option fst (Notice ''b'' c) = Some False"
  using lru_cache_recency [of 2 "[''a'', ''b'', ''a'', ''c'']" "''b''"] by (simp add: touch_def)

end
