(* ===== verification/Event_Processor.thy ===== *)
theory Event_Processor
  imports Event_Buffers "HOL-Library.Monad_Syntax"
begin

text \<open>
  Event delivery: the request worker with its state machine
  (\<^verbatim>\<open>libs/internal/src/events/request_worker.cpp\<close>), the choice of a worker
  (\<^verbatim>\<open>worker_pool.hpp\<close>) and the event processor
  (\<^verbatim>\<open>libs/internal/src/events/asio_event_processor.cpp\<close>). Everything runs on one strand, so a
  handler is one step; what is posted to the strand, in flight on the network or waiting
  for a timer is part of the state, and the strand, the network and the timers are steps
  that take it from there. Time is an argument of the steps that read the clock. The
  parser of date headers depends on the locale and the time zone of the host and is a
  parameter, absent when the locale is.
\<close>

section \<open>Request workers\<close>

datatype WorkerState = Idle | FirstChance | SecondChance | PermanentlyFailed

datatype Action = ActionNone | Reset | ParseDateAndReset | Retry | NotifyPermanentFailure

record HttpResult =
  res_error :: bool
  res_status :: u64
  res_headers :: "(string \<times> string) list"

text \<open>
  \<^verbatim>\<open>http::status\<close> is an enumeration over \<^verbatim>\<open>unsigned\<close>; the class of a status is its hundreds
  digit, 2 for success and 4 for a client error.
\<close>

definition http_status :: "u64 \<Rightarrow> nat" where
  "http_status s = unat s mod 2 ^ 32"

definition IsTransientFailure :: "HttpResult \<Rightarrow> bool" where
  "IsTransientFailure result =
     (let status = http_status (res_status result) in
      if res_error result \<or> status div 100 \<noteq> 4 then True
      else status = 400 \<or> status = 408 \<or> status = 429 \<or> status = 413)"

definition IsRetryable :: "u64 \<Rightarrow> bool" where
  "IsRetryable status \<longleftrightarrow> http_status status \<noteq> 413"

definition IsSuccess :: "HttpResult \<Rightarrow> bool" where
  "IsSuccess result \<longleftrightarrow> \<not> res_error result \<and> http_status (res_status result) div 100 = 2"

definition NextState :: "WorkerState \<Rightarrow> HttpResult \<Rightarrow> WorkerState \<times> Action" where
  "NextState state result =
     (case state of
        Idle \<Rightarrow> (state, ActionNone)
      | PermanentlyFailed \<Rightarrow> (state, ActionNone)
      | FirstChance \<Rightarrow>
          (if IsSuccess result then (Idle, ParseDateAndReset)
           else if IsTransientFailure result then
             (if IsRetryable (res_status result) then (SecondChance, Retry) else (Idle, Reset))
           else (PermanentlyFailed, NotifyPermanentFailure))
      | SecondChance \<Rightarrow>
          (if IsSuccess result then (Idle, ParseDateAndReset)
           else if IsTransientFailure result then (Idle, Reset)
           else (PermanentlyFailed, NotifyPermanentFailure)))"

record EventBatch =
  batch_events :: "OutputEvent list"
  batch_summary :: "Summarizer option"

definition Batch_Count :: "EventBatch \<Rightarrow> nat" where
  "Batch_Count b = length (batch_events b) + (case batch_summary b of Some _ \<Rightarrow> 1 | None \<Rightarrow> 0)"

text \<open>The requests a worker has made are kept in order; \<open>retry_pending\<close> is its timer.\<close>

record RequestWorker =
  rw_state :: WorkerState
  rw_batch :: "EventBatch option"
  rw_requests :: "EventBatch list"
  retry_pending :: bool

definition MakeRequestWorker :: RequestWorker where
  "MakeRequestWorker = \<lparr>rw_state = Idle, rw_batch = None, rw_requests = [], retry_pending = False\<rparr>"

definition Available :: "RequestWorker \<Rightarrow> bool" where
  "Available w \<longleftrightarrow> rw_state w = Idle"

definition AsyncDeliver :: "EventBatch \<Rightarrow> RequestWorker \<Rightarrow> RequestWorker" where
  "AsyncDeliver batch w =
     w\<lparr>rw_state := FirstChance, rw_batch := Some batch, rw_requests := rw_requests w @ [batch]\<rparr>"

datatype DeliveryResult = PermanentFailure u64 | ServerTime Date

type_synonym date_parser = "(string \<Rightarrow> Date option) option"

definition to_lower :: "char \<Rightarrow> char" where
  "to_lower c = (if 65 \<le> (of_char c :: nat) \<and> (of_char c :: nat) \<le> 90 then char_of (of_char c + 32 :: nat) else c)"

definition headers_find :: "string \<Rightarrow> (string \<times> string) list \<Rightarrow> string option" where
  "headers_find name headers =
     map_option snd (List.find (\<lambda>h. map to_lower (c_str (fst h)) = map to_lower (c_str name)) headers)"

text \<open>
  The result is the calls of the callback, with the count of the batch; \<^verbatim>\<open>batch_->Count()\<close>
  without a batch would be undefined and is the count 0 here.
\<close>

definition OnDeliveryAttempt :: "date_parser \<Rightarrow> HttpResult \<Rightarrow> RequestWorker \<Rightarrow>
    (nat \<times> DeliveryResult) list \<times> RequestWorker" where
  "OnDeliveryAttempt parse_date result w =
     (let (next_state, action) = NextState (rw_state w) result;
          count = (case rw_batch w of Some b \<Rightarrow> Batch_Count b | None \<Rightarrow> 0);
          (calls, w) =
            (case action of
               ActionNone \<Rightarrow> ([], w)
             | Reset \<Rightarrow> ([], w\<lparr>rw_batch := None\<rparr>)
             | NotifyPermanentFailure \<Rightarrow> ([(count, PermanentFailure (res_status result))], w\<lparr>rw_batch := None\<rparr>)
             | ParseDateAndReset \<Rightarrow>
                 (case parse_date of
                    None \<Rightarrow> ([], w\<lparr>rw_batch := None\<rparr>)
                  | Some parse \<Rightarrow>
                      (case headers_find ''Date'' (res_headers result) of
                         None \<Rightarrow> ([], w\<lparr>rw_batch := None\<rparr>)
                       | Some date \<Rightarrow>
                           (case parse date of
                              None \<Rightarrow> ([], w\<lparr>rw_batch := None\<rparr>)
                            | Some server_time \<Rightarrow> ([(count, ServerTime server_time)], w\<lparr>rw_batch := None\<rparr>))))
             | Retry \<Rightarrow> ([], w\<lparr>retry_pending := True\<rparr>))
      in (calls, w\<lparr>rw_state := next_state\<rparr>))"

definition OnRetryTimer :: "RequestWorker \<Rightarrow> RequestWorker" where
  "OnRetryTimer w =
     (if retry_pending w then
        (case rw_batch w of
           Some batch \<Rightarrow> w\<lparr>retry_pending := False, rw_requests := rw_requests w @ [batch]\<rparr>
         | None \<Rightarrow> w\<lparr>retry_pending := False\<rparr>)
      else w)"

section \<open>The event processor\<close>

datatype FlushTrigger = Automatic | Manual

record Processor =
  is_server :: bool
  outbox :: Outbox
  summarizer :: Summarizer
  flush_timer :: bool
  workers :: "RequestWorker list"
  inbox_capacity :: nat
  inbox_size :: nat
  inbox :: "InputEvent list"
  full_outbox_encountered :: bool
  full_inbox_encountered :: bool
  permanent_delivery_failure :: bool
  last_known_past_time :: "Date option"
  context_filter :: ContextFilter
  context_key_cache :: LRUCache

definition MakeProcessor :: "bool \<Rightarrow> Date \<Rightarrow> nat \<Rightarrow> nat \<Rightarrow> ContextFilter \<Rightarrow> nat option \<Rightarrow> Processor" where
  "MakeProcessor server now capacity flush_workers filt cache_capacity =
     \<lparr>is_server = server, outbox = MakeOutbox capacity, summarizer = MakeSummarizer now, flush_timer = True,
      workers = replicate flush_workers MakeRequestWorker, inbox_capacity = capacity, inbox_size = 0, inbox = [],
      full_outbox_encountered = False, full_inbox_encountered = False, permanent_delivery_failure = False,
      last_known_past_time = None, context_filter = filt,
      context_key_cache = MakeLRUCache (case cache_capacity of Some n \<Rightarrow> n | None \<Rightarrow> 0)\<rparr>"

definition InboxIncrement :: "Processor \<Rightarrow> bool \<times> Processor" where
  "InboxIncrement p =
     (if permanent_delivery_failure p then (False, p)
      else if inbox_size p < inbox_capacity p then (True, p\<lparr>inbox_size := Suc (inbox_size p)\<rparr>)
      else (False, p\<lparr>full_inbox_encountered := True\<rparr>))"

definition InboxDecrement :: "Processor \<Rightarrow> Processor" where
  "InboxDecrement p = (if 0 < inbox_size p then p\<lparr>inbox_size := inbox_size p - 1\<rparr> else p)"

definition SendAsync :: "InputEvent \<Rightarrow> Processor \<Rightarrow> Processor" where
  "SendAsync ev p =
     (case InboxIncrement p of
        (False, p) \<Rightarrow> p
      | (True, p) \<Rightarrow> p\<lparr>inbox := inbox p @ [ev]\<rparr>)"

text \<open>The index event for a context that was not noticed before, in a server-side processor.\<close>

definition index_event :: "Date \<Rightarrow> Context \<Rightarrow> Processor \<Rightarrow> (OutputEvent list \<times> Processor) option" where
  "index_event date context p =
     (if is_server p then
        do {
          (seen, cache) \<leftarrow> Notice (canonical_key context) (context_key_cache p);
          let p = p\<lparr>context_key_cache := cache\<rparr>;
          if seen then Some ([], p)
          else do {
            j \<leftarrow> Filter (context_filter p) context;
            Some ([OutIndex \<lparr>ix_creation_date = date, ix_context = j\<rparr>], p)
          }
        }
      else Some ([], p))"

fun Process :: "Date \<Rightarrow> InputEvent \<Rightarrow> Processor \<Rightarrow> (OutputEvent list \<times> Processor) option" where
  "Process now (InFeature ev) p =
     do {
       let p = p\<lparr>summarizer := Summarizer_Update ev (summarizer p)\<rparr>;
       (index, p) \<leftarrow> index_event (fp_creation_date ev) (fp_context ev) p;
       let base = MakeFeatureEventBase ev;
       let conservative_now = max now (case last_known_past_time p of Some t \<Rightarrow> t | None \<Rightarrow> 0);
       let emit_debug_event =
         (case debug_events_until_date ev of Some until_date \<Rightarrow> conservative_now < until_date | None \<Rightarrow> False);
       debug \<leftarrow> (if emit_debug_event
                 then map_option (\<lambda>j. [OutDebug base j]) (Filter (context_filter p) (fp_context ev)) else Some []);
       full \<leftarrow> (if require_full_event ev
                then map_option (\<lambda>j. [OutFeature base j])
                  (FilterWithAnonymousRedaction (context_filter p) (fp_context ev)) else Some []);
       Some (index @ debug @ full, p)
     }"
| "Process now (InIdentify ev) p =
     do {
       p \<leftarrow> (if is_server p
             then map_option (\<lambda>(_, cache). p\<lparr>context_key_cache := cache\<rparr>)
               (Notice (canonical_key (ip_context ev)) (context_key_cache p))
             else Some p);
       j \<leftarrow> Filter (context_filter p) (ip_context ev);
       Some ([OutIdentify \<lparr>ie_creation_date = ip_creation_date ev, ie_context = j\<rparr>], p)
     }"
| "Process now (InTrack ev) p =
     do {
       (index, p) \<leftarrow> index_event (tp_creation_date ev) (tp_context ev) p;
       j \<leftarrow> (if is_server p then FilterWithAnonymousRedaction (context_filter p) (tp_context ev)
             else Filter (context_filter p) (tp_context ev));
       Some (index @ [OutTrack \<lparr>te_creation_date = tp_creation_date ev, te_key = tp_key ev, te_context = j,
         te_data = tp_data ev, te_metric_value = tp_metric_value ev\<rparr>], p)
     }"

definition HandleSend :: "Date \<Rightarrow> InputEvent \<Rightarrow> Processor \<Rightarrow> Processor option" where
  "HandleSend now ev p =
     do {
       (output_events, p) \<leftarrow> Process now ev p;
       let (inserted, ob) = PushDiscardingOverflow output_events (outbox p);
       Some (p\<lparr>outbox := ob, full_outbox_encountered := \<not> inserted\<rparr>)
     }"

text \<open>The strand runs the handler that \<open>SendAsync\<close> posted first.\<close>

definition run_posted :: "Date \<Rightarrow> Processor \<Rightarrow> Processor option" where
  "run_posted now p =
     (case inbox p of
        [] \<Rightarrow> Some p
      | ev # rest \<Rightarrow> HandleSend now ev (InboxDecrement (p\<lparr>inbox := rest\<rparr>)))"

definition CreateBatch :: "Date \<Rightarrow> Processor \<Rightarrow> EventBatch option \<times> Processor" where
  "CreateBatch now p =
     (let (events, ob) = Consume (outbox p);
          s = Summarizer_Finish now (summarizer p);
          p = p\<lparr>outbox := ob, summarizer := s\<rparr>
      in if \<not> Summarizer_Empty s then (Some \<lparr>batch_events = events, batch_summary = Some s\<rparr>, p)
         else if events = [] then (None, p)
         else (Some \<lparr>batch_events = events, batch_summary = None\<rparr>, p))"

fun first_available :: "nat \<Rightarrow> RequestWorker list \<Rightarrow> nat option" where
  "first_available i [] = None"
| "first_available i (w # ws) = (if Available w then Some i else first_available (Suc i) ws)"

definition ScheduleFlush :: "Processor \<Rightarrow> Processor" where
  "ScheduleFlush p = p\<lparr>flush_timer := True\<rparr>"

definition Flush :: "Date \<Rightarrow> FlushTrigger \<Rightarrow> Processor \<Rightarrow> Processor" where
  "Flush now flush_type p =
     (let p =
        (case first_available 0 (workers p) of
           None \<Rightarrow> p
         | Some i \<Rightarrow>
             (case CreateBatch now p of
                (None, p) \<Rightarrow> p
              | (Some batch, p) \<Rightarrow>
                  p\<lparr>workers := (workers p)[i := AsyncDeliver batch (workers p ! i)],
                    summarizer := MakeSummarizer now\<rparr>))
      in if flush_type = Automatic then ScheduleFlush p else p)"

definition OnEventDeliveryResult :: "nat \<times> DeliveryResult \<Rightarrow> Processor \<Rightarrow> Processor" where
  "OnEventDeliveryResult call p =
     (case snd call of
        ServerTime server_time \<Rightarrow> p\<lparr>last_known_past_time := Some server_time\<rparr>
      | PermanentFailure status \<Rightarrow>
          if \<not> permanent_delivery_failure p
          then p\<lparr>flush_timer := False, permanent_delivery_failure := True\<rparr> else p)"

definition ShutdownAsync :: "Processor \<Rightarrow> Processor" where
  "ShutdownAsync p = p\<lparr>flush_timer := False\<rparr>"

text \<open>What can happen to a processor: calls of its interface, and what it waits for.\<close>

datatype proc_op =
    OpSend InputEvent
  | OpRun Date
  | OpFlush Date
  | OpFlushTimer Date
  | OpResponse date_parser nat HttpResult
  | OpRetryTimer nat
  | OpShutdown

fun proc_step :: "proc_op \<Rightarrow> Processor \<Rightarrow> Processor option" where
  "proc_step (OpSend ev) p = Some (SendAsync ev p)"
| "proc_step (OpRun now) p = run_posted now p"
| "proc_step (OpFlush now) p = Some (Flush now Manual p)"
| "proc_step (OpFlushTimer now) p =
     Some (if flush_timer p then Flush now Automatic (p\<lparr>flush_timer := False\<rparr>) else p)"
| "proc_step (OpResponse parse_date i result) p =
     Some (if i < length (workers p) \<and> rw_batch (workers p ! i) \<noteq> None \<and> \<not> retry_pending (workers p ! i) then
             (let (calls, w) = OnDeliveryAttempt parse_date result (workers p ! i)
              in fold OnEventDeliveryResult calls (p\<lparr>workers := (workers p)[i := w]\<rparr>))
           else p)"
| "proc_step (OpRetryTimer i) p =
     Some (if i < length (workers p) then p\<lparr>workers := (workers p)[i := OnRetryTimer (workers p ! i)]\<rparr> else p)"
| "proc_step OpShutdown p = Some (ShutdownAsync p)"

definition proc_perform :: "proc_op \<Rightarrow> Processor \<Rightarrow> Processor" where
  "proc_perform op p = (case proc_step op p of Some p' \<Rightarrow> p' | None \<Rightarrow> p)"

section \<open>Invariants\<close>

text \<open>
  A worker has a batch exactly while it delivers one, and waits for its timer only before
  the second attempt. So its code never looks at a batch that is not there.
\<close>

definition worker_ok :: "RequestWorker \<Rightarrow> bool" where
  "worker_ok w \<longleftrightarrow> (rw_batch w \<noteq> None) = (rw_state w \<in> {FirstChance, SecondChance}) \<and>
     (retry_pending w \<longrightarrow> rw_state w = SecondChance)"

definition proc_ok :: "Processor \<Rightarrow> bool" where
  "proc_ok p \<longleftrightarrow> inbox_size p = length (inbox p) \<and> inbox_size p \<le> inbox_capacity p \<and> outbox_ok (outbox p) \<and>
     list_all worker_ok (workers p)"

lemma list_all_update: "list_all P xs \<Longrightarrow> P y \<Longrightarrow> list_all P (xs[i := y])"
  by (auto simp: list_all_iff dest: subsetD [OF set_update_subset_insert])

lemma worker_ok_new [simp]: "worker_ok MakeRequestWorker"
  by (simp add: worker_ok_def MakeRequestWorker_def)

lemma worker_ok_AsyncDeliver: "worker_ok w \<Longrightarrow> Available w \<Longrightarrow> worker_ok (AsyncDeliver b w)"
  by (simp add: worker_ok_def AsyncDeliver_def Available_def)

lemma worker_ok_attempt:
  "worker_ok w \<Longrightarrow> \<not> retry_pending w \<Longrightarrow> worker_ok (snd (OnDeliveryAttempt parse_date r w))"
  by (cases "rw_state w")
    (auto simp: worker_ok_def OnDeliveryAttempt_def NextState_def Let_def split: option.splits)

lemma worker_ok_timer: "worker_ok w \<Longrightarrow> worker_ok (OnRetryTimer w)"
  by (auto simp: worker_ok_def OnRetryTimer_def split: option.splits)

lemma proc_ok_new: "proc_ok (MakeProcessor server now capacity n filt cache)"
  by (simp add: proc_ok_def MakeProcessor_def outbox_ok_def MakeOutbox_def list_all_iff)

lemma SendAsync_eq:
  "SendAsync ev p =
     (if permanent_delivery_failure p then p
      else if inbox_size p < inbox_capacity p then p\<lparr>inbox_size := Suc (inbox_size p), inbox := inbox p @ [ev]\<rparr>
      else p\<lparr>full_inbox_encountered := True\<rparr>)"
  by (simp add: SendAsync_def InboxIncrement_def)

lemma index_event_frame:
  assumes "index_event date context p = Some (out, p')"
  shows "p' = p\<lparr>context_key_cache := context_key_cache p'\<rparr>"
  using assms by (auto simp: index_event_def Let_def bind_eq_Some_conv split: if_splits prod.splits)

lemma Process_frame:
  assumes "Process now ev p = Some (out, p')"
  shows "p' = p\<lparr>summarizer := summarizer p', context_key_cache := context_key_cache p'\<rparr>"
proof (cases ev)
  case (InFeature e)
  then obtain ix p1 where p1: "index_event (fp_creation_date e) (fp_context e)
      (p\<lparr>summarizer := Summarizer_Update e (summarizer p)\<rparr>) = Some (ix, p1)" "p' = p1"
    using assms by (auto simp: Let_def bind_eq_Some_conv)
  from index_event_frame [OF p1(1)] obtain c where
    "p1 = p\<lparr>summarizer := Summarizer_Update e (summarizer p), context_key_cache := c\<rparr>" by simp
  then show ?thesis using p1(2) by simp
next
  case (InIdentify e)
  then show ?thesis using assms by (auto simp: bind_eq_Some_conv split: if_splits)
next
  case (InTrack e)
  then obtain ix p1 where p1: "index_event (tp_creation_date e) (tp_context e) p = Some (ix, p1)" "p' = p1"
    using assms by (auto simp: bind_eq_Some_conv)
  from index_event_frame [OF p1(1)] obtain c where "p1 = p\<lparr>context_key_cache := c\<rparr>" by simp
  then show ?thesis using p1(2) by simp
qed

lemma capacity_PushDiscardingOverflow:
  "PushDiscardingOverflow items ob = (ok, ob') \<Longrightarrow> ob_capacity ob' = ob_capacity ob"
  by (induction items arbitrary: ob) (auto simp: Push_def split: if_splits)

lemma HandleSend_frame:
  assumes "HandleSend now ev p = Some p'"
  shows "inbox p' = inbox p \<and> inbox_size p' = inbox_size p \<and> inbox_capacity p' = inbox_capacity p \<and>
    workers p' = workers p \<and> ob_capacity (outbox p') = ob_capacity (outbox p) \<and>
    permanent_delivery_failure p' = permanent_delivery_failure p \<and>
    (outbox_ok (outbox p) \<longrightarrow> outbox_ok (outbox p'))"
proof -
  obtain out p1 where p1: "Process now ev p = Some (out, p1)"
    using assms by (auto simp: HandleSend_def bind_eq_Some_conv)
  obtain b ob where ob: "PushDiscardingOverflow out (outbox p1) = (b, ob)" by force
  have p': "p' = p1\<lparr>outbox := ob, full_outbox_encountered := \<not> b\<rparr>"
    using assms p1 ob by (simp add: HandleSend_def)
  have "outbox p1 = outbox p" "inbox p1 = inbox p" "inbox_size p1 = inbox_size p" "inbox_capacity p1 = inbox_capacity p"
    "workers p1 = workers p" "permanent_delivery_failure p1 = permanent_delivery_failure p"
    by (subst Process_frame [OF p1], simp)+
  moreover have "outbox_ok (outbox p) \<Longrightarrow> outbox_ok ob"
    using ob PushDiscardingOverflow_eq [of "outbox p1" out] \<open>outbox p1 = outbox p\<close> by (auto simp: outbox_ok_def)
  ultimately show ?thesis
    using capacity_PushDiscardingOverflow [OF ob] by (simp add: p')
qed

lemma first_available_Some:
  "first_available i ws = Some j \<Longrightarrow> i \<le> j \<and> j - i < length ws \<and> Available (ws ! (j - i))"
proof (induction ws arbitrary: i)
  case (Cons w ws)
  show ?case
  proof (cases "Available w")
    case False
    then have "Suc i \<le> j \<and> j - Suc i < length ws \<and> Available (ws ! (j - Suc i))" using Cons by simp
    moreover from this have "j - i = Suc (j - Suc i)" by linarith
    ultimately show ?thesis by simp
  qed (use Cons.prems in simp)
qed simp

lemma CreateBatch_frame:
  "CreateBatch now p = (b, p') \<Longrightarrow>
   p' = p\<lparr>outbox := (outbox p)\<lparr>ob_items := []\<rparr>, summarizer := Summarizer_Finish now (summarizer p)\<rparr>"
  by (auto simp: CreateBatch_def Consume_eq Let_def split: if_splits)

lemma Flush_frame:
  "inbox (Flush now trigger p) = inbox p" "inbox_size (Flush now trigger p) = inbox_size p"
  "inbox_capacity (Flush now trigger p) = inbox_capacity p"
  "ob_capacity (outbox (Flush now trigger p)) = ob_capacity (outbox p)"
  "outbox_ok (outbox p) \<Longrightarrow> outbox_ok (outbox (Flush now trigger p))"
  by (auto simp: Flush_def ScheduleFlush_def Let_def outbox_ok_def dest: CreateBatch_frame
      split: option.splits prod.splits)

lemma Flush_workers:
  assumes "list_all worker_ok (workers p)"
  shows "list_all worker_ok (workers (Flush now trigger p))"
proof (cases "first_available 0 (workers p)")
  case None
  then show ?thesis using assms by (simp add: Flush_def ScheduleFlush_def)
next
  case (Some i)
  obtain b p1 where b: "CreateBatch now p = (b, p1)" by force
  have w: "workers p1 = workers p" using CreateBatch_frame [OF b] by simp
  have "i < length (workers p)" "Available (workers p ! i)" using first_available_Some [OF Some] by simp_all
  then have "worker_ok (AsyncDeliver x (workers p ! i))" for x
    using assms by (intro worker_ok_AsyncDeliver) (simp_all add: list_all_length)
  then have "list_all worker_ok ((workers p)[i := AsyncDeliver x (workers p ! i)])" for x
    using assms by (simp add: list_all_update)
  then show ?thesis using assms Some b w by (cases b) (simp_all add: Flush_def ScheduleFlush_def Let_def)
qed

lemma OnEventDeliveryResult_frame:
  "inbox (fold OnEventDeliveryResult calls p) = inbox p"
  "inbox_size (fold OnEventDeliveryResult calls p) = inbox_size p"
  "inbox_capacity (fold OnEventDeliveryResult calls p) = inbox_capacity p"
  "outbox (fold OnEventDeliveryResult calls p) = outbox p"
  "workers (fold OnEventDeliveryResult calls p) = workers p"
  by (induction calls arbitrary: p) (simp_all add: OnEventDeliveryResult_def split: DeliveryResult.splits)

lemma proc_ok_step: "proc_ok p \<Longrightarrow> proc_step op p = Some p' \<Longrightarrow> proc_ok p'"
proof (cases op)
  case (OpSend ev)
  moreover assume "proc_ok p" "proc_step op p = Some p'"
  ultimately show ?thesis by (auto simp: proc_ok_def SendAsync_eq)
next
  case (OpRun now)
  moreover assume ok: "proc_ok p" and "proc_step op p = Some p'"
  ultimately show ?thesis
    by (cases "inbox p") (auto simp: run_posted_def proc_ok_def InboxDecrement_def dest!: HandleSend_frame)
next
  case (OpFlush now)
  moreover assume "proc_ok p" "proc_step op p = Some p'"
  ultimately show ?thesis by (auto simp: proc_ok_def Flush_frame Flush_workers)
next
  case (OpFlushTimer now)
  moreover assume "proc_ok p" "proc_step op p = Some p'"
  ultimately show ?thesis by (auto simp: proc_ok_def Flush_frame Flush_workers)
next
  case (OpResponse parse_date i r)
  moreover assume ok: "proc_ok p" "proc_step op p = Some p'"
  moreover have "worker_ok (snd (OnDeliveryAttempt parse_date r (workers p ! i)))"
    if "i < length (workers p)" "\<not> retry_pending (workers p ! i)"
    using that ok by (intro worker_ok_attempt) (simp_all add: proc_ok_def list_all_length)
  ultimately show ?thesis
    by (auto simp: proc_ok_def OnEventDeliveryResult_frame list_all_update split: prod.splits if_splits)
next
  case (OpRetryTimer i)
  moreover assume ok: "proc_ok p" "proc_step op p = Some p'"
  moreover have "worker_ok (OnRetryTimer (workers p ! i))" if "i < length (workers p)"
    using that ok by (intro worker_ok_timer) (simp_all add: proc_ok_def list_all_length)
  ultimately show ?thesis
    by (auto simp: proc_ok_def list_all_update)
next
  case OpShutdown
  moreover assume "proc_ok p" "proc_step op p = Some p'"
  ultimately show ?thesis by (auto simp: proc_ok_def ShutdownAsync_def)
qed


lemma proc_step_capacities:
  assumes "proc_step op p = Some p'"
  shows "inbox_capacity p' = inbox_capacity p \<and> ob_capacity (outbox p') = ob_capacity (outbox p)"
proof (cases op)
  case (OpRun now)
  then show ?thesis
    using assms by (cases "inbox p") (auto simp: run_posted_def InboxDecrement_def dest!: HandleSend_frame)
qed (use assms in \<open>auto simp: SendAsync_eq Flush_frame OnEventDeliveryResult_frame ShutdownAsync_def
  split: prod.splits\<close>)

lemma proc_perform_inv:
  "proc_ok p \<Longrightarrow> proc_ok (proc_perform op p)"
  "inbox_capacity (proc_perform op p) = inbox_capacity p"
  "ob_capacity (outbox (proc_perform op p)) = ob_capacity (outbox p)"
  using proc_ok_step [of p op] proc_step_capacities [of op p]
  by (auto simp: proc_perform_def split: option.splits)

interpretation inbox_bound: bounded_component proc_ok "\<lambda>p. length (inbox p)" inbox_capacity proc_perform
  by unfold_locales (simp_all add: proc_perform_inv, simp add: proc_ok_def)

interpretation outbox_bound: bounded_component proc_ok "\<lambda>p. length (ob_items (outbox p))"
    "\<lambda>p. ob_capacity (outbox p)" proc_perform
  by unfold_locales (simp_all add: proc_perform_inv, simp add: proc_ok_def outbox_ok_def)

lemma permanent_failure_step:
  "permanent_delivery_failure p \<Longrightarrow> permanent_delivery_failure (proc_perform op p) \<and> (\<exists>k. inbox (proc_perform op p) = drop k (inbox p))"
proof -
  assume pf: "permanent_delivery_failure p"
  have fl: "permanent_delivery_failure (Flush now trigger p1) = permanent_delivery_failure p1" for now trigger p1
    by (auto simp: Flush_def ScheduleFlush_def Let_def dest: CreateBatch_frame split: option.splits prod.splits)
  have calls: "permanent_delivery_failure p1 \<Longrightarrow> permanent_delivery_failure (fold OnEventDeliveryResult cs p1)" for cs p1
    by (induction cs arbitrary: p1) (simp_all add: OnEventDeliveryResult_def split: DeliveryResult.splits)
  show ?thesis
  proof (cases op)
    case (OpRun now)
    show ?thesis
    proof (cases "inbox p")
      case Nil
      then show ?thesis using pf OpRun by (simp add: proc_perform_def run_posted_def)
    next
      case (Cons ev rest)
      let ?p = "InboxDecrement (p\<lparr>inbox := rest\<rparr>)"
      have p1: "inbox ?p = drop 1 (inbox p)" "permanent_delivery_failure ?p"
        using Cons pf by (simp_all add: InboxDecrement_def)
      show ?thesis
      proof (cases "HandleSend now ev ?p")
        case None
        then show ?thesis
          using OpRun Cons pf by (simp add: proc_perform_def run_posted_def exI [of _ "0::nat"])
      next
        case (Some p')
        then have "proc_perform op p = p'" using OpRun Cons by (simp add: proc_perform_def run_posted_def)
        then show ?thesis using HandleSend_frame [OF Some] p1 by (metis (no_types))
      qed
    qed
  qed (use pf in \<open>auto simp: proc_perform_def SendAsync_eq Flush_frame fl calls
      OnEventDeliveryResult_frame ShutdownAsync_def intro!: exI [of _ "0::nat"] split: prod.splits\<close>)
qed

section \<open>Properties\<close>

text \<open>
  C29. A batch is sent at most twice. A worker that takes it makes one request; only when
  that fails transiently, and not because the payload was too large, it makes a second one
  after its timer. Then the batch is dropped, the worker is idle again, or failed for good
  when the last answer was a failure that is not transient, and the owner is called back
  at most once, for a permanent failure exactly then.
\<close>

theorem batch_sent_at_most_twice:
  assumes "worker_ok w" and "Available w"
    and "OnDeliveryAttempt parse_date r1 (AsyncDeliver b w) = (calls1, w1)"
    and "OnDeliveryAttempt parse_date r2 (OnRetryTimer w1) = (calls2, w2)"
    and "retried \<longleftrightarrow> \<not> IsSuccess r1 \<and> IsTransientFailure r1 \<and> IsRetryable (res_status r1)"
    and "r = (if retried then r2 else r1)"
  shows "rw_requests w2 = rw_requests w @ (if retried then [b, b] else [b]) \<and>
    rw_batch w2 = None \<and> \<not> retry_pending w2 \<and>
    rw_state w2 = (if IsSuccess r \<or> IsTransientFailure r then Idle else PermanentlyFailed) \<and>
    length (calls1 @ calls2) \<le> 1 \<and>
    ((c, PermanentFailure s) \<in> set (calls1 @ calls2) \<longleftrightarrow>
      rw_state w2 = PermanentlyFailed \<and> c = Batch_Count b \<and> s = res_status r)"
proof -
  have idle: "rw_state w = Idle" "rw_batch w = None" "\<not> retry_pending w"
    using assms(1,2) by (auto simp: worker_ok_def Available_def)
  show ?thesis
  proof (cases retried)
    case True
    then have "calls1 = []" "w1 = w\<lparr>rw_state := SecondChance, rw_batch := Some b, rw_requests := rw_requests w @ [b],
        retry_pending := True\<rparr>"
      using assms(3,5) by (auto simp: OnDeliveryAttempt_def AsyncDeliver_def NextState_def)
    then show ?thesis
      using True assms(4,6) idle
      by (auto simp: OnRetryTimer_def OnDeliveryAttempt_def NextState_def Let_def split: option.splits if_splits)
  next
    case False
    then have "rw_state w1 = (if IsSuccess r1 \<or> IsTransientFailure r1 then Idle else PermanentlyFailed)"
      "rw_batch w1 = None" "\<not> retry_pending w1" "rw_requests w1 = rw_requests w @ [b]" "length calls1 \<le> 1"
      "(c, PermanentFailure s) \<in> set calls1 \<longleftrightarrow>
        \<not> IsSuccess r1 \<and> \<not> IsTransientFailure r1 \<and> c = Batch_Count b \<and> s = res_status r1"
      using assms(3,5) idle
      by (auto simp: OnDeliveryAttempt_def AsyncDeliver_def NextState_def Let_def split: option.splits if_splits)
    moreover from this have "calls2 = []" "w2 = w1"
      using assms(4) by (auto simp: OnRetryTimer_def OnDeliveryAttempt_def NextState_def split: if_splits)
    ultimately show ?thesis using False assms(6) by auto
  qed
qed

definition sample_batch :: EventBatch where
  "sample_batch = \<lparr>batch_events = [OutIdentify \<lparr>ie_creation_date = 0, ie_context = JNull\<rparr>], batch_summary = None\<rparr>"

definition sample_response :: "u64 \<Rightarrow> HttpResult" where
  "sample_response s = \<lparr>res_error = False, res_status = s, res_headers = []\<rparr>"

theorem batch_sent_at_most_twice_witness:
  "\<exists>calls1 w1 calls2 w2.
     OnDeliveryAttempt None (sample_response 503) (AsyncDeliver sample_batch MakeRequestWorker) = (calls1, w1) \<and>
     OnDeliveryAttempt None (sample_response 401) (OnRetryTimer w1) = (calls2, w2) \<and>
     rw_requests w2 = [sample_batch, sample_batch] \<and> rw_state w2 = PermanentlyFailed"
proof -
  obtain calls1 w1 where w1:
    "OnDeliveryAttempt None (sample_response 503) (AsyncDeliver sample_batch MakeRequestWorker) = (calls1, w1)"
    by force
  obtain calls2 w2 where w2: "OnDeliveryAttempt None (sample_response 401) (OnRetryTimer w1) = (calls2, w2)"
    by force
  show ?thesis
    using batch_sent_at_most_twice [OF worker_ok_new _ w1 w2 refl refl] w1 w2
    by (simp add: Available_def MakeRequestWorker_def sample_response_def IsSuccess_def IsTransientFailure_def
        IsRetryable_def http_status_def)
qed

text \<open>
  A flush hands everything over, or keeps everything. With no worker available the
  events and the summary stay where they are. Otherwise the first available worker is
  sent one batch with all the events of the outbox in order, and with the summary unless
  it is empty; the outbox and the summary start afresh, and no other worker is touched.
  A batch with nothing in it is not sent.
\<close>

theorem flush_hands_over:
  assumes "p' = Flush now trigger p"
  shows "(list_all (\<lambda>w. \<not> Available w) (workers p) \<longrightarrow>
      outbox p' = outbox p \<and> summarizer p' = summarizer p \<and> workers p' = workers p) \<and>
    (\<forall>i. i < length (workers p) \<and> Available (workers p ! i) \<and> list_all (\<lambda>w. \<not> Available w) (take i (workers p)) \<longrightarrow>
      ob_items (outbox p') = [] \<and> features (summarizer p') = [] \<and>
      workers p' =
        (if ob_items (outbox p) = [] \<and> features (summarizer p) = [] then workers p
         else (workers p)[i := AsyncDeliver
           \<lparr>batch_events = ob_items (outbox p),
            batch_summary = (if features (summarizer p) = [] then None else Some (Summarizer_Finish now (summarizer p)))\<rparr>
           (workers p ! i)]))"
proof -
  have none: "list_all (\<lambda>w. \<not> Available w) ws \<Longrightarrow> first_available k ws = None" for ws k
    by (induction ws arbitrary: k) auto
  have some: "i < length ws \<Longrightarrow> Available (ws ! i) \<Longrightarrow> list_all (\<lambda>w. \<not> Available w) (take i ws) \<Longrightarrow>
      first_available k ws = Some (k + i)" for ws k i
  proof (induction ws arbitrary: k i)
    case (Cons w ws)
    then show ?case by (cases i) auto
  qed simp
  show ?thesis
    using none [of "workers p" 0] some [of _ "workers p" 0] assms
    by (auto simp: Flush_def ScheduleFlush_def CreateBatch_def Consume_eq Summarizer_Empty_def Summarizer_Finish_def
        MakeSummarizer_def Let_def)
qed

definition sample_processor :: Processor where
  "sample_processor = MakeProcessor True 0 2 2 sample_filter (Some 1)"

theorem flush_hands_over_witness:
  "workers (Flush 7 Manual (sample_processor\<lparr>outbox := \<lparr>ob_items = batch_events sample_batch, ob_capacity = 2\<rparr>\<rparr>)) =
     [AsyncDeliver sample_batch MakeRequestWorker, MakeRequestWorker]"
proof -
  let ?p = "sample_processor\<lparr>outbox := \<lparr>ob_items = batch_events sample_batch, ob_capacity = 2\<rparr>\<rparr>"
  have ws: "workers ?p = [MakeRequestWorker, MakeRequestWorker]"
    by (simp add: sample_processor_def MakeProcessor_def numeral_2_eq_2)
  have "Available (workers ?p ! 0)" by (simp add: ws Available_def MakeRequestWorker_def)
  then have "workers (Flush 7 Manual ?p) = (workers ?p)[0 := AsyncDeliver sample_batch (workers ?p ! 0)]"
    using conjunct2 [OF flush_hands_over [OF refl, of ?p 7 Manual], THEN spec, of 0] ws
    by (simp add: sample_batch_def sample_processor_def MakeProcessor_def MakeSummarizer_def)
  then show ?thesis by (simp add: ws)
qed

text \<open>
  A processor holds a bounded number of events and fails for good: whatever is done to
  it, in whatever order, the events waiting for the strand and the events waiting for
  delivery are each at most the configured capacity, a worker has a batch exactly while it
  delivers one, and after a permanent delivery failure no event enters any more.
\<close>

theorem processor_bounded:
  assumes "p = fold proc_perform ops (MakeProcessor server now capacity n filt cache)"
  shows "length (inbox p) \<le> capacity \<and> length (ob_items (outbox p)) \<le> capacity \<and> list_all worker_ok (workers p) \<and>
    (permanent_delivery_failure p \<longrightarrow> (\<exists>k. inbox (fold proc_perform ops' p) = drop k (inbox p)))"
proof -
  note ok = proc_ok_new [of server now capacity n filt cache]
  have "\<exists>k. inbox (fold proc_perform ops' q) = drop k (inbox q)" if "permanent_delivery_failure q" for q
    using that
  proof (induction ops' arbitrary: q)
    case Nil
    show ?case by (intro exI [of _ "0::nat"]) simp
  next
    case (Cons op ops')
    obtain k where k: "inbox (proc_perform op q) = drop k (inbox q)" and pf: "permanent_delivery_failure (proc_perform op q)"
      using permanent_failure_step [OF Cons.prems] by blast
    obtain m where "inbox (fold proc_perform ops' (proc_perform op q)) = drop m (inbox (proc_perform op q))"
      using Cons.IH [OF pf] by blast
    then show ?case by (intro exI [of _ "m + k"]) (simp add: k)
  qed
  moreover have "list_all worker_ok (workers p)"
    using inbox_bound.inv_run [OF ok, of ops] assms by (simp add: proc_ok_def)
  moreover have "length (inbox p) \<le> capacity" "length (ob_items (outbox p)) \<le> capacity"
    using inbox_bound.size_run [OF ok, of ops] outbox_bound.size_run [OF ok, of ops] assms
    by (simp_all add: MakeProcessor_def MakeOutbox_def)
  ultimately show ?thesis by blast
qed

theorem processor_bounded_witness:
  "\<exists>p. p = fold proc_perform [OpSend (InFeature (sample_evaluation ''f'' True)), OpSend (InFeature (sample_evaluation ''f'' True))]
       (MakeProcessor False 0 1 1 \<lparr>all_attributes_private = False, global_private_attributes = []\<rparr> None) \<and>
     length (inbox p) \<le> 1 \<and> full_inbox_encountered p"
  using processor_bounded [OF refl, of "[OpSend (InFeature (sample_evaluation ''f'' True)), OpSend (InFeature (sample_evaluation ''f'' True))]"
    False 0 1 1 "\<lparr>all_attributes_private = False, global_private_attributes = []\<rparr>" None "[]"]
  by (simp add: proc_perform_def SendAsync_eq MakeProcessor_def)

text \<open>
  C28. What a server-side processor makes of an evaluation: the evaluation is counted in
  the summary; an index event for the context goes out exactly when the context's key is
  not among the recently noticed ones; a debug event exactly when debugging was requested
  until a time that neither the clock nor the time the server last told has reached, the epoch
  standing for that time as long as the server has told none; a full feature event exactly when one
  was asked for. They go out in this order and nothing else does. The context has the
  attributes of each of its kinds, so that it can be filtered.
\<close>

theorem feature_event_outputs:
  assumes "is_server p" and "lru_holds recent (context_key_cache p)"
    and "Filter (context_filter p) (fp_context ev) = Some j"
    and "FilterWithAnonymousRedaction (context_filter p) (fp_context ev) = Some jr"
  shows "\<exists>outs p'. Process now (InFeature ev) p = Some (outs, p') \<and>
    outs =
      (if canonical_key (fp_context ev) \<in> set (take (lru_capacity (context_key_cache p)) recent) then []
       else [OutIndex \<lparr>ix_creation_date = fp_creation_date ev, ix_context = j\<rparr>]) @
      (if \<exists>t. debug_events_until_date ev = Some t \<and> now < t \<and>
           (case last_known_past_time p of Some server_time \<Rightarrow> server_time < t | None \<Rightarrow> 0 < t)
       then [OutDebug (MakeFeatureEventBase ev) j] else []) @
      (if require_full_event ev then [OutFeature (MakeFeatureEventBase ev) jr] else []) \<and>
    lru_holds (touch (canonical_key (fp_context ev)) recent) (context_key_cache p') \<and>
    counter_of (summarizer p') (fp_key ev) (variation_key ev) =
      Some (Increment (case counter_of (summarizer p) (fp_key ev) (variation_key ev) of
        Some c \<Rightarrow> c | None \<Rightarrow> \<lparr>vs_count = 0, vs_value = fp_value ev\<rparr>))"
proof -
  let ?seen = "canonical_key (fp_context ev) \<in> set (take (lru_capacity (context_key_cache p)) recent)"
  obtain cache where cache: "Notice (canonical_key (fp_context ev)) (context_key_cache p) = Some (?seen, cache)"
    "lru_holds (touch (canonical_key (fp_context ev)) recent) cache"
    using Notice_holds [OF assms(2)] by blast
  let ?p = "p\<lparr>summarizer := Summarizer_Update ev (summarizer p), context_key_cache := cache\<rparr>"
  have index: "index_event (fp_creation_date ev) (fp_context ev) (p\<lparr>summarizer := Summarizer_Update ev (summarizer p)\<rparr>) =
      Some (if ?seen then [] else [OutIndex \<lparr>ix_creation_date = fp_creation_date ev, ix_context = j\<rparr>], ?p)"
    using cache(1) assms(1,3) by (simp add: index_event_def)
  show ?thesis
    using assms(3,4) cache(2)
    by (cases "debug_events_until_date ev"; cases "last_known_past_time p")
      (simp_all add: index Let_def counter_of_Update counted_def)
qed

definition sample_event :: FeatureEventParams where
  "sample_event = (sample_evaluation ''f'' True)
     \<lparr>fp_context := \<lparr>ctx_attributes = [(''user'', sample_attributes)], ctx_kinds = [''user''],
        kinds_to_keys = [(''user'', ''u'')], ctx_valid = True, ctx_errors = [], canonical_key = ''u''\<rparr>,
      debug_events_until_date := Some 6\<rparr>"

theorem feature_event_outputs_witness:
  "\<exists>p' j. Process 5 (InFeature sample_event) sample_processor =
     Some ([OutIndex \<lparr>ix_creation_date = 0, ix_context = j\<rparr>, OutDebug (MakeFeatureEventBase sample_event) j], p')"
proof -
  let ?p = "sample_processor"
  have p: "is_server ?p" "lru_holds [] (context_key_cache ?p)" "last_known_past_time ?p = None"
    by (simp_all add: sample_processor_def MakeProcessor_def lru_holds_def MakeLRUCache_def)
  have f: "Filter (context_filter ?p) (fp_context sample_event) =
      Some (FilterSingleContext sample_filter ''user'' True sample_attributes False)"
    "FilterWithAnonymousRedaction (context_filter ?p) (fp_context sample_event) =
      Some (FilterSingleContext sample_filter ''user'' True sample_attributes True)"
    by (simp_all add: Filter_def FilterWithAnonymousRedaction_def Filter_context_def Context_Attributes_def
        sample_event_def sample_processor_def MakeProcessor_def)
  have ev: "fp_creation_date sample_event = 0" "debug_events_until_date sample_event = Some 6"
    "\<not> require_full_event sample_event"
    by (simp_all add: sample_event_def sample_evaluation_def)
  show ?thesis
    using feature_event_outputs [OF p(1,2) f, of 5]
    by (auto simp: ev p(3) simp del: Process.simps)
qed

end
