(* ===== verification/Json_Mapping.thy ===== *)
theory Json_Mapping
  imports Data_Model Context_Filter
begin

text \<open>
  The conversions between JSON values and the program's own types: the primitive types and
  containers (\<^verbatim>\<open>json_primitives.hpp\<close> and \<^verbatim>\<open>json_primitives.cpp\<close>), the field macros
  (\<^verbatim>\<open>value_mapping.hpp\<close>) as functions from the object to the value of the field, and
  \<^verbatim>\<open>Value\<close> (\<^verbatim>\<open>json_value.cpp\<close>). A conversion
  \<^verbatim>\<open>value_to<tl::expected<std::optional<T>, JsonError>>\<close> is a \<open>parser\<close> of \<open>T\<close>. The exact
  conversions of JSON numbers are functions of Boost and parameters here.
\<close>

section \<open>Errors, numbers and parsers\<close>

datatype JsonError =
    kSchemaFailure
  | kContextMissingKindField | kContextInvalidKindField | kContextMustBeObject
  | kContextMissingKeyField | kContextInvalidKeyField | kContextInvalidNameField
  | kContextInvalidAnonymousField | kContextInvalidMetaField | kContextInvalidSecondaryField
  | kContextInvalidAttributeReference | kContextInvalidPrivateAttributesField
  | kTombstoneInvalidDeletedField

text \<open>
  \<^verbatim>\<open>to_number<T>(error_code)\<close>: the number as a \<open>T\<close>, or an error when that is not exact.
\<close>

record numbers =
  to_uint64 :: "json \<Rightarrow> u64 option"
  to_int64 :: "json \<Rightarrow> i64 option"
  to_f64 :: "json \<Rightarrow> double"

type_synonym 'a parser = "json \<Rightarrow> JsonError + 'a option"
type_synonym json_object = "(string \<times> json) list"

fun res_bind :: "'e + 'a \<Rightarrow> ('a \<Rightarrow> 'e + 'b) \<Rightarrow> 'e + 'b" where
  "res_bind (Inl e) f = Inl e"
| "res_bind (Inr x) f = f x"

fun is_number :: "json \<Rightarrow> bool" where
  "is_number (JInt64 _) = True"
| "is_number (JUint64 _) = True"
| "is_number (JNumber _) = True"
| "is_number _ = False"

fun parse_bool :: "bool parser" where
  "parse_bool JNull = Inr None"
| "parse_bool (JBool b) = Inr (Some b)"
| "parse_bool _ = Inl kSchemaFailure"

definition parse_uint64 :: "numbers \<Rightarrow> u64 parser" where
  "parse_uint64 N j =
     (if j = JNull then Inr None
      else if \<not> is_number j then Inl kSchemaFailure
      else case to_uint64 N j of None \<Rightarrow> Inl kSchemaFailure | Some n \<Rightarrow> Inr (Some n))"

definition parse_int64 :: "numbers \<Rightarrow> i64 parser" where
  "parse_int64 N j =
     (if j = JNull then Inr None
      else if \<not> is_number j then Inl kSchemaFailure
      else case to_int64 N j of None \<Rightarrow> Inl kSchemaFailure | Some n \<Rightarrow> Inr (Some n))"

fun parse_string :: "string parser" where
  "parse_string JNull = Inr None"
| "parse_string (JString s) = Inr (Some s)"
| "parse_string _ = Inl kSchemaFailure"

text \<open>The items of a vector: null items are left out.\<close>

fun parse_items :: "'a parser \<Rightarrow> json list \<Rightarrow> JsonError + 'a list" where
  "parse_items p [] = Inr []"
| "parse_items p (j # js) =
     res_bind (p j) (\<lambda>m. res_bind (parse_items p js) (\<lambda>xs.
       Inr (case m of Some x \<Rightarrow> x # xs | None \<Rightarrow> xs)))"

fun parse_vector :: "'a parser \<Rightarrow> 'a list parser" where
  "parse_vector p JNull = Inr None"
| "parse_vector p (JArray js) = res_bind (parse_items p js) (\<lambda>xs. Inr (Some xs))"
| "parse_vector p _ = Inl kSchemaFailure"

fun parse_entries :: "'a parser \<Rightarrow> json_object \<Rightarrow> (string \<times> 'a) list \<Rightarrow> JsonError + (string \<times> 'a) list" where
  "parse_entries p [] descriptors = Inr descriptors"
| "parse_entries p ((k, j) # kvs) descriptors =
     res_bind (p j) (\<lambda>m.
       parse_entries p kvs (case m of Some x \<Rightarrow> umap_emplace k x descriptors | None \<Rightarrow> descriptors))"

fun parse_unordered_map :: "'a parser \<Rightarrow> (string \<times> 'a) list parser" where
  "parse_unordered_map p JNull = Inr None"
| "parse_unordered_map p (JObject kvs) = res_bind (parse_entries p kvs []) (\<lambda>m. Inr (Some m))"
| "parse_unordered_map p _ = Inl kSchemaFailure"

text \<open>\<^verbatim>\<open>value_to<tl::expected<T, JsonError>>\<close>, with the default \<open>T()\<close>.\<close>

definition parse_or_default :: "'a \<Rightarrow> JsonError + 'a option \<Rightarrow> JsonError + 'a" where
  "parse_or_default d r = res_bind r (\<lambda>m. Inr (case m of Some x \<Rightarrow> x | None \<Rightarrow> d))"

section \<open>The field macros\<close>

definition PARSE_CONDITIONAL_FIELD :: "'a parser \<Rightarrow> json_object \<Rightarrow> string \<Rightarrow> JsonError + 'a option" where
  "PARSE_CONDITIONAL_FIELD p obj key =
     (case map_of obj key of None \<Rightarrow> Inr None | Some j \<Rightarrow> p j)"

definition PARSE_FIELD_DEFAULT :: "'a parser \<Rightarrow> json_object \<Rightarrow> string \<Rightarrow> 'a \<Rightarrow> JsonError + 'a" where
  "PARSE_FIELD_DEFAULT p obj key default_value =
     res_bind (PARSE_CONDITIONAL_FIELD p obj key) (\<lambda>maybe_val.
       Inr (case maybe_val of Some x \<Rightarrow> x | None \<Rightarrow> default_value))"

definition PARSE_REQUIRED_FIELD :: "'a parser \<Rightarrow> json_object \<Rightarrow> string \<Rightarrow> JsonError + 'a" where
  "PARSE_REQUIRED_FIELD p obj key =
     (case map_of obj key of
        None \<Rightarrow> Inl kSchemaFailure
      | Some j \<Rightarrow> res_bind (p j) (\<lambda>maybe_val.
          case maybe_val of None \<Rightarrow> Inl kSchemaFailure | Some x \<Rightarrow> Inr x))"

fun REQUIRE_OBJECT :: "(json_object \<Rightarrow> JsonError + 'a option) \<Rightarrow> 'a parser" where
  "REQUIRE_OBJECT body JNull = Inr None"
| "REQUIRE_OBJECT body (JObject obj) = body obj"
| "REQUIRE_OBJECT body _ = Inl kSchemaFailure"

fun REQUIRE_STRING :: "(string \<Rightarrow> JsonError + 'a option) \<Rightarrow> 'a parser" where
  "REQUIRE_STRING body JNull = Inr None"
| "REQUIRE_STRING body (JString str) = body str"
| "REQUIRE_STRING body _ = Inl kSchemaFailure"

text \<open>
  \<^verbatim>\<open>WriteMinimal\<close> writes a field only when it has something to say.
\<close>

definition WriteMinimal_opt :: "('a \<Rightarrow> json) \<Rightarrow> string \<Rightarrow> 'a option \<Rightarrow> json_object \<Rightarrow> json_object" where
  "WriteMinimal_opt value_from key val obj =
     (case val of Some x \<Rightarrow> object_emplace key (value_from x) obj | None \<Rightarrow> obj)"

definition WriteMinimal_vector :: "('a \<Rightarrow> json) \<Rightarrow> string \<Rightarrow> 'a list \<Rightarrow> json_object \<Rightarrow> json_object" where
  "WriteMinimal_vector value_from key val obj =
     (if val \<noteq> [] then object_emplace key (JArray (map value_from val)) obj else obj)"

definition WriteMinimal_if :: "('a \<Rightarrow> json) \<Rightarrow> string \<Rightarrow> 'a \<Rightarrow> bool \<Rightarrow> json_object \<Rightarrow> json_object" where
  "WriteMinimal_if value_from key val predicate obj =
     (if predicate then object_emplace key (value_from val) obj else obj)"

definition WriteMinimal_bool :: "string \<Rightarrow> bool \<Rightarrow> json_object \<Rightarrow> json_object" where
  "WriteMinimal_bool key val obj = (if val then object_emplace key (JBool val) obj else obj)"

text \<open>
  \<^verbatim>\<open>ValueAsOpt\<close> and \<^verbatim>\<open>ValueOrDefault\<close> take what \<^verbatim>\<open>find\<close> gives. An integer is converted without
  an error code, so that a number that is not one makes them throw.
\<close>

datatype 'a outcome = Threw | Returned 'a

fun outcome_bind :: "'a outcome \<Rightarrow> ('a \<Rightarrow> 'b outcome) \<Rightarrow> 'b outcome" where
  "outcome_bind Threw f = Threw"
| "outcome_bind (Returned x) f = f x"

definition ValueAsOpt_u64 :: "numbers \<Rightarrow> json option \<Rightarrow> u64 option outcome" where
  "ValueAsOpt_u64 N iterator =
     (case iterator of
        None \<Rightarrow> Returned None
      | Some j \<Rightarrow>
          if is_number j then (case to_uint64 N j of Some n \<Rightarrow> Returned (Some n) | None \<Rightarrow> Threw)
          else Returned None)"

definition ValueAsOpt_string :: "json option \<Rightarrow> string option" where
  "ValueAsOpt_string iterator = (case iterator of Some (JString s) \<Rightarrow> Some s | _ \<Rightarrow> None)"

fun strings_of :: "json list \<Rightarrow> string list option" where
  "strings_of [] = Some []"
| "strings_of (JString s # js) = map_option (Cons s) (strings_of js)"
| "strings_of (_ # js) = None"

definition ValueAsOpt_strings :: "json option \<Rightarrow> string list option" where
  "ValueAsOpt_strings iterator = (case iterator of Some (JArray js) \<Rightarrow> strings_of js | _ \<Rightarrow> None)"

definition ValueOrDefault_bool :: "json option \<Rightarrow> bool \<Rightarrow> bool" where
  "ValueOrDefault_bool iterator default_value =
     (case iterator of Some (JBool b) \<Rightarrow> b | _ \<Rightarrow> default_value)"

section \<open>Values\<close>

text \<open>
  The keys of an object go through \<^verbatim>\<open>data()\<close> when read and through \<^verbatim>\<open>c_str()\<close> when written,
  so they end at their first NUL.
\<close>

fun parse_Value :: "numbers \<Rightarrow> Value parser"
  and parse_Value_items :: "numbers \<Rightarrow> json list \<Rightarrow> JsonError + Value list"
  and parse_Value_members :: "numbers \<Rightarrow> json_object \<Rightarrow> (string \<times> Value) list \<Rightarrow> JsonError + (string \<times> Value) list" where
  "parse_Value N JNull = Inr (Some VNull)"
| "parse_Value N (JBool b) = Inr (Some (VBool b))"
| "parse_Value N (JInt64 n) = Inr (Some (VNumber (to_f64 N (JInt64 n))))"
| "parse_Value N (JUint64 n) = Inr (Some (VNumber (to_f64 N (JUint64 n))))"
| "parse_Value N (JNumber x) = Inr (Some (VNumber x))"
| "parse_Value N (JString s) = Inr (Some (VString s))"
| "parse_Value N (JArray js) = res_bind (parse_Value_items N js) (\<lambda>vs. Inr (Some (VArray vs)))"
| "parse_Value N (JObject kvs) = res_bind (parse_Value_members N kvs []) (\<lambda>m. Inr (Some (VObject m)))"
| "parse_Value_items N [] = Inr []"
| "parse_Value_items N (j # js) =
     res_bind (parse_or_default VNull (parse_Value N j)) (\<lambda>v.
       res_bind (parse_Value_items N js) (\<lambda>vs. Inr (v # vs)))"
| "parse_Value_members N [] m = Inr m"
| "parse_Value_members N ((k, j) # kvs) m =
     res_bind (parse_or_default VNull (parse_Value N j)) (\<lambda>v.
       parse_Value_members N kvs (omap_emplace (c_str k) v m))"

definition value_to_Value :: "numbers \<Rightarrow> json \<Rightarrow> Value" where
  "value_to_Value N j =
     (case parse_or_default VNull (parse_Value N j) of Inr v \<Rightarrow> v | Inl _ \<Rightarrow> VNull)"

fun Value_json :: "Value \<Rightarrow> json"
  and Value_members_json :: "(string \<times> Value) list \<Rightarrow> json_object \<Rightarrow> json_object" where
  "Value_json VNull = JNull"
| "Value_json (VBool b) = JBool b"
| "Value_json (VNumber x) = JNumber x"
| "Value_json (VString s) = JString s"
| "Value_json (VArray vs) = JArray (map Value_json vs)"
| "Value_json (VObject kvs) = JObject (Value_members_json kvs [])"
| "Value_members_json [] obj = obj"
| "Value_members_json ((k, v) # kvs) obj =
     Value_members_json kvs (object_assign (c_str k) (Value_json v) obj)"

section \<open>Reading back what was written\<close>

lemma member_other [simp]:
  "k \<noteq> k' \<Longrightarrow> map_of (object_emplace k j obj) k' = map_of obj k'"
  "k \<noteq> k' \<Longrightarrow> map_of (WriteMinimal_opt w k v obj) k' = map_of obj k'"
  "k \<noteq> k' \<Longrightarrow> map_of (WriteMinimal_vector w k xs obj) k' = map_of obj k'"
  "k \<noteq> k' \<Longrightarrow> map_of (WriteMinimal_if w k x b obj) k' = map_of obj k'"
  "k \<noteq> k' \<Longrightarrow> map_of (WriteMinimal_bool k b obj) k' = map_of obj k'"
  by (auto simp: object_emplace_def WriteMinimal_opt_def WriteMinimal_vector_def WriteMinimal_if_def
      WriteMinimal_bool_def map_add_def split: option.splits)

lemma member_written [simp]:
  "map_of obj k = None \<Longrightarrow> map_of (object_emplace k j obj) k = Some j"
  "map_of obj k = None \<Longrightarrow> map_of (WriteMinimal_opt w k v obj) k = map_option w v"
  "map_of obj k = None \<Longrightarrow>
     map_of (WriteMinimal_vector w k xs obj) k = (if xs \<noteq> [] then Some (JArray (map w xs)) else None)"
  "map_of obj k = None \<Longrightarrow> map_of (WriteMinimal_if w k x b obj) k = (if b then Some (w x) else None)"
  "map_of obj k = None \<Longrightarrow>
     map_of (WriteMinimal_bool k b obj) k = (if b then Some (JBool True) else None)"
  by (auto simp: object_emplace_def WriteMinimal_opt_def WriteMinimal_vector_def WriteMinimal_if_def
      WriteMinimal_bool_def map_add_def split: option.splits)

lemma parse_items_map:
  "(\<And>x. x \<in> set xs \<Longrightarrow> p (w x) = Inr (Some (g x))) \<Longrightarrow> parse_items p (map w xs) = Inr (map g xs)"
  by (induction xs) auto

lemma parse_items_written:
  "(\<And>x. x \<in> set xs \<Longrightarrow> p (w x) = Inr (Some x)) \<Longrightarrow> parse_items p (map w xs) = Inr xs"
  using parse_items_map [of xs p w "\<lambda>x. x"] by simp

lemma field_required:
  "map_of obj k = Some j \<Longrightarrow> p j = Inr (Some x) \<Longrightarrow> PARSE_REQUIRED_FIELD p obj k = Inr x"
  by (simp add: PARSE_REQUIRED_FIELD_def)

lemma field_written:
  "map_of obj k = Some j \<Longrightarrow> p j = Inr (Some x) \<Longrightarrow> PARSE_FIELD_DEFAULT p obj k d = Inr x"
  by (simp add: PARSE_FIELD_DEFAULT_def PARSE_CONDITIONAL_FIELD_def)

lemma field_absent:
  "map_of obj k = None \<Longrightarrow> PARSE_FIELD_DEFAULT p obj k d = Inr d"
  by (simp add: PARSE_FIELD_DEFAULT_def PARSE_CONDITIONAL_FIELD_def)

lemma field_optional:
  "map_of obj k = map_option w v \<Longrightarrow> (\<And>x. v = Some x \<Longrightarrow> p (w x) = Inr (Some x)) \<Longrightarrow>
     PARSE_CONDITIONAL_FIELD p obj k = Inr v"
  by (cases v) (auto simp: PARSE_CONDITIONAL_FIELD_def)

lemma field_bool:
  "map_of obj k = (if b then Some (JBool True) else None) \<Longrightarrow>
     PARSE_FIELD_DEFAULT parse_bool obj k False = Inr b"
  by (cases b) (auto simp: PARSE_FIELD_DEFAULT_def PARSE_CONDITIONAL_FIELD_def)

lemma field_minimal:
  "map_of obj k = (if b then Some j else None) \<Longrightarrow> (b \<Longrightarrow> p j = Inr (Some x)) \<Longrightarrow> (\<not> b \<Longrightarrow> d = x) \<Longrightarrow>
     PARSE_FIELD_DEFAULT p obj k d = Inr x"
  by (cases b) (auto simp: PARSE_FIELD_DEFAULT_def PARSE_CONDITIONAL_FIELD_def)

lemma field_vector_map:
  "map_of obj k = (if xs \<noteq> [] then Some (JArray (map w xs)) else None) \<Longrightarrow>
     (\<And>x. x \<in> set xs \<Longrightarrow> p (w x) = Inr (Some (g x))) \<Longrightarrow>
     PARSE_FIELD_DEFAULT (parse_vector p) obj k [] = Inr (map g xs)"
  by (cases "xs = []") (auto simp: PARSE_FIELD_DEFAULT_def PARSE_CONDITIONAL_FIELD_def parse_items_map)

lemma field_vector:
  "map_of obj k = (if xs \<noteq> [] then Some (JArray (map w xs)) else None) \<Longrightarrow>
     (\<And>x. x \<in> set xs \<Longrightarrow> p (w x) = Inr (Some x)) \<Longrightarrow>
     PARSE_FIELD_DEFAULT (parse_vector p) obj k [] = Inr xs"
  using field_vector_map [of obj k xs w p "\<lambda>x. x"] by simp

lemma field_vector_written:
  "map_of obj k = Some (JArray (map w xs)) \<Longrightarrow>
     (\<And>x. x \<in> set xs \<Longrightarrow> p (w x) = Inr (Some x)) \<Longrightarrow>
     PARSE_FIELD_DEFAULT (parse_vector p) obj k d = Inr xs"
  by (simp add: PARSE_FIELD_DEFAULT_def PARSE_CONDITIONAL_FIELD_def parse_items_written)

lemma parse_vector_written:
  "(\<And>x. x \<in> set xs \<Longrightarrow> p (w x) = Inr (Some x)) \<Longrightarrow>
     parse_vector p (JArray (map w xs)) = Inr (Some xs)"
  by (simp add: parse_items_written)

text \<open>
  A value whose objects have sorted keys without a NUL, as \<^verbatim>\<open>std::map\<close> keeps them.
\<close>

fun writable :: "Value \<Rightarrow> bool" where
  "writable (VArray vs) \<longleftrightarrow> (\<forall>v\<in>set vs. writable v)"
| "writable (VObject kvs) \<longleftrightarrow> omap_ok kvs \<and> (\<forall>kv\<in>set kvs. NUL \<notin> set (fst kv) \<and> writable (snd kv))"
| "writable v \<longleftrightarrow> True"

lemma Value_members_json_eq:
  "distinct (map fst obj @ map fst kvs) \<Longrightarrow> \<forall>kv\<in>set kvs. NUL \<notin> set (fst kv) \<Longrightarrow>
     Value_members_json kvs obj = obj @ map (\<lambda>(k, v). (k, Value_json v)) kvs"
proof (induction kvs arbitrary: obj)
  case (Cons kv kvs)
  obtain k v where kv: "kv = (k, v)" by (cases kv)
  have "map_of obj k = None" using Cons.prems kv by (simp add: map_of_eq_None_iff)
  then have "object_assign k (Value_json v) obj = obj @ [(k, Value_json v)]" by (simp add: object_assign_def)
  then show ?case using Cons.IH [of "obj @ [(k, Value_json v)]"] Cons.prems kv by (simp add: c_str_id)
qed simp

lemma parse_Value_items_written:
  "(\<And>v. v \<in> set vs \<Longrightarrow> parse_Value N (Value_json v) = Inr (Some v)) \<Longrightarrow>
     parse_Value_items N (map Value_json vs) = Inr vs"
  by (induction vs) (auto simp: parse_or_default_def)

lemma parse_Value_members_written:
  "\<forall>kv\<in>set kvs. NUL \<notin> set (fst kv) \<and> parse_Value N (Value_json (snd kv)) = Inr (Some (snd kv)) \<Longrightarrow>
     parse_Value_members N (map (\<lambda>(k, v). (k, Value_json v)) kvs) m =
       Inr (fold (\<lambda>(k, v). omap_emplace k v) kvs m)"
  by (induction kvs arbitrary: m) (auto simp: parse_or_default_def c_str_id)

lemma Value_json_roundtrip: "writable v \<Longrightarrow> parse_Value N (Value_json v) = Inr (Some v)"
proof (induction v)
  case (VArray vs)
  then show ?case by (simp add: parse_Value_items_written)
next
  case (VObject kvs)
  have ok: "omap_ok kvs" and members: "\<forall>kv\<in>set kvs. NUL \<notin> set (fst kv)" using VObject.prems by auto
  have "Value_members_json kvs [] = map (\<lambda>(k, v). (k, Value_json v)) kvs"
    using Value_members_json_eq [of "[]" kvs] omap_ok_distinct [OF ok] members by simp
  moreover have "parse_Value_members N (map (\<lambda>(k, v). (k, Value_json v)) kvs) [] =
      Inr (fold (\<lambda>(k, v). omap_emplace k v) kvs [])"
    by (rule parse_Value_members_written) (use VObject in fastforce)
  moreover have "fold (\<lambda>(k, v). omap_emplace k v) kvs [] = kvs"
    using fold_emplace_sorted [OF ok, of "\<lambda>_ v. v"] by simp
  ultimately show ?case by simp
qed simp_all

text \<open>Conversely, whatever is read is such a value.\<close>

lemma c_str_NUL: "NUL \<notin> set (c_str s)"
  by (auto simp: c_str_def dest: set_takeWhileD)

lemma writable_emplace:
  assumes "writable (VObject m)" and "writable v"
  shows "writable (VObject (omap_emplace (c_str k) v m))"
proof -
  have "kv = (c_str k, v) \<or> kv \<in> set m" if "kv \<in> set (omap_emplace (c_str k) v m)" for kv
    using that omap_set_values [of kv "c_str k" v m] by (auto simp: omap_emplace_def split: option.splits)
  then show ?thesis using assms c_str_NUL [of k] by fastforce
qed

lemma parse_Value_total:
  "\<exists>v. parse_Value N j = Inr (Some v) \<and> writable v"
  "\<exists>vs. parse_Value_items N js = Inr vs \<and> (\<forall>v\<in>set vs. writable v)"
  "writable (VObject m) \<Longrightarrow> \<exists>m'. parse_Value_members N kvs m = Inr m' \<and> writable (VObject m')"
proof (induction N j and N js and N kvs m rule: parse_Value_parse_Value_items_parse_Value_members.induct)
  case (8 N kvs)
  have "writable (VObject [])" by (simp add: omap_ok_def)
  then show ?case using 8 by auto
next
  case (12 N k j kvs m)
  then obtain v where v: "parse_Value N j = Inr (Some v)" "writable v" by auto
  then show ?case using 12 writable_emplace [of m v k] by (simp add: parse_or_default_def)
qed (auto simp: parse_or_default_def)

text \<open>
  C40. Reading a JSON value as a \<^verbatim>\<open>Value\<close> never fails, and it gives a value of the form that
  \<^verbatim>\<open>std::map\<close> and C strings impose: the keys of every object in it are sorted, distinct
  and without a NUL. Writing that value and reading it again gives it back.
\<close>

theorem parsed_value_wellformed:
  "\<exists>v. parse_Value N j = Inr (Some v) \<and> writable v \<and> parse_Value N (Value_json v) = Inr (Some v)"
  using parse_Value_total(1) [of N j] Value_json_roundtrip by blast

end
