(* ===== verification/Flag_Json.thy ===== *)
theory Flag_Json
  imports Json_Mapping
begin

text \<open>
  Flags and segments as JSON (\<^verbatim>\<open>json_flag.cpp\<close>, \<^verbatim>\<open>json_rule_clause.cpp\<close>,
  \<^verbatim>\<open>json_segment.cpp\<close>, \<^verbatim>\<open>json_context_kind.cpp\<close>, \<^verbatim>\<open>json_context_aware_reference.hpp\<close>,
  \<^verbatim>\<open>json_item_descriptor.hpp\<close>, \<^verbatim>\<open>json_sdk_data_set.cpp\<close>): how they are read, with every
  default and error, and how they are written. The lemmas show for which flags and segments
  reading undoes writing, and what is lost otherwise.
\<close>

section \<open>Reading\<close>

definition parse_ContextKind :: "string parser" where
  "parse_ContextKind =
     REQUIRE_STRING (\<lambda>str. if str = [] then Inl kSchemaFailure else Inr (Some (c_str str)))"

text \<open>
  \<^verbatim>\<open>ContextAwareReference\<close>: with a context kind the attribute is a reference, without one it
  is a literal of the user kind.
\<close>

definition parse_ContextAwareReference :: "string \<Rightarrow> string \<Rightarrow> json_object \<Rightarrow> JsonError + string \<times> AttributeReference" where
  "parse_ContextAwareReference kContextFieldName kReferenceFieldName obj =
     res_bind (PARSE_CONDITIONAL_FIELD parse_ContextKind obj kContextFieldName) (\<lambda>kind.
     res_bind (PARSE_FIELD_DEFAULT parse_string obj kReferenceFieldName ''key'') (\<lambda>attr_ref_or_name.
       Inr (case kind of
              Some k \<Rightarrow> (k, FromReferenceStr attr_ref_or_name)
            | None \<Rightarrow> (''user'', FromLiteralStr attr_ref_or_name))))"

definition parse_Op :: "Op parser" where
  "parse_Op = REQUIRE_STRING (\<lambda>str.
     if str = [] then Inr None
     else Inr (Some
       (if str = ''in'' then kIn
        else if str = ''endsWith'' then kEndsWith
        else if str = ''startsWith'' then kStartsWith
        else if str = ''matches'' then kMatches
        else if str = ''contains'' then kContains
        else if str = ''lessThan'' then kLessThan
        else if str = ''lessThanOrEqual'' then kLessThanOrEqual
        else if str = ''greaterThan'' then kGreaterThan
        else if str = ''greaterThanOrEqual'' then kGreaterThanOrEqual
        else if str = ''before'' then kBefore
        else if str = ''after'' then kAfter
        else if str = ''semVerEqual'' then kSemVerEqual
        else if str = ''semVerLessThan'' then kSemVerLessThan
        else if str = ''semVerGreaterThan'' then kSemVerGreaterThan
        else if str = ''segmentMatch'' then kSegmentMatch
        else kUnrecognized)))"

definition parse_Clause :: "numbers \<Rightarrow> Clause parser" where
  "parse_Clause N = REQUIRE_OBJECT (\<lambda>obj.
     res_bind (PARSE_REQUIRED_FIELD parse_Op obj ''op'') (\<lambda>op.
     res_bind (PARSE_FIELD_DEFAULT (parse_vector (parse_Value N)) obj ''values'' []) (\<lambda>vals.
     res_bind (PARSE_FIELD_DEFAULT parse_bool obj ''negate'' False) (\<lambda>neg.
     res_bind (parse_ContextAwareReference ''contextKind'' ''attribute'' obj) (\<lambda>kind_and_attr.
       Inr (Some
         \<lparr>clause_op = op, clause_values = vals, negate = neg,
          clause_contextKind = fst kind_and_attr, clause_attribute = snd kind_and_attr\<rparr>))))))"

definition parse_WeightedVariation :: "numbers \<Rightarrow> WeightedVariation parser" where
  "parse_WeightedVariation N = REQUIRE_OBJECT (\<lambda>obj.
     res_bind (PARSE_FIELD_DEFAULT (parse_int64 N) obj ''variation'' 0) (\<lambda>variation.
     res_bind (PARSE_FIELD_DEFAULT (parse_int64 N) obj ''weight'' 0) (\<lambda>weight.
     res_bind (PARSE_FIELD_DEFAULT parse_bool obj ''untracked'' False) (\<lambda>untr.
       Inr (Some \<lparr>wv_variation = variation, wv_weight = weight, untracked = untr\<rparr>)))))"

definition parse_RolloutKind :: "RolloutKind parser" where
  "parse_RolloutKind = REQUIRE_STRING (\<lambda>str.
     Inr (Some
       (if str = ''experiment'' then kExperiment
        else if str = ''rollout'' then kRollout
        else kRolloutUnrecognized)))"

definition parse_Rollout :: "numbers \<Rightarrow> Rollout parser" where
  "parse_Rollout N = REQUIRE_OBJECT (\<lambda>obj.
     res_bind (PARSE_FIELD_DEFAULT (parse_vector (parse_WeightedVariation N)) obj ''variations'' []) (\<lambda>vars.
     res_bind (PARSE_FIELD_DEFAULT parse_RolloutKind obj ''kind'' kRollout) (\<lambda>kind.
     res_bind (PARSE_CONDITIONAL_FIELD (parse_int64 N) obj ''seed'') (\<lambda>sd.
     res_bind (parse_ContextAwareReference ''contextKind'' ''bucketBy'' obj) (\<lambda>kind_and_bucket_by.
       Inr (Some
         \<lparr>rollout_variations = vars, rollout_kind = kind, seed = sd,
          rollout_bucketBy = snd kind_and_bucket_by,
          rollout_contextKind = fst kind_and_bucket_by\<rparr>))))))"

text \<open>
  Without a rollout the result is the optional variation, present or not.
\<close>

definition parse_VariationOrRollout :: "numbers \<Rightarrow> VariationOrRollout parser" where
  "parse_VariationOrRollout N = REQUIRE_OBJECT (\<lambda>obj.
     res_bind (PARSE_CONDITIONAL_FIELD (parse_Rollout N) obj ''rollout'') (\<lambda>rollout.
       case rollout of
         Some r \<Rightarrow> Inr (Some (VRollout r))
       | None \<Rightarrow>
           res_bind (PARSE_CONDITIONAL_FIELD (parse_int64 N) obj ''variation'') (\<lambda>variation.
             Inr (Some (VVariation variation)))))"

definition parse_Prerequisite :: "numbers \<Rightarrow> Prerequisite parser" where
  "parse_Prerequisite N = REQUIRE_OBJECT (\<lambda>obj.
     res_bind (PARSE_REQUIRED_FIELD parse_string obj ''key'') (\<lambda>key.
     res_bind (PARSE_FIELD_DEFAULT (parse_int64 N) obj ''variation'' 0) (\<lambda>variation.
       Inr (Some \<lparr>prereq_key = key, prereq_variation = variation\<rparr>))))"

definition parse_Target :: "numbers \<Rightarrow> Target parser" where
  "parse_Target N = REQUIRE_OBJECT (\<lambda>obj.
     res_bind (PARSE_FIELD_DEFAULT (parse_vector parse_string) obj ''values'' []) (\<lambda>vals.
     res_bind (PARSE_FIELD_DEFAULT (parse_int64 N) obj ''variation'' 0) (\<lambda>variation.
     res_bind (PARSE_FIELD_DEFAULT parse_ContextKind obj ''contextKind'' ''user'') (\<lambda>kind.
       Inr (Some \<lparr>target_values = vals, target_variation = variation, target_contextKind = kind\<rparr>)))))"

definition parse_Rule :: "numbers \<Rightarrow> Rule parser" where
  "parse_Rule N = REQUIRE_OBJECT (\<lambda>obj.
     res_bind (PARSE_FIELD_DEFAULT parse_bool obj ''trackEvents'' False) (\<lambda>track.
     res_bind (PARSE_FIELD_DEFAULT (parse_vector (parse_Clause N)) obj ''clauses'' []) (\<lambda>clauses.
     res_bind (PARSE_CONDITIONAL_FIELD parse_string obj ''id'') (\<lambda>rule_id.
     res_bind (parse_VariationOrRollout N (JObject obj)) (\<lambda>variation_or_rollout.
       Inr (Some
         \<lparr>rule_clauses = clauses,
          variationOrRollout =
            (case variation_or_rollout of Some v \<Rightarrow> v | None \<Rightarrow> VVariation (Some 0)),
          rule_trackEvents = track, flag_rule_id = rule_id\<rparr>))))))"

text \<open>\<^verbatim>\<open>ClientSideAvailability\<close> is the pair of its environment id and mobile key flags.\<close>

definition parse_ClientSideAvailability :: "(bool \<times> bool) parser" where
  "parse_ClientSideAvailability = REQUIRE_OBJECT (\<lambda>obj.
     res_bind (PARSE_FIELD_DEFAULT parse_bool obj ''usingEnvironmentId'' False) (\<lambda>env.
     res_bind (PARSE_FIELD_DEFAULT parse_bool obj ''usingMobileKey'' False) (\<lambda>mobile.
       Inr (Some (env, mobile)))))"

definition parse_Flag :: "numbers \<Rightarrow> Flag parser" where
  "parse_Flag N = REQUIRE_OBJECT (\<lambda>obj.
     res_bind (PARSE_REQUIRED_FIELD parse_string obj ''key'') (\<lambda>key.
     res_bind (PARSE_CONDITIONAL_FIELD (parse_uint64 N) obj ''debugEventsUntilDate'') (\<lambda>until.
     res_bind (PARSE_CONDITIONAL_FIELD parse_string obj ''salt'') (\<lambda>slt.
     res_bind (PARSE_CONDITIONAL_FIELD (parse_int64 N) obj ''offVariation'') (\<lambda>off.
     res_bind (PARSE_FIELD_DEFAULT (parse_uint64 N) obj ''version'' 0) (\<lambda>version.
     res_bind (PARSE_FIELD_DEFAULT parse_bool obj ''on'' False) (\<lambda>on.
     res_bind (PARSE_FIELD_DEFAULT (parse_vector (parse_Value N)) obj ''variations'' []) (\<lambda>vars.
     res_bind (PARSE_FIELD_DEFAULT (parse_vector (parse_Prerequisite N)) obj ''prerequisites'' []) (\<lambda>prereqs.
     res_bind (PARSE_FIELD_DEFAULT (parse_vector (parse_Target N)) obj ''targets'' []) (\<lambda>tgts.
     res_bind (PARSE_FIELD_DEFAULT (parse_vector (parse_Target N)) obj ''contextTargets'' []) (\<lambda>ctx_tgts.
     res_bind (PARSE_FIELD_DEFAULT (parse_vector (parse_Rule N)) obj ''rules'' []) (\<lambda>rules.
     res_bind (PARSE_FIELD_DEFAULT parse_bool obj ''clientSide'' False) (\<lambda>client.
     res_bind (PARSE_FIELD_DEFAULT parse_ClientSideAvailability obj ''clientSideAvailability'' (False, False)) (\<lambda>avail.
     res_bind (PARSE_FIELD_DEFAULT parse_bool obj ''trackEvents'' False) (\<lambda>track.
     res_bind (PARSE_FIELD_DEFAULT parse_bool obj ''trackEventsFallthrough'' False) (\<lambda>track_ft.
     res_bind (PARSE_FIELD_DEFAULT (parse_VariationOrRollout N) obj ''fallthrough'' (VVariation None)) (\<lambda>ft.
       Inr (Some
         \<lparr>flag_key = key, flag_version = version, flag_on = on, fallthrough = ft, variations = vars,
          prerequisites = prereqs, targets = tgts, contextTargets = ctx_tgts, flag_rules = rules,
          offVariation = off, clientSide = client, usingMobileKey = snd avail,
          usingEnvironmentId = fst avail, flag_salt = slt, trackEvents = track,
          trackEventsFallthrough = track_ft, debugEventsUntilDate = until\<rparr>))))))))))))))))))"

definition parse_SegmentTarget :: "SegmentTarget parser" where
  "parse_SegmentTarget = REQUIRE_OBJECT (\<lambda>obj.
     res_bind (PARSE_REQUIRED_FIELD parse_ContextKind obj ''contextKind'') (\<lambda>kind.
     res_bind (PARSE_FIELD_DEFAULT (parse_vector parse_string) obj ''values'' []) (\<lambda>vals.
       Inr (Some \<lparr>starget_contextKind = kind, starget_values = vals\<rparr>))))"

definition parse_SegmentRule :: "numbers \<Rightarrow> SegmentRule parser" where
  "parse_SegmentRule N = REQUIRE_OBJECT (\<lambda>obj.
     res_bind (PARSE_FIELD_DEFAULT (parse_vector (parse_Clause N)) obj ''clauses'' []) (\<lambda>clauses.
     res_bind (PARSE_CONDITIONAL_FIELD (parse_uint64 N) obj ''weight'') (\<lambda>weight.
     res_bind (PARSE_CONDITIONAL_FIELD parse_string obj ''id'') (\<lambda>rule_id.
     res_bind (parse_ContextAwareReference ''rolloutContextKind'' ''bucketBy'' obj) (\<lambda>kind_and_bucket_by.
       Inr (Some
         \<lparr>srule_clauses = clauses, srule_id = rule_id, srule_weight = weight,
          rolloutContextKind = fst kind_and_bucket_by,
          srule_bucketBy = snd kind_and_bucket_by\<rparr>))))))"

definition parse_Segment :: "numbers \<Rightarrow> Segment parser" where
  "parse_Segment N = REQUIRE_OBJECT (\<lambda>obj.
     if obj = [] then Inr None else
     res_bind (PARSE_REQUIRED_FIELD parse_string obj ''key'') (\<lambda>key.
     res_bind (PARSE_REQUIRED_FIELD (parse_uint64 N) obj ''version'') (\<lambda>version.
     res_bind (PARSE_CONDITIONAL_FIELD (parse_uint64 N) obj ''generation'') (\<lambda>gen.
     res_bind (PARSE_CONDITIONAL_FIELD parse_string obj ''salt'') (\<lambda>slt.
     res_bind (PARSE_CONDITIONAL_FIELD parse_ContextKind obj ''unboundedContextKind'') (\<lambda>kind.
     res_bind (PARSE_FIELD_DEFAULT (parse_vector parse_string) obj ''excluded'' []) (\<lambda>excl.
     res_bind (PARSE_FIELD_DEFAULT (parse_vector parse_string) obj ''included'' []) (\<lambda>incl.
     res_bind (PARSE_FIELD_DEFAULT parse_bool obj ''unbounded'' False) (\<lambda>unb.
     res_bind (PARSE_FIELD_DEFAULT (parse_vector parse_SegmentTarget) obj ''includedContexts'' []) (\<lambda>incl_ctx.
     res_bind (PARSE_FIELD_DEFAULT (parse_vector parse_SegmentTarget) obj ''excludedContexts'' []) (\<lambda>excl_ctx.
     res_bind (PARSE_FIELD_DEFAULT (parse_vector (parse_SegmentRule N)) obj ''rules'' []) (\<lambda>rules.
       Inr (Some
         \<lparr>segment_key = key, segment_version = version, included = incl, excluded = excl,
          includedContexts = incl_ctx, excludedContexts = excl_ctx, segment_rules = rules,
          segment_salt = slt, unbounded = unb, unboundedContextKind = kind, generation = gen\<rparr>)))))))))))))"

definition parse_ItemDescriptor :: "'a parser \<Rightarrow> ('a \<Rightarrow> 'a ItemDescriptor) \<Rightarrow> 'a ItemDescriptor parser" where
  "parse_ItemDescriptor p descriptor j =
     res_bind (p j) (\<lambda>item. Inr (map_option descriptor item))"

definition parse_SDKDataSet :: "numbers \<Rightarrow> SDKDataSet parser" where
  "parse_SDKDataSet N = REQUIRE_OBJECT (\<lambda>obj.
     res_bind (PARSE_FIELD_DEFAULT
       (parse_unordered_map (parse_ItemDescriptor (parse_Flag N) FlagDescriptor_of)) obj ''flags'' []) (\<lambda>flags.
     res_bind (PARSE_FIELD_DEFAULT
       (parse_unordered_map (parse_ItemDescriptor (parse_Segment N) SegmentDescriptor_of)) obj ''segments'' []) (\<lambda>segments.
       Inr (Some \<lparr>ds_flags = flags, ds_segments = segments\<rparr>))))"

section \<open>Writing\<close>

fun Op_json :: "Op \<Rightarrow> json" where
  "Op_json kUnrecognized = JNull"
| "Op_json kIn = JString ''in''"
| "Op_json kStartsWith = JString ''startsWith''"
| "Op_json kEndsWith = JString ''endsWith''"
| "Op_json kMatches = JString ''matches''"
| "Op_json kContains = JString ''contains''"
| "Op_json kLessThan = JString ''lessThan''"
| "Op_json kLessThanOrEqual = JString ''lessThanOrEqual''"
| "Op_json kGreaterThan = JString ''greaterThan''"
| "Op_json kGreaterThanOrEqual = JString ''greaterThanOrEqual''"
| "Op_json kBefore = JString ''before''"
| "Op_json kAfter = JString ''after''"
| "Op_json kSemVerEqual = JString ''semVerEqual''"
| "Op_json kSemVerLessThan = JString ''semVerLessThan''"
| "Op_json kSemVerGreaterThan = JString ''semVerGreaterThan''"
| "Op_json kSegmentMatch = JString ''segmentMatch''"

definition Clause_json :: "Clause \<Rightarrow> json" where
  "Clause_json clause =
     (let obj = object_emplace ''values'' (JArray (map Value_json (clause_values clause))) [];
          obj = WriteMinimal_bool ''negate'' (negate clause) obj;
          obj = (if clause_op clause \<noteq> kUnrecognized
                 then object_emplace ''op'' (Op_json (clause_op clause)) obj else obj);
          obj = (if ref_valid (clause_attribute clause)
                 then object_emplace ''attribute'' (JString (redaction_name (clause_attribute clause))) obj
                 else obj)
      in JObject (object_emplace ''contextKind'' (JString (clause_contextKind clause)) obj))"

definition WeightedVariation_json :: "WeightedVariation \<Rightarrow> json" where
  "WeightedVariation_json wv =
     (let obj = object_emplace ''variation'' (JInt64 (wv_variation wv)) [];
          obj = object_emplace ''weight'' (JInt64 (wv_weight wv)) obj
      in JObject (WriteMinimal_bool ''untracked'' (untracked wv) obj))"

fun RolloutKind_json :: "RolloutKind \<Rightarrow> json" where
  "RolloutKind_json kRolloutUnrecognized = JNull"
| "RolloutKind_json kExperiment = JString ''experiment''"
| "RolloutKind_json kRollout = JString ''rollout''"

definition Rollout_json :: "Rollout \<Rightarrow> json" where
  "Rollout_json rollout =
     (let obj = object_emplace ''variations'' (JArray (map WeightedVariation_json (rollout_variations rollout))) [];
          obj = (if rollout_kind rollout \<noteq> kRolloutUnrecognized
                 then object_emplace ''kind'' (RolloutKind_json (rollout_kind rollout)) obj else obj);
          obj = WriteMinimal_opt JInt64 ''seed'' (seed rollout) obj;
          obj = object_emplace ''bucketBy'' (JString (redaction_name (rollout_bucketBy rollout))) obj
      in JObject (object_emplace ''contextKind'' (JString (rollout_contextKind rollout)) obj))"

definition VariationOrRollout_json :: "VariationOrRollout \<Rightarrow> json" where
  "VariationOrRollout_json variation_or_rollout =
     JObject (case variation_or_rollout of
        VRollout r \<Rightarrow> object_emplace ''rollout'' (Rollout_json r) []
      | VVariation (Some v) \<Rightarrow> object_emplace ''variation'' (JInt64 v) []
      | VVariation None \<Rightarrow> [])"

definition Prerequisite_json :: "Prerequisite \<Rightarrow> json" where
  "Prerequisite_json prerequisite =
     JObject (object_emplace ''variation'' (JInt64 (prereq_variation prerequisite))
       (object_emplace ''key'' (JString (prereq_key prerequisite)) []))"

definition Target_json :: "Target \<Rightarrow> json" where
  "Target_json target =
     (let obj = object_emplace ''values'' (JArray (map JString (target_values target))) [];
          obj = object_emplace ''variation'' (JInt64 (target_variation target)) obj
      in JObject (object_emplace ''contextKind'' (JString (target_contextKind target)) obj))"

definition ClientSideAvailability_json :: "bool \<times> bool \<Rightarrow> json" where
  "ClientSideAvailability_json availability =
     JObject (WriteMinimal_bool ''usingMobileKey'' (snd availability)
       (WriteMinimal_bool ''usingEnvironmentId'' (fst availability) []))"

text \<open>
  The variant of a rule holds a \<^verbatim>\<open>Rollout\<close> or a \<^verbatim>\<open>std::optional<Variation>\<close>. The visitor of
  the rule tests for \<^verbatim>\<open>Rollout\<close> and for \<^verbatim>\<open>Variation\<close>, and neither branch is taken for
  the optional variation.
\<close>

definition Rule_json :: "Rule \<Rightarrow> json" where
  "Rule_json rule =
     (let obj = WriteMinimal_bool ''trackEvents'' (rule_trackEvents rule) [];
          obj = WriteMinimal_opt JString ''id'' (flag_rule_id rule) obj;
          obj = (case variationOrRollout rule of
                   VRollout r \<Rightarrow> object_emplace ''rollout'' (Rollout_json r) obj
                 | VVariation _ \<Rightarrow> obj)
      in JObject (object_emplace ''clauses'' (JArray (map Clause_json (rule_clauses rule))) obj))"

text \<open>
  \<^verbatim>\<open>UserTarget\<close>: the entries of \<^verbatim>\<open>targets\<close> are written without a context kind. Its variation is a
  \<^verbatim>\<open>std::uint64_t\<close>, so the signed variation of the target is converted, which keeps the 64 bits, and
  written as an unsigned number.
\<close>

definition UserTarget_json :: "Target \<Rightarrow> json" where
  "UserTarget_json target =
     JObject (object_emplace ''variation'' (JUint64 (target_variation target))
       (object_emplace ''values'' (JArray (map JString (target_values target))) []))"

definition has_fallthrough :: "VariationOrRollout \<Rightarrow> bool" where
  "has_fallthrough v = (case v of VVariation w \<Rightarrow> w \<noteq> None | VRollout _ \<Rightarrow> True)"

definition Flag_json :: "Flag \<Rightarrow> json" where
  "Flag_json flag =
     (let obj = WriteMinimal_bool ''trackEvents'' (trackEvents flag) [];
          obj = WriteMinimal_bool ''clientSide'' (clientSide flag) obj;
          obj = WriteMinimal_bool ''on'' (flag_on flag) obj;
          obj = WriteMinimal_bool ''trackEventsFallthrough'' (trackEventsFallthrough flag) obj;
          obj = WriteMinimal_opt JUint64 ''debugEventsUntilDate'' (debugEventsUntilDate flag) obj;
          obj = WriteMinimal_opt JString ''salt'' (flag_salt flag) obj;
          obj = WriteMinimal_opt JInt64 ''offVariation'' (offVariation flag) obj;
          obj = object_emplace ''key'' (JString (flag_key flag)) obj;
          obj = object_emplace ''version'' (JUint64 (flag_version flag)) obj;
          obj = WriteMinimal_vector Value_json ''variations'' (variations flag) obj;
          obj = WriteMinimal_vector Rule_json ''rules'' (flag_rules flag) obj;
          obj = WriteMinimal_vector Prerequisite_json ''prerequisites'' (prerequisites flag) obj;
          obj = WriteMinimal_if VariationOrRollout_json ''fallthrough'' (fallthrough flag)
                  (has_fallthrough (fallthrough flag)) obj;
          obj = WriteMinimal_if ClientSideAvailability_json ''clientSideAvailability''
                  (usingEnvironmentId flag, usingMobileKey flag)
                  (usingEnvironmentId flag \<or> usingMobileKey flag) obj;
          obj = WriteMinimal_vector Target_json ''contextTargets'' (contextTargets flag) obj
      in JObject (WriteMinimal_vector UserTarget_json ''targets'' (targets flag) obj))"

definition SegmentTarget_json :: "SegmentTarget \<Rightarrow> json" where
  "SegmentTarget_json target =
     JObject (object_emplace ''contextKind'' (JString (starget_contextKind target))
       (object_emplace ''values'' (JArray (map JString (starget_values target))) []))"

definition SegmentRule_json :: "SegmentRule \<Rightarrow> json" where
  "SegmentRule_json rule =
     (let obj = WriteMinimal_opt JUint64 ''weight'' (srule_weight rule) [];
          obj = WriteMinimal_opt JString ''id'' (srule_id rule) obj;
          obj = object_emplace ''clauses'' (JArray (map Clause_json (srule_clauses rule))) obj;
          obj = object_emplace ''bucketBy'' (JString (redaction_name (srule_bucketBy rule))) obj
      in JObject (object_emplace ''rolloutContextKind'' (JString (rolloutContextKind rule)) obj))"

definition Segment_json :: "Segment \<Rightarrow> json" where
  "Segment_json segment =
     (let obj = object_emplace ''key'' (JString (segment_key segment)) [];
          obj = object_emplace ''version'' (JUint64 (segment_version segment)) obj;
          obj = WriteMinimal_opt JString ''salt'' (segment_salt segment) obj;
          obj = WriteMinimal_opt JUint64 ''generation'' (generation segment) obj;
          obj = WriteMinimal_opt JString ''unboundedContextKind'' (unboundedContextKind segment) obj;
          obj = WriteMinimal_bool ''unbounded'' (unbounded segment) obj;
          obj = WriteMinimal_vector SegmentRule_json ''rules'' (segment_rules segment) obj;
          obj = WriteMinimal_vector JString ''excluded'' (excluded segment) obj;
          obj = WriteMinimal_vector SegmentTarget_json ''excludedContexts'' (excludedContexts segment) obj;
          obj = WriteMinimal_vector JString ''included'' (included segment) obj
      in JObject (WriteMinimal_vector SegmentTarget_json ''includedContexts'' (includedContexts segment) obj))"

section \<open>What can be written\<close>

text \<open>
  What Boost documents of its exact conversions: an integer node, of kind \<^verbatim>\<open>uint64\<close> or
  \<^verbatim>\<open>int64\<close>, converts to an integer type when that type can represent it and is an error otherwise,
  and its conversion to a double depends only on the integer.
\<close>

definition exact_numbers :: "numbers \<Rightarrow> bool" where
  "exact_numbers N \<longleftrightarrow>
     (\<forall>n. to_uint64 N (JUint64 n) = Some n) \<and>
     (\<forall>n. to_int64 N (JInt64 n) = Some n) \<and>
     (\<forall>n. to_uint64 N (JInt64 n) = (if 0 \<le> sint n then Some n else None)) \<and>
     (\<forall>n. to_int64 N (JUint64 n) = (if 0 \<le> sint n then Some n else None)) \<and>
     (\<forall>n. 0 \<le> sint n \<longrightarrow> to_f64 N (JInt64 n) = to_f64 N (JUint64 n))"

text \<open>
  A number that was written as an unsigned one need not come back as one: the parser of Boost makes
  a node of kind \<^verbatim>\<open>int64\<close> of every integer that fits. Two JSON values are the same up to the
  kinds of their integers when they agree once every integer that fits is an \<^verbatim>\<open>int64\<close>.
\<close>

primrec parsed_form :: "json \<Rightarrow> json" where
  "parsed_form JNull = JNull"
| "parsed_form (JBool b) = JBool b"
| "parsed_form (JInt64 n) = JInt64 n"
| "parsed_form (JUint64 n) = (if 0 \<le> sint n then JInt64 n else JUint64 n)"
| "parsed_form (JNumber x) = JNumber x"
| "parsed_form (JString s) = JString s"
| "parsed_form (JArray js) = JArray (map parsed_form js)"
| "parsed_form (JObject kvs) = JObject (map (map_prod (\<lambda>k. k) parsed_form) kvs)"

definition same_json :: "json \<Rightarrow> json \<Rightarrow> bool" where
  "same_json j j' \<longleftrightarrow> parsed_form j = parsed_form j'"

definition kind_ok :: "string \<Rightarrow> bool" where
  "kind_ok kind \<longleftrightarrow> kind \<noteq> [] \<and> NUL \<notin> set kind"

definition attribute_ok :: "AttributeReference \<Rightarrow> bool" where
  "attribute_ok ref \<longleftrightarrow> FromReferenceStr (redaction_name ref) = ref"

definition clause_ok :: "Clause \<Rightarrow> bool" where
  "clause_ok c \<longleftrightarrow> clause_op c \<noteq> kUnrecognized \<and> list_all writable (clause_values c) \<and>
     kind_ok (clause_contextKind c) \<and> ref_valid (clause_attribute c) \<and> attribute_ok (clause_attribute c)"

definition rollout_ok :: "Rollout \<Rightarrow> bool" where
  "rollout_ok r \<longleftrightarrow> rollout_kind r \<noteq> kRolloutUnrecognized \<and> kind_ok (rollout_contextKind r) \<and>
     attribute_ok (rollout_bucketBy r)"

fun choice_ok :: "VariationOrRollout \<Rightarrow> bool" where
  "choice_ok (VRollout r) = rollout_ok r"
| "choice_ok (VVariation _) = True"

definition rule_ok :: "Rule \<Rightarrow> bool" where
  "rule_ok r \<longleftrightarrow> list_all clause_ok (rule_clauses r) \<and> choice_ok (variationOrRollout r)"

definition flag_ok :: "Flag \<Rightarrow> bool" where
  "flag_ok f \<longleftrightarrow> choice_ok (fallthrough f) \<and> list_all writable (variations f) \<and>
     list_all (\<lambda>t. target_contextKind t = ''user'' \<and> 0 \<le> sint (target_variation t)) (targets f) \<and>
     list_all (\<lambda>t. kind_ok (target_contextKind t)) (contextTargets f) \<and> list_all rule_ok (flag_rules f)"

definition segment_ok :: "Segment \<Rightarrow> bool" where
  "segment_ok s \<longleftrightarrow> list_all (\<lambda>t. kind_ok (starget_contextKind t)) (includedContexts s) \<and>
     list_all (\<lambda>t. kind_ok (starget_contextKind t)) (excludedContexts s) \<and>
     list_all (\<lambda>r. list_all clause_ok (srule_clauses r) \<and> kind_ok (rolloutContextKind r) \<and>
       attribute_ok (srule_bucketBy r)) (segment_rules s) \<and>
     list_all kind_ok (case unboundedContextKind s of Some k \<Rightarrow> [k] | None \<Rightarrow> [])"

text \<open>What a rule keeps: not its variation.\<close>

fun without_variation :: "VariationOrRollout \<Rightarrow> VariationOrRollout" where
  "without_variation (VRollout r) = VRollout r"
| "without_variation (VVariation _) = VVariation None"

section \<open>Reading undoes writing\<close>

lemma parse_number [simp]:
  "exact_numbers N \<Longrightarrow> parse_uint64 N (JUint64 n) = Inr (Some n)"
  "exact_numbers N \<Longrightarrow> parse_int64 N (JInt64 n) = Inr (Some n)"
  "exact_numbers N \<Longrightarrow> parse_int64 N (JUint64 n) = (if 0 \<le> sint n then Inr (Some n) else Inl kSchemaFailure)"
  by (simp_all add: exact_numbers_def parse_uint64_def parse_int64_def)

lemma parse_strings [simp]: "parse_vector parse_string (JArray (map JString ss)) = Inr (Some ss)"
  using parse_vector_written [of ss parse_string JString] by simp

lemma parse_kind [simp]: "kind_ok k \<Longrightarrow> parse_ContextKind (JString k) = Inr (Some k)"
  by (simp add: parse_ContextKind_def kind_ok_def)

lemma parse_Op_json [simp]: "op \<noteq> kUnrecognized \<Longrightarrow> parse_Op (Op_json op) = Inr (Some op)"
  by (cases op) (simp_all add: parse_Op_def)

lemma parse_RolloutKind_json [simp]:
  "kind \<noteq> kRolloutUnrecognized \<Longrightarrow> parse_RolloutKind (RolloutKind_json kind) = Inr (Some kind)"
  by (cases kind) (simp_all add: parse_RolloutKind_def)

lemma parse_reference:
  assumes "map_of obj k = Some (JString kind)" and "map_of obj a = Some (JString (redaction_name ref))"
    and "kind_ok kind" and "attribute_ok ref"
  shows "parse_ContextAwareReference k a obj = Inr (kind, ref)"
  using assms by (simp add: parse_ContextAwareReference_def field_written [of _ _ _ _ "redaction_name ref"]
      PARSE_CONDITIONAL_FIELD_def attribute_ok_def)

lemma Clause_roundtrip:
  assumes "clause_ok c"
  shows "parse_Clause N (Clause_json c) = Inr (Some c)"
proof -
  obtain obj where obj: "Clause_json c = JObject obj"
    and members: "map_of obj ''values'' = Some (JArray (map Value_json (clause_values c)))"
      "map_of obj ''negate'' = (if negate c then Some (JBool True) else None)"
      "map_of obj ''op'' = Some (Op_json (clause_op c))"
      "map_of obj ''attribute'' = Some (JString (redaction_name (clause_attribute c)))"
      "map_of obj ''contextKind'' = Some (JString (clause_contextKind c))"
    using assms by (simp add: Clause_json_def Let_def clause_ok_def)
  have "PARSE_REQUIRED_FIELD parse_Op obj ''op'' = Inr (clause_op c)"
    using assms members by (intro field_required) (auto simp: clause_ok_def)
  moreover have "PARSE_FIELD_DEFAULT (parse_vector (parse_Value N)) obj ''values'' [] = Inr (clause_values c)"
    using assms members by (intro field_vector_written)
      (auto simp: clause_ok_def list_all_iff Value_json_roundtrip)
  moreover have "PARSE_FIELD_DEFAULT parse_bool obj ''negate'' False = Inr (negate c)"
    using members by (intro field_bool)
  moreover have "parse_ContextAwareReference ''contextKind'' ''attribute'' obj =
      Inr (clause_contextKind c, clause_attribute c)"
    using assms members by (intro parse_reference) (auto simp: clause_ok_def)
  ultimately show ?thesis by (simp add: parse_Clause_def obj)
qed

lemma WeightedVariation_roundtrip:
  assumes "exact_numbers N"
  shows "parse_WeightedVariation N (WeightedVariation_json wv) = Inr (Some wv)"
proof -
  obtain obj where obj: "WeightedVariation_json wv = JObject obj"
    and members: "map_of obj ''variation'' = Some (JInt64 (wv_variation wv))"
      "map_of obj ''weight'' = Some (JInt64 (wv_weight wv))"
      "map_of obj ''untracked'' = (if untracked wv then Some (JBool True) else None)"
    by (simp add: WeightedVariation_json_def Let_def)
  show ?thesis
    using assms field_written [OF members(1), of "parse_int64 N" "wv_variation wv" 0]
      field_written [OF members(2), of "parse_int64 N" "wv_weight wv" 0] field_bool [OF members(3)]
    by (simp add: parse_WeightedVariation_def obj)
qed

lemma Rollout_roundtrip:
  assumes "exact_numbers N" and "rollout_ok r"
  shows "parse_Rollout N (Rollout_json r) = Inr (Some r)"
proof -
  obtain obj where obj: "Rollout_json r = JObject obj"
    and members: "map_of obj ''variations'' = Some (JArray (map WeightedVariation_json (rollout_variations r)))"
      "map_of obj ''kind'' = Some (RolloutKind_json (rollout_kind r))"
      "map_of obj ''seed'' = map_option JInt64 (seed r)"
      "map_of obj ''bucketBy'' = Some (JString (redaction_name (rollout_bucketBy r)))"
      "map_of obj ''contextKind'' = Some (JString (rollout_contextKind r))"
    using assms by (simp add: Rollout_json_def Let_def rollout_ok_def)
  have "PARSE_FIELD_DEFAULT (parse_vector (parse_WeightedVariation N)) obj ''variations'' [] =
      Inr (rollout_variations r)"
    using members(1) by (rule field_vector_written) (rule WeightedVariation_roundtrip [OF assms(1)])
  moreover have "PARSE_FIELD_DEFAULT parse_RolloutKind obj ''kind'' kRollout = Inr (rollout_kind r)"
    using members(2) by (rule field_written) (use assms in \<open>simp add: rollout_ok_def\<close>)
  moreover have "PARSE_CONDITIONAL_FIELD (parse_int64 N) obj ''seed'' = Inr (seed r)"
    using members(3) by (rule field_optional) (use assms in simp)
  moreover have "parse_ContextAwareReference ''contextKind'' ''bucketBy'' obj =
      Inr (rollout_contextKind r, rollout_bucketBy r)"
    using members(5,4) by (rule parse_reference) (use assms in \<open>simp_all add: rollout_ok_def\<close>)
  ultimately show ?thesis by (simp add: parse_Rollout_def obj)
qed

lemma VariationOrRollout_roundtrip:
  assumes "exact_numbers N" and "choice_ok v"
  shows "parse_VariationOrRollout N (VariationOrRollout_json v) = Inr (Some v)"
  using assms Rollout_roundtrip
  by (cases v; cases "case v of VVariation w \<Rightarrow> w | _ \<Rightarrow> None")
    (simp_all add: parse_VariationOrRollout_def VariationOrRollout_json_def PARSE_CONDITIONAL_FIELD_def)

lemma Prerequisite_roundtrip:
  "exact_numbers N \<Longrightarrow> parse_Prerequisite N (Prerequisite_json q) = Inr (Some q)"
  by (simp add: parse_Prerequisite_def Prerequisite_json_def PARSE_REQUIRED_FIELD_def PARSE_FIELD_DEFAULT_def
      PARSE_CONDITIONAL_FIELD_def)

lemma Target_roundtrip:
  "exact_numbers N \<Longrightarrow> kind_ok (target_contextKind t) \<Longrightarrow> parse_Target N (Target_json t) = Inr (Some t)"
  by (simp add: parse_Target_def Target_json_def Let_def PARSE_FIELD_DEFAULT_def PARSE_CONDITIONAL_FIELD_def
      del: parse_vector.simps)

lemma UserTarget_roundtrip:
  "exact_numbers N \<Longrightarrow> target_contextKind t = ''user'' \<Longrightarrow> 0 \<le> sint (target_variation t) \<Longrightarrow>
     parse_Target N (UserTarget_json t) = Inr (Some t)"
  by (simp add: parse_Target_def UserTarget_json_def PARSE_FIELD_DEFAULT_def PARSE_CONDITIONAL_FIELD_def
      del: parse_vector.simps)

lemma ClientSideAvailability_roundtrip:
  "parse_ClientSideAvailability (ClientSideAvailability_json a) = Inr (Some a)"
  by (simp add: parse_ClientSideAvailability_def ClientSideAvailability_json_def
      field_bool [where b = "fst a"] field_bool [where b = "snd a"])

lemma Rule_reread:
  assumes "exact_numbers N" and "rule_ok r"
  shows "parse_Rule N (Rule_json r) =
    Inr (Some (r\<lparr>variationOrRollout := without_variation (variationOrRollout r)\<rparr>))"
proof -
  obtain obj where obj: "Rule_json r = JObject obj"
    and members: "map_of obj ''trackEvents'' = (if rule_trackEvents r then Some (JBool True) else None)"
      "map_of obj ''id'' = map_option JString (flag_rule_id r)"
      "map_of obj ''clauses'' = Some (JArray (map Clause_json (rule_clauses r)))"
      "map_of obj ''variation'' = None"
      "map_of obj ''rollout'' = (case variationOrRollout r of VRollout r \<Rightarrow> Some (Rollout_json r) | _ \<Rightarrow> None)"
    by (cases "variationOrRollout r") (simp_all add: Rule_json_def Let_def)
  have "PARSE_FIELD_DEFAULT parse_bool obj ''trackEvents'' False = Inr (rule_trackEvents r)"
    using members(1) by (rule field_bool)
  moreover have "PARSE_CONDITIONAL_FIELD parse_string obj ''id'' = Inr (flag_rule_id r)"
    using members(2) by (rule field_optional) simp
  moreover have "PARSE_FIELD_DEFAULT (parse_vector (parse_Clause N)) obj ''clauses'' [] = Inr (rule_clauses r)"
    using members(3) by (rule field_vector_written)
      (use assms in \<open>auto simp: rule_ok_def list_all_iff Clause_roundtrip\<close>)
  moreover have "parse_VariationOrRollout N (JObject obj) =
      Inr (Some (without_variation (variationOrRollout r)))"
    using members(4,5) assms Rollout_roundtrip
    by (cases "variationOrRollout r")
      (simp_all add: parse_VariationOrRollout_def PARSE_CONDITIONAL_FIELD_def rule_ok_def)
  ultimately show ?thesis by (simp add: parse_Rule_def obj)
qed

lemma Flag_reread:
  assumes N: "exact_numbers N" and f: "flag_ok f"
  shows "parse_Flag N (Flag_json f) =
    Inr (Some (f\<lparr>flag_rules := map (\<lambda>r. r\<lparr>variationOrRollout := without_variation (variationOrRollout r)\<rparr>) (flag_rules f)\<rparr>))"
proof -
  obtain obj where obj: "Flag_json f = JObject obj" by (simp add: Flag_json_def Let_def)
  note m = obj [unfolded Flag_json_def Let_def json.inject, symmetric]
  have 1: "PARSE_FIELD_DEFAULT parse_bool obj ''trackEvents'' False = Inr (trackEvents f)"
    by (rule field_bool) (simp add: m)
  have 2: "PARSE_FIELD_DEFAULT parse_bool obj ''clientSide'' False = Inr (clientSide f)"
    by (rule field_bool) (simp add: m)
  have 3: "PARSE_FIELD_DEFAULT parse_bool obj ''on'' False = Inr (flag_on f)"
    by (rule field_bool) (simp add: m)
  have 4: "PARSE_FIELD_DEFAULT parse_bool obj ''trackEventsFallthrough'' False = Inr (trackEventsFallthrough f)"
    by (rule field_bool) (simp add: m)
  have 5: "PARSE_CONDITIONAL_FIELD (parse_uint64 N) obj ''debugEventsUntilDate'' = Inr (debugEventsUntilDate f)"
    by (rule field_optional [where w = JUint64]) (simp_all add: m N)
  have 6: "PARSE_CONDITIONAL_FIELD parse_string obj ''salt'' = Inr (flag_salt f)"
    by (rule field_optional [where w = JString]) (simp_all add: m)
  have 7: "PARSE_CONDITIONAL_FIELD (parse_int64 N) obj ''offVariation'' = Inr (offVariation f)"
    by (rule field_optional [where w = JInt64]) (simp_all add: m N)
  have 8: "PARSE_REQUIRED_FIELD parse_string obj ''key'' = Inr (flag_key f)"
    by (rule field_required [where j = "JString (flag_key f)"]) (simp_all add: m)
  have 9: "PARSE_FIELD_DEFAULT (parse_uint64 N) obj ''version'' 0 = Inr (flag_version f)"
    by (rule field_written [where j = "JUint64 (flag_version f)"]) (simp_all add: m N)
  have 10: "PARSE_FIELD_DEFAULT (parse_vector (parse_Value N)) obj ''variations'' [] = Inr (variations f)"
    by (rule field_vector [where w = Value_json])
      (use f in \<open>simp_all add: m flag_ok_def list_all_iff Value_json_roundtrip\<close>)
  have 11: "PARSE_FIELD_DEFAULT (parse_vector (parse_Rule N)) obj ''rules'' [] =
      Inr (map (\<lambda>r. r\<lparr>variationOrRollout := without_variation (variationOrRollout r)\<rparr>) (flag_rules f))"
    by (rule field_vector_map [where w = Rule_json]) (use N f in \<open>simp_all add: m flag_ok_def list_all_iff Rule_reread\<close>)
  have 12: "PARSE_FIELD_DEFAULT (parse_vector (parse_Prerequisite N)) obj ''prerequisites'' [] = Inr (prerequisites f)"
    by (rule field_vector [where w = Prerequisite_json]) (simp_all add: m N Prerequisite_roundtrip)
  have 13: "PARSE_FIELD_DEFAULT (parse_vector (parse_Target N)) obj ''contextTargets'' [] = Inr (contextTargets f)"
    by (rule field_vector [where w = Target_json]) (use N f in \<open>simp_all add: m flag_ok_def list_all_iff Target_roundtrip\<close>)
  have 14: "PARSE_FIELD_DEFAULT (parse_vector (parse_Target N)) obj ''targets'' [] = Inr (targets f)"
    by (rule field_vector [where w = UserTarget_json]) (use N f in \<open>simp_all add: m flag_ok_def list_all_iff UserTarget_roundtrip\<close>)
  have 15: "PARSE_FIELD_DEFAULT (parse_VariationOrRollout N) obj ''fallthrough'' (VVariation None) = Inr (fallthrough f)"
    by (rule field_minimal [where b = "has_fallthrough (fallthrough f)" and j = "VariationOrRollout_json (fallthrough f)"])
      (use N f in \<open>auto simp: m flag_ok_def has_fallthrough_def VariationOrRollout_roundtrip split: VariationOrRollout.splits\<close>)
  have 16: "PARSE_FIELD_DEFAULT parse_ClientSideAvailability obj ''clientSideAvailability'' (False, False) =
      Inr (usingEnvironmentId f, usingMobileKey f)"
    by (rule field_minimal [where b = "usingEnvironmentId f \<or> usingMobileKey f"
          and j = "ClientSideAvailability_json (usingEnvironmentId f, usingMobileKey f)"])
      (simp_all add: m ClientSideAvailability_roundtrip)
  show ?thesis by (simp add: parse_Flag_def obj 1 2 3 4 5 6 7 8 9 10 11 12 13 14 15 16)
qed

lemma Flag_roundtrip:
  assumes "exact_numbers N" and "flag_ok f" and "\<forall>r\<in>set (flag_rules f). \<exists>rollout. variationOrRollout r = VRollout rollout"
  shows "parse_Flag N (Flag_json f) = Inr (Some f)"
proof -
  have "map (\<lambda>r. r\<lparr>variationOrRollout := without_variation (variationOrRollout r)\<rparr>) (flag_rules f) = flag_rules f"
    using assms(3) by (intro map_idI) force
  then show ?thesis using Flag_reread [OF assms(1,2)] by simp
qed

lemma SegmentTarget_roundtrip:
  "kind_ok (starget_contextKind t) \<Longrightarrow> parse_SegmentTarget (SegmentTarget_json t) = Inr (Some t)"
  by (simp add: parse_SegmentTarget_def SegmentTarget_json_def PARSE_REQUIRED_FIELD_def PARSE_FIELD_DEFAULT_def
      PARSE_CONDITIONAL_FIELD_def del: parse_vector.simps)

lemma SegmentRule_roundtrip:
  assumes N: "exact_numbers N" and r: "list_all clause_ok (srule_clauses r)" "kind_ok (rolloutContextKind r)"
    "attribute_ok (srule_bucketBy r)"
  shows "parse_SegmentRule N (SegmentRule_json r) = Inr (Some r)"
proof -
  obtain obj where obj: "SegmentRule_json r = JObject obj" by (simp add: SegmentRule_json_def Let_def)
  note m = obj [unfolded SegmentRule_json_def Let_def json.inject, symmetric]
  have 1: "PARSE_FIELD_DEFAULT (parse_vector (parse_Clause N)) obj ''clauses'' [] = Inr (srule_clauses r)"
    by (rule field_vector_written [where w = Clause_json]) (use r in \<open>auto simp: m list_all_iff Clause_roundtrip\<close>)
  have 2: "PARSE_CONDITIONAL_FIELD (parse_uint64 N) obj ''weight'' = Inr (srule_weight r)"
    by (rule field_optional [where w = JUint64]) (simp_all add: m N)
  have 3: "PARSE_CONDITIONAL_FIELD parse_string obj ''id'' = Inr (srule_id r)"
    by (rule field_optional [where w = JString]) (simp_all add: m)
  have 4: "parse_ContextAwareReference ''rolloutContextKind'' ''bucketBy'' obj = Inr (rolloutContextKind r, srule_bucketBy r)"
    by (rule parse_reference) (use r in \<open>simp_all add: m\<close>)
  show ?thesis by (simp add: parse_SegmentRule_def obj 1 2 3 4)
qed

lemma Segment_roundtrip:
  assumes N: "exact_numbers N" and s: "segment_ok s"
  shows "parse_Segment N (Segment_json s) = Inr (Some s)"
proof -
  obtain obj where obj: "Segment_json s = JObject obj" by (simp add: Segment_json_def Let_def)
  note m = obj [unfolded Segment_json_def Let_def json.inject, symmetric]
  have 1: "PARSE_REQUIRED_FIELD parse_string obj ''key'' = Inr (segment_key s)"
    by (rule field_required [where j = "JString (segment_key s)"]) (simp_all add: m)
  have 2: "PARSE_REQUIRED_FIELD (parse_uint64 N) obj ''version'' = Inr (segment_version s)"
    by (rule field_required [where j = "JUint64 (segment_version s)"]) (simp_all add: m N)
  have 3: "PARSE_CONDITIONAL_FIELD (parse_uint64 N) obj ''generation'' = Inr (generation s)"
    by (rule field_optional [where w = JUint64]) (simp_all add: m N)
  have 4: "PARSE_CONDITIONAL_FIELD parse_string obj ''salt'' = Inr (segment_salt s)"
    by (rule field_optional [where w = JString]) (simp_all add: m)
  have 5: "PARSE_CONDITIONAL_FIELD parse_ContextKind obj ''unboundedContextKind'' = Inr (unboundedContextKind s)"
    by (rule field_optional [where w = JString]) (use s in \<open>simp_all add: m segment_ok_def\<close>)
  have 6: "PARSE_FIELD_DEFAULT (parse_vector parse_string) obj ''excluded'' [] = Inr (excluded s)"
    by (rule field_vector [where w = JString]) (simp_all add: m)
  have 7: "PARSE_FIELD_DEFAULT (parse_vector parse_string) obj ''included'' [] = Inr (included s)"
    by (rule field_vector [where w = JString]) (simp_all add: m)
  have 8: "PARSE_FIELD_DEFAULT parse_bool obj ''unbounded'' False = Inr (unbounded s)"
    by (rule field_bool) (simp add: m)
  have 9: "PARSE_FIELD_DEFAULT (parse_vector parse_SegmentTarget) obj ''includedContexts'' [] = Inr (includedContexts s)"
    by (rule field_vector [where w = SegmentTarget_json])
      (use s in \<open>simp_all add: m segment_ok_def list_all_iff SegmentTarget_roundtrip\<close>)
  have 10: "PARSE_FIELD_DEFAULT (parse_vector parse_SegmentTarget) obj ''excludedContexts'' [] = Inr (excludedContexts s)"
    by (rule field_vector [where w = SegmentTarget_json])
      (use s in \<open>simp_all add: m segment_ok_def list_all_iff SegmentTarget_roundtrip\<close>)
  have 11: "PARSE_FIELD_DEFAULT (parse_vector (parse_SegmentRule N)) obj ''rules'' [] = Inr (segment_rules s)"
    by (rule field_vector [where w = SegmentRule_json])
      (use N s in \<open>simp_all add: m segment_ok_def SegmentRule_roundtrip list_all_iff\<close>)
  have "map_of obj ''key'' \<noteq> None" by (simp add: m)
  then have "obj \<noteq> []" by auto
  then show ?thesis by (simp add: parse_Segment_def obj 1 2 3 4 5 6 7 8 9 10 11)
qed

section \<open>The kinds of integers do not matter\<close>

text \<open>
  A parser is blind to the kinds of integers when it reads the same from a JSON value and from its
  parsed form. The primitive parsers are, and the containers and field macros keep it.
\<close>

named_theorems kind_blind

lemma map_of_parsed_form [simp]:
  "map_of (map (map_prod (\<lambda>k. k) parsed_form) obj) k = map_option parsed_form (map_of obj k)"
  by (induction obj) auto

lemma blind_primitive [kind_blind]:
  "parse_bool (parsed_form j) = parse_bool j" "parse_string (parsed_form j) = parse_string j"
  by (cases j; simp)+

lemma blind_number [kind_blind]:
  assumes "exact_numbers N"
  shows "parse_uint64 N (parsed_form j) = parse_uint64 N j" "parse_int64 N (parsed_form j) = parse_int64 N j"
  using assms by (cases j; simp add: exact_numbers_def parse_uint64_def parse_int64_def)+

lemma blind_REQUIRE_STRING [kind_blind]: "REQUIRE_STRING body (parsed_form j) = REQUIRE_STRING body j"
  by (cases j) simp_all

lemma blind_REQUIRE_OBJECT:
  assumes "\<And>obj. body (map (map_prod (\<lambda>k. k) parsed_form) obj) = body obj"
  shows "REQUIRE_OBJECT body (parsed_form j) = REQUIRE_OBJECT body j"
  using assms by (cases j) simp_all

lemma blind_vector [kind_blind]:
  assumes "\<And>j. p (parsed_form j) = p j"
  shows "parse_vector p (parsed_form j) = parse_vector p j"
proof -
  have "parse_items p (map parsed_form js) = parse_items p js" for js
    by (induction js) (simp_all add: assms)
  then show ?thesis by (cases j) simp_all
qed

lemma blind_field [kind_blind]:
  assumes "\<And>j. p (parsed_form j) = p j"
  shows "PARSE_CONDITIONAL_FIELD p (map (map_prod (\<lambda>k. k) parsed_form) obj) k = PARSE_CONDITIONAL_FIELD p obj k"
    and "PARSE_FIELD_DEFAULT p (map (map_prod (\<lambda>k. k) parsed_form) obj) k d = PARSE_FIELD_DEFAULT p obj k d"
    and "PARSE_REQUIRED_FIELD p (map (map_prod (\<lambda>k. k) parsed_form) obj) k = PARSE_REQUIRED_FIELD p obj k"
  by (simp_all add: PARSE_CONDITIONAL_FIELD_def PARSE_FIELD_DEFAULT_def PARSE_REQUIRED_FIELD_def assms
      split: option.split)

lemma blind_Value:
  assumes "exact_numbers N"
  shows "parse_Value N (parsed_form j) = parse_Value N j"
    and "parse_Value_items N (map parsed_form js) = parse_Value_items N js"
    and "parse_Value_members N (map (map_prod (\<lambda>k. k) parsed_form) kvs) m = parse_Value_members N kvs m"
  using assms
  by (induction N j and N js and N kvs m rule: parse_Value_parse_Value_items_parse_Value_members.induct)
    (simp_all add: exact_numbers_def)

declare blind_Value(1) [kind_blind]

lemma blind_ContextKind [kind_blind]: "parse_ContextKind (parsed_form j) = parse_ContextKind j"
  by (simp add: parse_ContextKind_def kind_blind)

lemma blind_Op [kind_blind]: "parse_Op (parsed_form j) = parse_Op j"
  by (simp add: parse_Op_def kind_blind)

lemma blind_RolloutKind [kind_blind]: "parse_RolloutKind (parsed_form j) = parse_RolloutKind j"
  by (simp add: parse_RolloutKind_def kind_blind)

lemma blind_ContextAwareReference [kind_blind]:
  "parse_ContextAwareReference k a (map (map_prod (\<lambda>k. k) parsed_form) obj) = parse_ContextAwareReference k a obj"
  by (simp add: parse_ContextAwareReference_def kind_blind)

lemma blind_Clause [kind_blind]: "exact_numbers N \<Longrightarrow> parse_Clause N (parsed_form j) = parse_Clause N j"
  unfolding parse_Clause_def by (rule blind_REQUIRE_OBJECT) (simp add: kind_blind)

lemma blind_WeightedVariation [kind_blind]:
  "exact_numbers N \<Longrightarrow> parse_WeightedVariation N (parsed_form j) = parse_WeightedVariation N j"
  unfolding parse_WeightedVariation_def by (rule blind_REQUIRE_OBJECT) (simp add: kind_blind)

lemma blind_Rollout [kind_blind]: "exact_numbers N \<Longrightarrow> parse_Rollout N (parsed_form j) = parse_Rollout N j"
  unfolding parse_Rollout_def by (rule blind_REQUIRE_OBJECT) (simp add: kind_blind)

lemma blind_VariationOrRollout [kind_blind]:
  "exact_numbers N \<Longrightarrow> parse_VariationOrRollout N (parsed_form j) = parse_VariationOrRollout N j"
  unfolding parse_VariationOrRollout_def by (rule blind_REQUIRE_OBJECT) (simp add: kind_blind)

lemma blind_Prerequisite [kind_blind]:
  "exact_numbers N \<Longrightarrow> parse_Prerequisite N (parsed_form j) = parse_Prerequisite N j"
  unfolding parse_Prerequisite_def by (rule blind_REQUIRE_OBJECT) (simp add: kind_blind)

lemma blind_Target [kind_blind]: "exact_numbers N \<Longrightarrow> parse_Target N (parsed_form j) = parse_Target N j"
  unfolding parse_Target_def by (rule blind_REQUIRE_OBJECT) (simp add: kind_blind)

lemma blind_ClientSideAvailability [kind_blind]:
  "parse_ClientSideAvailability (parsed_form j) = parse_ClientSideAvailability j"
  unfolding parse_ClientSideAvailability_def by (rule blind_REQUIRE_OBJECT) (simp add: kind_blind)

lemma blind_Rule [kind_blind]:
  assumes "exact_numbers N"
  shows "parse_Rule N (parsed_form j) = parse_Rule N j"
proof -
  have "parse_VariationOrRollout N (JObject (map (map_prod (\<lambda>k. k) parsed_form) obj)) =
      parse_VariationOrRollout N (JObject obj)" for obj
    using blind_VariationOrRollout [OF assms, of "JObject obj"] by simp
  then show ?thesis
    unfolding parse_Rule_def by (intro blind_REQUIRE_OBJECT) (simp add: kind_blind assms)
qed

lemma blind_Flag [kind_blind]: "exact_numbers N \<Longrightarrow> parse_Flag N (parsed_form j) = parse_Flag N j"
  unfolding parse_Flag_def by (rule blind_REQUIRE_OBJECT) (simp add: kind_blind)

lemma blind_SegmentTarget [kind_blind]: "parse_SegmentTarget (parsed_form j) = parse_SegmentTarget j"
  unfolding parse_SegmentTarget_def by (rule blind_REQUIRE_OBJECT) (simp add: kind_blind)

lemma blind_SegmentRule [kind_blind]:
  "exact_numbers N \<Longrightarrow> parse_SegmentRule N (parsed_form j) = parse_SegmentRule N j"
  unfolding parse_SegmentRule_def by (rule blind_REQUIRE_OBJECT) (simp add: kind_blind)

lemma blind_Segment [kind_blind]: "exact_numbers N \<Longrightarrow> parse_Segment N (parsed_form j) = parse_Segment N j"
  unfolding parse_Segment_def by (rule blind_REQUIRE_OBJECT) (simp add: kind_blind)

lemma parsed_form_idem [simp]: "parsed_form (parsed_form j) = parsed_form j"
proof (induction j)
  case (JObject kvs)
  then show ?case by (auto simp: comp_def map_prod_def snds.simps)
qed simp_all

lemma same_json_read:
  assumes "exact_numbers N" and "same_json j j'"
  shows "parse_Flag N j = parse_Flag N j'" and "parse_Segment N j = parse_Segment N j'"
  using assms blind_Flag blind_Segment unfolding same_json_def by metis+

section \<open>Properties\<close>

lemma attribute_ok_reference: "attribute_ok (FromReferenceStr s)"
  by (simp add: attribute_ok_def FromReferenceStr_def MakeAttributeReference_def split: prod.splits)

lemma attribute_ok_literal:
  assumes "s \<noteq> []" and "NUL \<notin> set s"
  shows "attribute_ok (FromLiteralStr s)"
proof (cases "hd s = CHR ''/''")
  case True
  then show ?thesis using assms by (simp add: attribute_ok_def FromLiteralStr_eq FromReferenceStr_path)
next
  case False
  then have "decode_ref s = Some [s]" using assms(1) by (cases s) (simp_all add: decode_ref_def)
  then show ?thesis using False assms by (simp add: attribute_ok_def FromLiteralStr_eq FromReferenceStr_eq)
qed

definition sample_numbers :: numbers where
  "sample_numbers =
     \<lparr>to_uint64 = (\<lambda>j. case j of JUint64 n \<Rightarrow> Some n | JInt64 n \<Rightarrow> if 0 \<le> sint n then Some n else None | _ \<Rightarrow> None),
      to_int64 = (\<lambda>j. case j of JInt64 n \<Rightarrow> Some n | JUint64 n \<Rightarrow> if 0 \<le> sint n then Some n else None | _ \<Rightarrow> None),
      to_f64 = (\<lambda>j. case j of JUint64 n \<Rightarrow> of_u64 n | JInt64 n \<Rightarrow> to_double (of_int (sint n)) | _ \<Rightarrow> Fin 0)\<rparr>"

definition sample_clause :: Clause where
  "sample_clause =
     \<lparr>clause_op = kIn, clause_values = [VString ''beta''], negate = True, clause_contextKind = ''org'',
      clause_attribute = FromReferenceStr ''/plan/name''\<rparr>"

definition sample_rule :: "VariationOrRollout \<Rightarrow> Rule" where
  "sample_rule v =
     \<lparr>rule_clauses = [sample_clause], variationOrRollout = v, rule_trackEvents = True, flag_rule_id = Some ''r1''\<rparr>"

definition sample_json_flag :: Flag where
  "sample_json_flag =
     \<lparr>flag_key = ''f'', flag_version = 7, flag_on = True, fallthrough = VVariation (Some 1),
      variations = [VBool False, VObject [(''a'', VNumber (Fin 1))]],
      prerequisites = [\<lparr>prereq_key = ''g'', prereq_variation = 1\<rparr>],
      targets = [\<lparr>target_values = [''bob''], target_variation = 0, target_contextKind = ''user''\<rparr>],
      contextTargets = [\<lparr>target_values = [''acme''], target_variation = 1, target_contextKind = ''org''\<rparr>],
      flag_rules = [sample_rule (VRollout (Rollout1 [WeightedVariation2 0 40000, Untracked 1 60000]))],
      offVariation = Some 0, clientSide = False, usingMobileKey = False, usingEnvironmentId = True,
      flag_salt = Some ''s'', trackEvents = False, trackEventsFallthrough = True, debugEventsUntilDate = None\<rparr>"

definition sample_json_segment :: Segment where
  "sample_json_segment =
     \<lparr>segment_key = ''s'', segment_version = 3, included = [''bob''], excluded = [],
      includedContexts = [\<lparr>starget_contextKind = ''org'', starget_values = [''acme'']\<rparr>], excludedContexts = [],
      segment_rules = [\<lparr>srule_clauses = [sample_clause], srule_id = None, srule_weight = Some 50000,
        rolloutContextKind = ''user'', srule_bucketBy = FromReferenceStr ''key''\<rparr>],
      segment_salt = Some ''salt'', unbounded = False, unboundedContextKind = Some ''user'', generation = None\<rparr>"

lemma sample_numbers_exact: "exact_numbers sample_numbers"
proof -
  have "sint n = uint n" if "0 \<le> sint n" for n :: u64
  proof -
    have "\<not> bit (uint n) 63" using that by (simp add: sint_uint)
    then show ?thesis using take_bit_int_eq_self [of "uint n" 64] uint_lt2p [of n]
      by (simp add: sint_uint signed_take_bit_eq_take_bit_add)
  qed
  then have "to_double (of_int (sint n)) = of_u64 n" if "0 \<le> sint n" for n :: u64
    using that unfolding of_u64_def by metis
  then show ?thesis by (simp add: exact_numbers_def sample_numbers_def)
qed

lemma sample_clause_ok: "clause_ok sample_clause"
proof -
  have "ref_valid (FromReferenceStr ''/plan/name'')"
    by (simp add: FromReferenceStr_eq decode_ref_def)
  then show ?thesis by (simp add: clause_ok_def sample_clause_def kind_ok_def attribute_ok_reference)
qed

lemma sample_json_ok: "flag_ok sample_json_flag" "segment_ok sample_json_segment"
  by (simp_all add: flag_ok_def segment_ok_def sample_json_flag_def sample_json_segment_def rule_ok_def sample_rule_def
      rollout_ok_def Rollout1_def kind_ok_def omap_ok_def sample_clause_ok attribute_ok_reference)

lemma sample_flag_read: "parse_Flag sample_numbers (Flag_json sample_json_flag) = Inr (Some sample_json_flag)"
  using Flag_reread [OF sample_numbers_exact sample_json_ok(1)] by (simp add: sample_json_flag_def sample_rule_def)

lemma sample_parsed:
  "parse_Flag sample_numbers (parsed_form (Flag_json sample_json_flag)) = Inr (Some sample_json_flag)"
  "parse_Segment sample_numbers (parsed_form (Segment_json sample_json_segment)) = Inr (Some sample_json_segment)"
  using sample_flag_read Segment_roundtrip [OF sample_numbers_exact sample_json_ok(2)]
  by (simp_all add: blind_Flag blind_Segment sample_numbers_exact)

text \<open>
  C9. Reading a flag or a segment that was written gives it back, also after the JSON went through
  text: it does not matter of which kind the parser makes the integers. The JSON must be able to
  express the item: operators and rollout kinds are known ones, context kinds are not empty
  and without a NUL, attributes are those of their redaction names, the keys of objects among the
  values are sorted and without a NUL, user targets have the user kind and a variation that is not
  negative, and no rule of the flag serves a fixed variation. Boost converts an integer
  exactly or reports that it does not fit.
\<close>

theorem flag_and_segment_roundtrip:
  assumes "exact_numbers N" and "flag_ok flag" and "\<forall>r\<in>set (flag_rules flag). \<exists>rollout. variationOrRollout r = VRollout rollout"
    and "segment_ok segment" and "same_json j (Flag_json flag)" and "same_json j' (Segment_json segment)"
  shows "parse_Flag N j = Inr (Some flag) \<and> parse_Segment N j' = Inr (Some segment)"
  using assms same_json_read [OF assms(1)] by (simp add: Flag_roundtrip Segment_roundtrip)

theorem flag_and_segment_roundtrip_witness:
  "parse_Flag sample_numbers (Flag_json sample_json_flag) = Inr (Some sample_json_flag) \<and>
   parse_Segment sample_numbers (Segment_json sample_json_segment) = Inr (Some sample_json_segment) \<and>
   parse_Flag sample_numbers (parsed_form (Flag_json sample_json_flag)) = Inr (Some sample_json_flag) \<and>
   parse_Segment sample_numbers (parsed_form (Segment_json sample_json_segment)) = Inr (Some sample_json_segment)"
proof -
  have rollouts: "\<forall>r\<in>set (flag_rules sample_json_flag). \<exists>rollout. variationOrRollout r = VRollout rollout"
    by (simp add: sample_json_flag_def sample_rule_def)
  have same: "same_json j j" "same_json (parsed_form j) j" for j by (simp_all add: same_json_def parsed_form_idem)
  note roundtrip = flag_and_segment_roundtrip [OF sample_numbers_exact sample_json_ok(1) rollouts sample_json_ok(2)]
  show ?thesis using roundtrip [OF same(1) same(1)] roundtrip [OF same(2) same(2)] by simp
qed

text \<open>
  A user target with a negative variation cannot be read back: it is written as the unsigned
  number with the same bits, which does not fit the signed field.
\<close>

theorem negative_user_target_unreadable:
  assumes "exact_numbers N" and "sint (target_variation target) < 0"
  shows "parse_Target N (UserTarget_json target) = Inl kSchemaFailure"
  using assms by (simp add: parse_Target_def UserTarget_json_def PARSE_FIELD_DEFAULT_def PARSE_CONDITIONAL_FIELD_def
      del: parse_vector.simps)

text \<open>
  Writing a flag loses the variations of its rules: a rule that serves a fixed
  variation is read back as a rule that serves none, which the evaluator reports as a
  malformed flag, while everything else of the rule survives.
\<close>

theorem rule_variation_lost:
  assumes "exact_numbers N" and "rule_ok rule" and "variationOrRollout rule = VVariation (Some v)"
  shows "parse_Rule N (Rule_json rule) = Inr (Some (rule\<lparr>variationOrRollout := VVariation None\<rparr>))"
  using Rule_reread [OF assms(1,2)] assms(3) by simp

theorem rule_variation_lost_witness:
  "parse_Rule sample_numbers (Rule_json (sample_rule (VVariation (Some 1)))) =
     Inr (Some (sample_rule (VVariation None)))"
  using rule_variation_lost [OF sample_numbers_exact, of "sample_rule (VVariation (Some 1))" 1]
  by (simp add: rule_ok_def sample_rule_def sample_clause_ok)

end
