(* ===== verification/FDv2_Protocol.thy ===== *)
theory FDv2_Protocol
  imports Flag_Json Source_Manager Event_Processor
begin

text \<open>
  The FDv2 wire protocol: the events (\<^verbatim>\<open>json_fdv2_events.cpp\<close>), the handler that turns a
  sequence of events into change sets (\<^verbatim>\<open>fdv2_protocol_handler.cpp\<close>), the translation of a
  change set into changes of the store (\<^verbatim>\<open>fdv2_changeset_translation.cpp\<close>), and the handling
  of a polling response (\<^verbatim>\<open>fdv2_polling_impl.cpp\<close>). Parsing JSON text and comparing strings
  without case are functions of Boost and parameters here. The lemmas show that the handler
  emits exactly the changes of complete transfers.
\<close>

section \<open>The events\<close>

datatype IntentCode = icNone | icTransferFull | icTransferChanges | icUnknown

record ServerIntentPayload =
  payload_id :: string
  payload_target :: i64
  intent_code :: IntentCode
  payload_reason :: "string option"

record PutObject =
  put_version :: i64
  put_kind :: string
  put_key :: string
  put_object :: json

record DeleteObject =
  del_version :: i64
  del_kind :: string
  del_key :: string

record PayloadTransferred =
  transferred_state :: string
  transferred_version :: i64

record Goodbye =
  goodbye_reason :: "string option"
  protocol_fallback_ttl :: "i64 option"

record FDv2Error =
  fdv2_error_id :: "string option"
  fdv2_error_reason :: string

definition parse_IntentCode :: "IntentCode parser" where
  "parse_IntentCode = REQUIRE_STRING (\<lambda>str.
     Inr (Some
       (if str = ''none'' then icNone
        else if str = ''xfer-full'' then icTransferFull
        else if str = ''xfer-changes'' then icTransferChanges
        else icUnknown)))"

definition parse_ServerIntentPayload :: "numbers \<Rightarrow> ServerIntentPayload parser" where
  "parse_ServerIntentPayload N = REQUIRE_OBJECT (\<lambda>obj.
     res_bind (PARSE_REQUIRED_FIELD parse_string obj ''id'') (\<lambda>i.
     res_bind (PARSE_REQUIRED_FIELD (parse_int64 N) obj ''target'') (\<lambda>target.
     res_bind (PARSE_REQUIRED_FIELD parse_IntentCode obj ''intentCode'') (\<lambda>code.
     res_bind (PARSE_CONDITIONAL_FIELD parse_string obj ''reason'') (\<lambda>reason.
       Inr (Some
         \<lparr>payload_id = i, payload_target = target, intent_code = code, payload_reason = reason\<rparr>))))))"

definition parse_ServerIntent :: "numbers \<Rightarrow> ServerIntentPayload list parser" where
  "parse_ServerIntent N = REQUIRE_OBJECT (\<lambda>obj.
     res_bind (PARSE_REQUIRED_FIELD (parse_vector (parse_ServerIntentPayload N)) obj ''payloads'') (\<lambda>payloads.
       Inr (Some payloads)))"

definition parse_PutObject :: "numbers \<Rightarrow> PutObject parser" where
  "parse_PutObject N = REQUIRE_OBJECT (\<lambda>obj.
     res_bind (PARSE_REQUIRED_FIELD (parse_int64 N) obj ''version'') (\<lambda>version.
     res_bind (PARSE_REQUIRED_FIELD parse_string obj ''kind'') (\<lambda>kind.
     res_bind (PARSE_REQUIRED_FIELD parse_string obj ''key'') (\<lambda>key.
       case map_of obj ''object'' of
         None \<Rightarrow> Inl kSchemaFailure
       | Some j \<Rightarrow> Inr (Some \<lparr>put_version = version, put_kind = kind, put_key = key, put_object = j\<rparr>)))))"

definition parse_DeleteObject :: "numbers \<Rightarrow> DeleteObject parser" where
  "parse_DeleteObject N = REQUIRE_OBJECT (\<lambda>obj.
     res_bind (PARSE_REQUIRED_FIELD (parse_int64 N) obj ''version'') (\<lambda>version.
     res_bind (PARSE_REQUIRED_FIELD parse_string obj ''kind'') (\<lambda>kind.
     res_bind (PARSE_REQUIRED_FIELD parse_string obj ''key'') (\<lambda>key.
       Inr (Some \<lparr>del_version = version, del_kind = kind, del_key = key\<rparr>)))))"

definition parse_PayloadTransferred :: "numbers \<Rightarrow> PayloadTransferred parser" where
  "parse_PayloadTransferred N = REQUIRE_OBJECT (\<lambda>obj.
     res_bind (PARSE_REQUIRED_FIELD parse_string obj ''state'') (\<lambda>state.
     res_bind (PARSE_REQUIRED_FIELD (parse_int64 N) obj ''version'') (\<lambda>version.
       Inr (Some \<lparr>transferred_state = state, transferred_version = version\<rparr>))))"

definition parse_Goodbye :: "numbers \<Rightarrow> Goodbye parser" where
  "parse_Goodbye N = REQUIRE_OBJECT (\<lambda>obj.
     res_bind (PARSE_CONDITIONAL_FIELD parse_string obj ''reason'') (\<lambda>reason.
     res_bind (PARSE_CONDITIONAL_FIELD (parse_int64 N) obj ''protocolFallbackTTL'') (\<lambda>ttl.
       Inr (Some \<lparr>goodbye_reason = reason, protocol_fallback_ttl = ttl\<rparr>))))"

definition parse_FDv2Error :: "FDv2Error parser" where
  "parse_FDv2Error = REQUIRE_OBJECT (\<lambda>obj.
     res_bind (PARSE_REQUIRED_FIELD parse_string obj ''reason'') (\<lambda>reason.
     res_bind (PARSE_CONDITIONAL_FIELD parse_string obj ''id'') (\<lambda>i.
       Inr (Some \<lparr>fdv2_error_id = i, fdv2_error_reason = reason\<rparr>))))"

section \<open>The protocol handler\<close>

datatype ChangeType = kPut | kDelete

record FDv2Change =
  fc_type :: ChangeType
  fc_kind :: string
  fc_key :: string
  fc_version :: u64
  fc_object :: json

record FDv2ChangeSet =
  fcs_type :: ChangeSetType
  fcs_changes :: "FDv2Change list"
  fcs_selector :: Selector

datatype HandlerErrorKind = kJsonError | kProtocolError | kServerError

record HandlerError =
  err_kind :: HandlerErrorKind
  err_message :: string
  err_json :: "JsonError option"
  err_server :: "FDv2Error option"

definition JsonParseError :: "JsonError option \<Rightarrow> string \<Rightarrow> HandlerError" where
  "JsonParseError err msg =
     \<lparr>err_kind = kJsonError, err_message = msg, err_json = err, err_server = None\<rparr>"

definition ProtocolError :: "string \<Rightarrow> HandlerError" where
  "ProtocolError msg =
     \<lparr>err_kind = kProtocolError, err_message = msg, err_json = None, err_server = None\<rparr>"

definition ServerError :: "FDv2Error \<Rightarrow> HandlerError" where
  "ServerError err =
     \<lparr>err_kind = kServerError, err_message = fdv2_error_reason err, err_json = None,
      err_server = Some err\<rparr>"

datatype HandlerResult =
    HrNothing
  | HrChangeSet FDv2ChangeSet
  | HrError HandlerError
  | HrGoodbye Goodbye

datatype HandlerState = kInactive | kFullTransfer | kPartialTransfer

record Handler =
  h_state :: HandlerState
  h_changes :: "FDv2Change list"

definition Handler_new :: Handler where
  "Handler_new = \<lparr>h_state = kInactive, h_changes = []\<rparr>"

definition Reset_handler :: "Handler \<Rightarrow> Handler" where
  "Reset_handler h = h\<lparr>h_state := kInactive, h_changes := []\<rparr>"

definition HandleServerIntent :: "numbers \<Rightarrow> json \<Rightarrow> Handler \<Rightarrow> HandlerResult \<times> Handler" where
  "HandleServerIntent N data h =
     (case parse_ServerIntent N data of
        Inl e \<Rightarrow> (HrError (JsonParseError (Some e) ''could not deserialize server-intent''), Reset_handler h)
      | Inr None \<Rightarrow> (HrError (JsonParseError None ''server-intent data was null''), Reset_handler h)
      | Inr (Some []) \<Rightarrow> (HrNothing, Reset_handler h)
      | Inr (Some (payload # _)) \<Rightarrow>
          (let h = h\<lparr>h_changes := []\<rparr> in
           case intent_code payload of
             icTransferFull \<Rightarrow> (HrNothing, h\<lparr>h_state := kFullTransfer\<rparr>)
           | icTransferChanges \<Rightarrow> (HrNothing, h\<lparr>h_state := kPartialTransfer\<rparr>)
           | icNone \<Rightarrow>
               (HrChangeSet \<lparr>fcs_type = kNoChange, fcs_changes = [], fcs_selector = None\<rparr>,
                h\<lparr>h_state := kPartialTransfer\<rparr>)
           | icUnknown \<Rightarrow>
               (HrError (ProtocolError ''server-intent had an unrecognized intent code''), Reset_handler h)))"

definition HandlePutObject :: "numbers \<Rightarrow> json \<Rightarrow> Handler \<Rightarrow> HandlerResult \<times> Handler" where
  "HandlePutObject N data h =
     (case parse_PutObject N data of
        Inl e \<Rightarrow> (HrError (JsonParseError (Some e) ''could not deserialize put-object''), Reset_handler h)
      | Inr None \<Rightarrow> (HrError (JsonParseError None ''put-object data was null''), Reset_handler h)
      | Inr (Some put) \<Rightarrow>
          (HrNothing, h\<lparr>h_changes := h_changes h @
             [\<lparr>fc_type = kPut, fc_kind = put_kind put, fc_key = put_key put, fc_version = put_version put,
               fc_object = put_object put\<rparr>]\<rparr>))"

definition HandleDeleteObject :: "numbers \<Rightarrow> json \<Rightarrow> Handler \<Rightarrow> HandlerResult \<times> Handler" where
  "HandleDeleteObject N data h =
     (case parse_DeleteObject N data of
        Inl e \<Rightarrow> (HrError (JsonParseError (Some e) ''could not deserialize delete-object''), Reset_handler h)
      | Inr None \<Rightarrow> (HrError (JsonParseError None ''delete-object data was null''), Reset_handler h)
      | Inr (Some del) \<Rightarrow>
          (HrNothing, h\<lparr>h_changes := h_changes h @
             [\<lparr>fc_type = kDelete, fc_kind = del_kind del, fc_key = del_key del, fc_version = del_version del,
               fc_object = JNull\<rparr>]\<rparr>))"

definition HandlePayloadTransferred :: "numbers \<Rightarrow> json \<Rightarrow> Handler \<Rightarrow> HandlerResult \<times> Handler" where
  "HandlePayloadTransferred N data h =
     (if h_state h = kInactive then
        (HrError (ProtocolError ''payload-transferred received without an active server-intent''), Reset_handler h)
      else case parse_PayloadTransferred N data of
        Inl e \<Rightarrow> (HrError (JsonParseError (Some e) ''could not deserialize payload-transferred''), Reset_handler h)
      | Inr None \<Rightarrow> (HrError (JsonParseError None ''payload-transferred data was null''), Reset_handler h)
      | Inr (Some transferred) \<Rightarrow>
          (HrChangeSet
             \<lparr>fcs_type = (if h_state h = kPartialTransfer then kPartial else kFull), fcs_changes = h_changes h,
              fcs_selector = Some \<lparr>sel_version = transferred_version transferred,
                sel_state = transferred_state transferred\<rparr>\<rparr>,
           h\<lparr>h_changes := [], h_state := kPartialTransfer\<rparr>))"

definition HandleError :: "json \<Rightarrow> Handler \<Rightarrow> HandlerResult \<times> Handler" where
  "HandleError data h =
     (let h = h\<lparr>h_changes := []\<rparr> in
      case parse_FDv2Error data of
        Inl e \<Rightarrow> (HrError (JsonParseError (Some e) ''could not deserialize error event''), h)
      | Inr None \<Rightarrow> (HrError (JsonParseError None ''error event data was null''), h)
      | Inr (Some err) \<Rightarrow> (HrError (ServerError err), h))"

definition HandleGoodbye :: "numbers \<Rightarrow> json \<Rightarrow> Handler \<Rightarrow> HandlerResult \<times> Handler" where
  "HandleGoodbye N data h =
     (let h = Reset_handler h in
      case parse_Goodbye N data of
        Inr (Some goodbye) \<Rightarrow> (HrGoodbye goodbye, h)
      | _ \<Rightarrow> (HrGoodbye \<lparr>goodbye_reason = None, protocol_fallback_ttl = None\<rparr>, h))"

definition IsKnownEvent :: "string \<Rightarrow> bool" where
  "IsKnownEvent event_type \<longleftrightarrow>
     event_type = ''server-intent'' \<or> event_type = ''put-object'' \<or> event_type = ''delete-object'' \<or>
     event_type = ''payload-transferred'' \<or> event_type = ''error'' \<or> event_type = ''goodbye''"

definition HandleEvent :: "numbers \<Rightarrow> string \<Rightarrow> json \<Rightarrow> Handler \<Rightarrow> HandlerResult \<times> Handler" where
  "HandleEvent N event_type data h =
     (if event_type = ''server-intent'' then HandleServerIntent N data h
      else if event_type = ''put-object'' then HandlePutObject N data h
      else if event_type = ''delete-object'' then HandleDeleteObject N data h
      else if event_type = ''payload-transferred'' then HandlePayloadTransferred N data h
      else if event_type = ''error'' then HandleError data h
      else if event_type = ''goodbye'' then HandleGoodbye N data h
      else (HrNothing, h))"

section \<open>Translation into changes of the store\<close>

definition TranslateDelete :: "FDv2Change \<Rightarrow> ItemChange option" where
  "TranslateDelete change =
     (if fc_kind change = ''flag'' then
        Some \<lparr>change_key = fc_key change, change_object = FlagObject (Tombstone (fc_version change))\<rparr>
      else if fc_kind change = ''segment'' then
        Some \<lparr>change_key = fc_key change, change_object = SegmentObject (Tombstone (fc_version change))\<rparr>
      else None)"

definition TranslatePut :: "'a parser \<Rightarrow> ('a \<Rightarrow> ItemObject) \<Rightarrow> FDv2Change \<Rightarrow> ChangeSetData \<Rightarrow> ChangeSetData option" where
  "TranslatePut p descriptor change changes =
     (case p (fc_object change) of
        Inl _ \<Rightarrow> None
      | Inr None \<Rightarrow> Some changes
      | Inr (Some item) \<Rightarrow>
          Some (changes @ [\<lparr>change_key = fc_key change, change_object = descriptor item\<rparr>]))"

definition translate_change :: "numbers \<Rightarrow> FDv2Change \<Rightarrow> ChangeSetData \<Rightarrow> ChangeSetData option" where
  "translate_change N change changes =
     (case fc_type change of
        kDelete \<Rightarrow>
          Some (case TranslateDelete change of Some item \<Rightarrow> changes @ [item] | None \<Rightarrow> changes)
      | kPut \<Rightarrow>
          if fc_kind change = ''flag'' then
            TranslatePut (parse_Flag N) (\<lambda>f. FlagObject (FlagDescriptor_of f)) change changes
          else if fc_kind change = ''segment'' then
            TranslatePut (parse_Segment N) (\<lambda>s. SegmentObject (SegmentDescriptor_of s)) change changes
          else Some changes)"

fun translate_changes :: "numbers \<Rightarrow> FDv2Change list \<Rightarrow> ChangeSetData \<Rightarrow> ChangeSetData option" where
  "translate_changes N [] changes = Some changes"
| "translate_changes N (c # cs) changes =
     (case translate_change N c changes of None \<Rightarrow> None | Some changes \<Rightarrow> translate_changes N cs changes)"

definition TranslateChangeSet :: "numbers \<Rightarrow> FDv2ChangeSet \<Rightarrow> ChangeSetData ChangeSet option" where
  "TranslateChangeSet N change_set =
     (if fcs_type change_set = kNoChange then
        Some \<lparr>cs_type = fcs_type change_set, cs_data = [], cs_selector = fcs_selector change_set\<rparr>
      else map_option (\<lambda>changes.
        \<lparr>cs_type = fcs_type change_set, cs_data = changes, cs_selector = fcs_selector change_set\<rparr>)
        (translate_changes N (fcs_changes change_set) []))"

section \<open>Polling responses\<close>

text \<open>
  \<^verbatim>\<open>boost::json::parse\<close> with an error code, \<^verbatim>\<open>boost::iequals\<close> and the number conversions.
\<close>

record wire =
  wire_numbers :: numbers
  json_parse :: "string \<Rightarrow> json option"
  iequals :: "string \<Rightarrow> string \<Rightarrow> bool"

record PollResult = HttpResult +
  res_body :: "string option"
  res_error_message :: "string option"

definition MakeError :: "int \<Rightarrow> DataSourceStatusErrorKind \<Rightarrow> u64 \<Rightarrow> string \<Rightarrow> ErrorInfo" where
  "MakeError now kind status message =
     \<lparr>ei_kind = kind, ei_status_code = status, ei_message = message, ei_time = now\<rparr>"

abbreviation plain_result :: "SourceValue \<Rightarrow> FDv2SourceResult" where
  "plain_result v \<equiv> \<lparr>src_value = v, fdv1_fallback = None\<rparr>"

text \<open>
  \<^verbatim>\<open>std::from_chars\<close> for \<^verbatim>\<open>uint64_t\<close> over the whole input; \<^verbatim>\<open>std::chrono::seconds\<close> counts in a
  signed 64-bit integer.
\<close>

definition is_decimal :: "char \<Rightarrow> bool" where
  "is_decimal c \<longleftrightarrow> 48 \<le> (of_char c :: nat) \<and> (of_char c :: nat) \<le> 57"

definition decimal_value :: "string \<Rightarrow> nat" where
  "decimal_value s = fold (\<lambda>c n. 10 * n + (of_char c - 48)) s 0"

definition ParseTtl :: "string \<Rightarrow> int option" where
  "ParseTtl val =
     (if val \<noteq> [] \<and> list_all is_decimal val \<and> decimal_value val < 2 ^ 64
      then Some (sint (of_nat (decimal_value val) :: u64)) else None)"

definition kDefaultTtl :: int where
  "kDefaultTtl = 3600"

text \<open>The directive from the values of its two headers.\<close>

definition fallback_directive :: "wire \<Rightarrow> string option \<Rightarrow> string option \<Rightarrow> int option" where
  "fallback_directive W fallback ttl =
     (case fallback of
        None \<Rightarrow> None
      | Some v \<Rightarrow>
          if \<not> iequals W v ''true'' then None
          else Some (case Option.bind ttl ParseTtl of Some t \<Rightarrow> t | None \<Rightarrow> kDefaultTtl))"

definition ReadFDv1FallbackDirective :: "wire \<Rightarrow> (string \<times> string) list \<Rightarrow> int option" where
  "ReadFDv1FallbackDirective W headers =
     fallback_directive W (headers_find ''X-LD-FD-Fallback'' headers)
       (headers_find ''X-LD-FD-Fallback-TTL'' headers)"

definition goodbye_result :: "Goodbye \<Rightarrow> FDv2SourceResult" where
  "goodbye_result goodbye =
     \<lparr>src_value = SrcGoodbye (goodbye_reason goodbye),
      fdv1_fallback = map_option sint (protocol_fallback_ttl goodbye)\<rparr>"

text \<open>
  The message for an \<^verbatim>\<open>error\<close> event of the server; a server error always carries the event.
\<close>

definition server_error_message :: "HandlerError \<Rightarrow> string" where
  "server_error_message err =
     ''An issue was encountered receiving updates for payload '' @ [CHR 0x27] @
     (case Option.bind (err_server err) fdv2_error_id of Some i \<Rightarrow> i | None \<Rightarrow> []) @
     [CHR 0x27] @ '' with reason: '' @ [CHR 0x27] @ err_message err @ [CHR 0x27] @
     ''. Automatic retry will occur.''"

definition poll_interrupted :: "int \<Rightarrow> string \<Rightarrow> FDv2SourceResult" where
  "poll_interrupted now msg = plain_result (SrcInterrupted (MakeError now ekInvalidData 0 msg))"

fun ParseFDv2PollEvents :: "numbers \<Rightarrow> int \<Rightarrow> json list \<Rightarrow> Handler \<Rightarrow> FDv2SourceResult \<times> Handler" where
  "ParseFDv2PollEvents N now [] h =
     (poll_interrupted now ''FDv2 polling response did not contain a complete payload'', h)"
| "ParseFDv2PollEvents N now (j # js) h =
     (case j of
        JObject obj \<Rightarrow>
          (case (map_of obj ''event'', map_of obj ''data'') of
             (Some (JString event_type), Some data) \<Rightarrow>
               (case HandleEvent N event_type data h of
                  (HrNothing, h) \<Rightarrow> ParseFDv2PollEvents N now js h
                | (HrChangeSet change_set, h) \<Rightarrow>
                    (case TranslateChangeSet N change_set of
                       None \<Rightarrow> (poll_interrupted now ''FDv2 polling response could not be translated'', h)
                     | Some typed \<Rightarrow> (plain_result (SrcChangeSet typed), h))
                | (HrGoodbye goodbye, h) \<Rightarrow> (goodbye_result goodbye, h)
                | (HrError err, h) \<Rightarrow>
                    if err_kind err = kServerError
                    then (plain_result (SrcInterrupted (MakeError now ekErrorResponse 0 (server_error_message err))), h)
                    else (poll_interrupted now (err_message err), h))
           | _ \<Rightarrow> ParseFDv2PollEvents N now js h)
      | _ \<Rightarrow> ParseFDv2PollEvents N now js h)"

definition ParseFDv2PollResponse :: "wire \<Rightarrow> int \<Rightarrow> string \<Rightarrow> Handler \<Rightarrow> FDv2SourceResult \<times> Handler" where
  "ParseFDv2PollResponse W now body h =
     (case json_parse W body of
        Some (JObject obj) \<Rightarrow>
          (case map_of obj ''events'' of
             Some (JArray events) \<Rightarrow> ParseFDv2PollEvents (wire_numbers W) now events h
           | _ \<Rightarrow> (poll_interrupted now (''FDv2 polling response missing '' @ [CHR 0x27] @ ''events'' @ [CHR 0x27] @ '' array''), h))
      | _ \<Rightarrow> (poll_interrupted now ''Could not parse FDv2 polling response'', h))"

definition IsRecoverableStatus :: "u64 \<Rightarrow> bool" where
  "IsRecoverableStatus status \<longleftrightarrow>
     status < 400 \<or> status > 499 \<or> status = 400 \<or> status = 408 \<or> status = 429"

definition ErrorForStatusCode :: "u64 \<Rightarrow> string \<Rightarrow> string option \<Rightarrow> string" where
  "ErrorForStatusCode code ctx retry_message =
     ''HTTP error '' @ nat_str (unat code) @
     (if code = 401 \<or> code = 403 then ''(invalid SDK key) '' else '' '') @ ''for: '' @ ctx @ '' - '' @
     (case retry_message of Some m \<Rightarrow> m | None \<Rightarrow> ''giving up permanently'')"

definition HandleFDv2PollResponse :: "wire \<Rightarrow> int \<Rightarrow> PollResult \<Rightarrow> Handler \<Rightarrow> FDv2SourceResult \<times> Handler" where
  "HandleFDv2PollResponse W now res h =
     (if res_error res then
        (plain_result (SrcInterrupted (MakeError now ekNetworkError 0
           (case res_error_message res of Some m \<Rightarrow> m | None \<Rightarrow> ''unknown error''))), h)
      else
        let fallback = ReadFDv1FallbackDirective W (res_headers res) in
        if res_status res = 304 then
          (\<lparr>src_value = SrcChangeSet \<lparr>cs_type = kNoChange, cs_data = [], cs_selector = None\<rparr>,
            fdv1_fallback = fallback\<rparr>, h)
        else if res_status res = 200 then
          (case res_body res of
             None \<Rightarrow>
               (\<lparr>src_value = SrcInterrupted (MakeError now ekInvalidData 0 ''polling response contained no body''),
                 fdv1_fallback = fallback\<rparr>, h)
           | Some body \<Rightarrow>
               (case ParseFDv2PollResponse W now body h of (result, h) \<Rightarrow>
                  (if fdv1_fallback result = None then result\<lparr>fdv1_fallback := fallback\<rparr> else result, h)))
        else if IsRecoverableStatus (res_status res) then
          (\<lparr>src_value = SrcInterrupted (MakeError now ekErrorResponse (res_status res)
              (ErrorForStatusCode (res_status res) ''FDv2 polling request'' (Some ''will retry''))),
            fdv1_fallback = fallback\<rparr>, h)
        else
          (\<lparr>src_value = SrcTerminalError (MakeError now ekErrorResponse (res_status res)
              (ErrorForStatusCode (res_status res) ''FDv2 polling request'' None)),
            fdv1_fallback = fallback\<rparr>, h))"

section \<open>Transfers\<close>

fun run_events :: "numbers \<Rightarrow> (string \<times> json) list \<Rightarrow> Handler \<Rightarrow> HandlerResult list \<times> Handler" where
  "run_events N [] h = ([], h)"
| "run_events N ((event_type, data) # es) h =
     (case HandleEvent N event_type data h of (r, h) \<Rightarrow>
       case run_events N es h of (rs, h) \<Rightarrow> (r # rs, h))"

text \<open>The change that an event announces, when it can be read.\<close>

definition change_of :: "numbers \<Rightarrow> string \<times> json \<Rightarrow> FDv2Change option" where
  "change_of N e =
     (if fst e = ''put-object'' then
        (case parse_PutObject N (snd e) of
           Inr (Some put) \<Rightarrow>
             Some \<lparr>fc_type = kPut, fc_kind = put_kind put, fc_key = put_key put, fc_version = put_version put,
               fc_object = put_object put\<rparr>
         | _ \<Rightarrow> None)
      else if fst e = ''delete-object'' then
        (case parse_DeleteObject N (snd e) of
           Inr (Some del) \<Rightarrow>
             Some \<lparr>fc_type = kDelete, fc_kind = del_kind del, fc_key = del_key del, fc_version = del_version del,
               fc_object = JNull\<rparr>
         | _ \<Rightarrow> None)
      else None)"

definition is_change_event :: "string \<times> json \<Rightarrow> bool" where
  "is_change_event e \<longleftrightarrow> fst e = ''put-object'' \<or> fst e = ''delete-object''"

lemma handle_change:
  assumes "is_change_event (ty, data)"
  shows "case change_of N (ty, data) of
      Some c \<Rightarrow> HandleEvent N ty data h = (HrNothing, h\<lparr>h_changes := h_changes h @ [c]\<rparr>)
    | None \<Rightarrow> (\<exists>err. HandleEvent N ty data h = (HrError err, Reset_handler h))"
  using assms
  by (auto simp: is_change_event_def change_of_def HandleEvent_def HandlePutObject_def HandleDeleteObject_def
      split: sum.splits option.splits)

lemma run_events_append:
  "run_events N (es @ es') h =
     (case run_events N es h of (rs, h) \<Rightarrow> case run_events N es' h of (rs', h) \<Rightarrow> (rs @ rs', h))"
  by (induction es arbitrary: h) (auto split: prod.splits)

lemma run_changes:
  assumes "\<forall>e\<in>set es. is_change_event e"
  shows "if \<forall>e\<in>set es. change_of N e \<noteq> None
    then run_events N es h =
      (replicate (length es) HrNothing, h\<lparr>h_changes := h_changes h @ map (\<lambda>e. the (change_of N e)) es\<rparr>)
    else h_state (snd (run_events N es h)) = kInactive"
  using assms
proof (induction es arbitrary: h)
  case (Cons e es)
  obtain ty data where e: "e = (ty, data)" by (cases e)
  show ?case
  proof (cases "change_of N e")
    case None
    then obtain err where step: "HandleEvent N ty data h = (HrError err, Reset_handler h)"
      using handle_change [of ty data N h] Cons.prems e by auto
    have "h_state (snd (run_events N es (Reset_handler h))) = kInactive"
      using Cons.IH [of "Reset_handler h"] Cons.prems
      by (auto simp: Reset_handler_def split: if_splits)
    then show ?thesis using None step e by (auto split: prod.splits)
  next
    case (Some c)
    then have "HandleEvent N ty data h = (HrNothing, h\<lparr>h_changes := h_changes h @ [c]\<rparr>)"
      using handle_change [of ty data N h] Cons.prems e by auto
    then show ?thesis using Cons.IH [of "h\<lparr>h_changes := h_changes h @ [c]\<rparr>"] Cons.prems Some e
      by (auto split: prod.splits if_splits)
  qed
qed simp

lemma run_changes_emit_nothing:
  "\<forall>e\<in>set es. is_change_event e \<Longrightarrow> HrChangeSet cs \<notin> set (fst (run_events N es h))"
proof (induction es arbitrary: h)
  case (Cons e es)
  obtain ty data where e: "e = (ty, data)" by (cases e)
  have "fst (HandleEvent N ty data h) \<noteq> HrChangeSet cs"
    using handle_change [of ty data N h] Cons.prems e by (auto split: option.splits)
  moreover have "HrChangeSet cs \<notin> set (fst (run_events N es (snd (HandleEvent N ty data h))))"
    using Cons.IH Cons.prems by simp
  ultimately show ?case using e by (auto split: prod.splits)
qed simp

text \<open>The state that a server intent leaves when it announces a transfer.\<close>

definition opens :: "numbers \<Rightarrow> json \<Rightarrow> HandlerState \<Rightarrow> bool" where
  "opens N intent state \<longleftrightarrow>
     (case parse_ServerIntent N intent of
        Inr (Some (payload # _)) \<Rightarrow>
          intent_code payload = icTransferFull \<and> state = kFullTransfer \<or>
          intent_code payload = icTransferChanges \<and> state = kPartialTransfer
      | _ \<Rightarrow> False)"

lemma handle_intent:
  "opens N intent state \<Longrightarrow>
     HandleEvent N ''server-intent'' intent h = (HrNothing, \<lparr>h_state = state, h_changes = []\<rparr>) \<and> state \<noteq> kInactive"
  by (cases h) (auto simp: opens_def HandleEvent_def HandleServerIntent_def split: sum.splits option.splits list.splits)

lemma handle_transferred:
  "HandleEvent N ''payload-transferred'' data h = HandlePayloadTransferred N data h"
  by (simp add: HandleEvent_def)

lemma complete_transfer:
  assumes "opens N intent state" and "\<forall>e\<in>set es. change_of N e \<noteq> None" and "\<forall>e\<in>set es. is_change_event e"
    and "parse_PayloadTransferred N transferred = Inr (Some t)"
  shows "run_events N ((''server-intent'', intent) # es @ [(''payload-transferred'', transferred)]) h =
    (replicate (Suc (length es)) HrNothing @
       [HrChangeSet \<lparr>fcs_type = (if state = kPartialTransfer then kPartial else kFull),
          fcs_changes = map (\<lambda>e. the (change_of N e)) es,
          fcs_selector = Some \<lparr>sel_version = transferred_version t, sel_state = transferred_state t\<rparr>\<rparr>],
     \<lparr>h_state = kPartialTransfer, h_changes = []\<rparr>)"
proof -
  have changes: "run_events N es \<lparr>h_state = state, h_changes = []\<rparr> =
      (replicate (length es) HrNothing, \<lparr>h_state = state, h_changes = map (\<lambda>e. the (change_of N e)) es\<rparr>)"
    using run_changes [OF assms(3), of N "\<lparr>h_state = state, h_changes = []\<rparr>"] assms(2) by simp
  have "HandleEvent N ''server-intent'' intent h = (HrNothing, \<lparr>h_state = state, h_changes = []\<rparr>)"
    and "state \<noteq> kInactive" using handle_intent [OF assms(1)] by auto
  then show ?thesis
    using changes assms(4) by (simp add: run_events_append handle_transferred HandlePayloadTransferred_def)
qed

section \<open>Properties\<close>

text \<open>
  C6. A transfer is emitted as a whole or not at all. After a server intent that announces
  a full or partial transfer, any put and delete events and a payload-transferred event
  emit exactly one change set, with every announced change in order and the selector of
  the transfer, provided that every change can be read; the handler is then ready for
  another partial transfer. If one of them cannot be read, no change set is emitted and the
  end of the transfer is a protocol error, whatever came before the intent.
\<close>

theorem transfer_all_or_nothing:
  assumes "opens N intent state" and "\<forall>e\<in>set es. is_change_event e"
    and "parse_PayloadTransferred N transferred = Inr (Some t)"
    and "run_events N ((''server-intent'', intent) # es @ [(''payload-transferred'', transferred)]) h = (rs, h')"
  shows "if \<forall>e\<in>set es. change_of N e \<noteq> None
    then rs = replicate (Suc (length es)) HrNothing @
        [HrChangeSet \<lparr>fcs_type = (if state = kPartialTransfer then kPartial else kFull),
          fcs_changes = map (\<lambda>e. the (change_of N e)) es,
          fcs_selector = Some \<lparr>sel_version = transferred_version t, sel_state = transferred_state t\<rparr>\<rparr>] \<and>
      h' = \<lparr>h_state = kPartialTransfer, h_changes = []\<rparr>
    else (\<forall>cs. HrChangeSet cs \<notin> set rs) \<and>
      last rs = HrError (ProtocolError ''payload-transferred received without an active server-intent'') \<and>
      h' = Handler_new"
proof (cases "\<forall>e\<in>set es. change_of N e \<noteq> None")
  case True
  then show ?thesis using complete_transfer [OF assms(1) True assms(2,3), of h] assms(4) by simp
next
  case False
  let ?h = "\<lparr>h_state = state, h_changes = []\<rparr>"
  obtain rs1 h1 where run: "run_events N es ?h = (rs1, h1)" by fastforce
  have inactive: "h_state h1 = kInactive" 
    using run_changes [OF assms(2), of N ?h] unfolding if_not_P [OF False] by (simp add: run)
  have "HandleEvent N ''server-intent'' intent h = (HrNothing, ?h)" using handle_intent [OF assms(1)] by simp
  then have "rs = HrNothing # rs1 @ [HrError (ProtocolError ''payload-transferred received without an active server-intent'')]"
    and "h' = Reset_handler h1"
    using assms(4) run inactive
    by (simp_all add: run_events_append handle_transferred HandlePayloadTransferred_def)
  moreover have "HrChangeSet cs \<notin> set rs1" for cs
    using run_changes_emit_nothing [OF assms(2), of cs N ?h] run by simp
  ultimately show ?thesis using False by (cases h1) (auto simp: Reset_handler_def Handler_new_def)
qed

definition sample_intent :: json where
  "sample_intent = JObject [(''payloads'', JArray [JObject [(''id'', JString ''p''), (''target'', JInt64 3),
     (''intentCode'', JString ''xfer-full'')]])]"

definition sample_delete :: "string \<times> json" where
  "sample_delete = (''delete-object'',
     JObject [(''version'', JInt64 2), (''kind'', JString ''flag''), (''key'', JString ''f'')])"

definition sample_transferred :: json where
  "sample_transferred = JObject [(''state'', JString ''s3''), (''version'', JInt64 3)]"

lemma sample_intent_opens: "opens sample_numbers sample_intent kFullTransfer"
  by (simp add: opens_def sample_intent_def parse_ServerIntent_def parse_ServerIntentPayload_def parse_IntentCode_def
      PARSE_REQUIRED_FIELD_def PARSE_CONDITIONAL_FIELD_def sample_numbers_exact)

lemma sample_transferred_read:
  "parse_PayloadTransferred sample_numbers sample_transferred =
     Inr (Some \<lparr>transferred_state = ''s3'', transferred_version = 3\<rparr>)"
  by (simp add: sample_transferred_def parse_PayloadTransferred_def PARSE_REQUIRED_FIELD_def sample_numbers_exact)

lemma sample_changes:
  "change_of sample_numbers sample_delete =
     Some \<lparr>fc_type = kDelete, fc_kind = ''flag'', fc_key = ''f'', fc_version = 2, fc_object = JNull\<rparr>"
  "change_of sample_numbers (''put-object'', JNull) = None"
  by (simp_all add: change_of_def sample_delete_def parse_DeleteObject_def parse_PutObject_def PARSE_REQUIRED_FIELD_def
      sample_numbers_exact)

theorem transfer_all_or_nothing_witness:
  "fst (run_events sample_numbers
       ((''server-intent'', sample_intent) # [sample_delete] @ [(''payload-transferred'', sample_transferred)])
       Handler_new) =
     [HrNothing, HrNothing, HrChangeSet \<lparr>fcs_type = kFull,
       fcs_changes = [\<lparr>fc_type = kDelete, fc_kind = ''flag'', fc_key = ''f'', fc_version = 2, fc_object = JNull\<rparr>],
       fcs_selector = Some \<lparr>sel_version = 3, sel_state = ''s3''\<rparr>\<rparr>] \<and>
   last (fst (run_events sample_numbers
       ((''server-intent'', sample_intent) # [sample_delete, (''put-object'', JNull)] @
        [(''payload-transferred'', sample_transferred)]) Handler_new)) =
     HrError (ProtocolError ''payload-transferred received without an active server-intent'')"
proof -
  have events: "is_change_event sample_delete" "is_change_event (''put-object'', JNull)"
    by (simp_all add: is_change_event_def sample_delete_def)
  note transfer = transfer_all_or_nothing [OF sample_intent_opens _ sample_transferred_read prod.collapse [symmetric], where h = Handler_new]
  show ?thesis
    using transfer [of "[sample_delete]"] transfer [of "[sample_delete, (''put-object'', JNull)]"]
    by (simp add: events sample_changes del: run_events.simps append.simps)
qed

end
