(* ===== verification/Versioned_Store.thy ===== *)
theory Versioned_Store
  imports Data_Model
begin

text \<open>
  What the data sources of both SDKs promise about versions: an update of an item counts when
  it is newer than what is stored, and else it changes nothing. The contract is the
  locale \<open>versioned_updates\<close>; its lemmas say that the newest version wins and that neither order
  nor repetition matters. It is interpreted where the sources are modelled.
\<close>

definition newer :: "'a ItemDescriptor \<Rightarrow> 'a ItemDescriptor option \<Rightarrow> 'a ItemDescriptor option" where
  "newer d existing =
     (case existing of Some e \<Rightarrow> if descr_version d \<le> descr_version e then Some e else Some d | None \<Rightarrow> Some d)"

definition is_newest :: "'a ItemDescriptor option \<Rightarrow> 'a ItemDescriptor set \<Rightarrow> bool" where
  "is_newest found candidates \<longleftrightarrow>
     (case found of
        None \<Rightarrow> candidates = {}
      | Some d \<Rightarrow> d \<in> candidates \<and> (\<forall>e \<in> candidates. descr_version e \<le> descr_version d))"

lemma is_newest_insert: "is_newest found C \<Longrightarrow> is_newest (newer d found) (insert d C)"
  by (auto simp: is_newest_def newer_def split: option.splits)

lemma is_newest_unique:
  "is_newest a C \<Longrightarrow> is_newest b C \<Longrightarrow> inj_on descr_version C \<Longrightarrow> a = b"
  by (auto simp: is_newest_def split: option.splits intro!: inj_onD [of descr_version C] order_antisym)

locale versioned_updates =
  fixes lookup :: "'s \<Rightarrow> string \<Rightarrow> 'a ItemDescriptor option"
    and step :: "'m \<Rightarrow> 's \<Rightarrow> 's"
    and carried :: "'m \<Rightarrow> (string \<times> 'a ItemDescriptor) option"
    and is_update :: "'m \<Rightarrow> bool"
  assumes lookup_step: "is_update m \<Longrightarrow> lookup (step m s) k =
    (case carried m of
       Some (key, d) \<Rightarrow> if k = key then newer d (lookup s k) else lookup s k
     | None \<Rightarrow> lookup s k)"
begin

definition candidates :: "'s \<Rightarrow> 'm list \<Rightarrow> string \<Rightarrow> 'a ItemDescriptor set" where
  "candidates s ms k = set_option (lookup s k) \<union> {d. \<exists>m \<in> set ms. carried m = Some (k, d)}"

lemma newest:
  "\<forall>m \<in> set ms. is_update m \<Longrightarrow> is_newest (lookup (fold step ms s) k) (candidates s ms k)"
proof (induction ms rule: rev_induct)
  case Nil
  then show ?case by (auto simp: candidates_def is_newest_def split: option.splits)
next
  case (snoc m ms)
  then have IH: "is_newest (lookup (fold step ms s) k) (candidates s ms k)" and update: "is_update m" by auto
  have "candidates s (ms @ [m]) k =
      (case carried m of
         Some (key, d) \<Rightarrow> if k = key then insert d (candidates s ms k) else candidates s ms k
       | None \<Rightarrow> candidates s ms k)"
    by (auto simp: candidates_def split: option.splits)
  then show ?case
    using IH is_newest_insert [OF IH] by (simp add: lookup_step [OF update] split: option.split prod.split)
qed

lemma order_irrelevant:
  assumes "\<forall>m \<in> set ms. is_update m" and "set ms' = set ms" and "inj_on descr_version (candidates s ms k)"
  shows "lookup (fold step ms' s) k = lookup (fold step ms s) k"
proof -
  have "candidates s ms' k = candidates s ms k" using assms(2) by (simp add: candidates_def)
  then have "is_newest (lookup (fold step ms' s) k) (candidates s ms k)" using newest [of ms' s k] assms by simp
  then show ?thesis using newest [OF assms(1)] assms(3) by (blast intro: is_newest_unique)
qed

end

end
