(* ===== verification/Client_Flags.thy ===== *)
theory Client_Flags
  imports FDv2_Protocol Versioned_Store
begin

text \<open>
  The flags of the client-side SDK: the JSON of evaluation results
  (\<^verbatim>\<open>json_evaluation_reason.cpp\<close>, \<^verbatim>\<open>json_evaluation_result.cpp\<close>, \<^verbatim>\<open>json_item_descriptor.hpp\<close>), the store
  and its listeners (\<^verbatim>\<open>flag_store.cpp\<close>, \<^verbatim>\<open>flag_updater.cpp\<close>, \<^verbatim>\<open>flag_change_event.cpp\<close>), and the handler of the
  messages that change them (\<^verbatim>\<open>data_source_event_handler.cpp\<close>). A conversion of a number without
  an error code may throw, so reading has an outcome. The lemmas show what is lost when
  results are written and read, which changes listeners hear of, and which version wins.
\<close>

section \<open>Evaluation reasons\<close>

fun parse_ReasonKind :: "json \<Rightarrow> JsonError + ReasonKind" where
  "parse_ReasonKind (JString str) =
     (if str = ''OFF'' then Inr kOff
      else if str = ''FALLTHROUGH'' then Inr kFallthrough
      else if str = ''TARGET_MATCH'' then Inr kTargetMatch
      else if str = ''RULE_MATCH'' then Inr kRuleMatch
      else if str = ''PREREQUISITE_FAILED'' then Inr kPrerequisiteFailed
      else if str = ''ERROR'' then Inr kError
      else Inl kSchemaFailure)"
| "parse_ReasonKind _ = Inl kSchemaFailure"

fun ReasonKind_json :: "ReasonKind \<Rightarrow> json" where
  "ReasonKind_json kOff = JString ''OFF''"
| "ReasonKind_json kFallthrough = JString ''FALLTHROUGH''"
| "ReasonKind_json kTargetMatch = JString ''TARGET_MATCH''"
| "ReasonKind_json kRuleMatch = JString ''RULE_MATCH''"
| "ReasonKind_json kPrerequisiteFailed = JString ''PREREQUISITE_FAILED''"
| "ReasonKind_json kError = JString ''ERROR''"

fun parse_ErrorKind :: "json \<Rightarrow> JsonError + ErrorKind" where
  "parse_ErrorKind (JString str) =
     (if str = ''CLIENT_NOT_READY'' then Inr kClientNotReady
      else if str = ''USER_NOT_SPECIFIED'' then Inr kUserNotSpecified
      else if str = ''FLAG_NOT_FOUND'' then Inr kFlagNotFound
      else if str = ''WRONG_TYPE'' then Inr kWrongType
      else if str = ''MALFORMED_FLAG'' then Inr kMalformedFlag
      else if str = ''EXCEPTION'' then Inr kException
      else Inl kSchemaFailure)"
| "parse_ErrorKind _ = Inl kSchemaFailure"

fun ErrorKind_json :: "ErrorKind \<Rightarrow> json" where
  "ErrorKind_json kClientNotReady = JString ''CLIENT_NOT_READY''"
| "ErrorKind_json kUserNotSpecified = JString ''USER_NOT_SPECIFIED''"
| "ErrorKind_json kFlagNotFound = JString ''FLAG_NOT_FOUND''"
| "ErrorKind_json kWrongType = JString ''WRONG_TYPE''"
| "ErrorKind_json kMalformedFlag = JString ''MALFORMED_FLAG''"
| "ErrorKind_json kException = JString ''EXCEPTION''"

fun parse_BigSegmentsStatus :: "json \<Rightarrow> JsonError + BigSegmentsStatus" where
  "parse_BigSegmentsStatus (JString str) =
     (if str = ''HEALTHY'' then Inr kHealthy
      else if str = ''STALE'' then Inr kStale
      else if str = ''NOT_CONFIGURED'' then Inr kNotConfigured
      else if str = ''STORE_ERROR'' then Inr kStoreError
      else Inl kSchemaFailure)"
| "parse_BigSegmentsStatus _ = Inl kSchemaFailure"

fun BigSegmentsStatus_json :: "BigSegmentsStatus \<Rightarrow> json" where
  "BigSegmentsStatus_json kNone = JString []"
| "BigSegmentsStatus_json kHealthy = JString ''HEALTHY''"
| "BigSegmentsStatus_json kStale = JString ''STALE''"
| "BigSegmentsStatus_json kNotConfigured = JString ''NOT_CONFIGURED''"
| "BigSegmentsStatus_json kStoreError = JString ''STORE_ERROR''"

text \<open>A field that is read only when it is there.\<close>

definition parse_present :: "(json \<Rightarrow> JsonError + 'a) \<Rightarrow> json_object \<Rightarrow> string \<Rightarrow> JsonError + 'a option" where
  "parse_present p obj key =
     (case map_of obj key of None \<Rightarrow> Inr None | Some j \<Rightarrow> map_sum id Some (p j))"

fun parse_EvaluationReason :: "numbers \<Rightarrow> json \<Rightarrow> (JsonError + EvaluationReason) outcome" where
  "parse_EvaluationReason N (JObject obj) =
     (case map_of obj ''kind'' of
        None \<Rightarrow> Returned (Inl kSchemaFailure)
      | Some kind_value \<Rightarrow>
          (case parse_ReasonKind kind_value of
             Inl e \<Rightarrow> Returned (Inl e)
           | Inr kind \<Rightarrow>
               (case parse_present parse_ErrorKind obj ''errorKind'' of
                  Inl e \<Rightarrow> Returned (Inl e)
                | Inr err \<Rightarrow>
                    outcome_bind (ValueAsOpt_u64 N (map_of obj ''ruleIndex'')) (\<lambda>index.
                      let rid = ValueAsOpt_string (map_of obj ''ruleId'');
                          prereq = ValueAsOpt_string (map_of obj ''prerequisiteKey'');
                          inexp = ValueOrDefault_bool (map_of obj ''inExperiment'') False
                      in Returned (res_bind (parse_present parse_BigSegmentsStatus obj ''bigSegmentsStatus'')
                           (\<lambda>status. Inr (EvaluationReason7 kind err index rid prereq inexp
                              (case status of Some st \<Rightarrow> st | None \<Rightarrow> kNone))))))))"
| "parse_EvaluationReason N _ = Returned (Inl kSchemaFailure)"

definition EvaluationReason_json :: "EvaluationReason \<Rightarrow> json" where
  "EvaluationReason_json reason =
     (let obj = object_emplace ''kind'' (ReasonKind_json (reason_kind reason)) [];
          obj = WriteMinimal_opt ErrorKind_json ''errorKind'' (error_kind reason) obj;
          obj = WriteMinimal_if BigSegmentsStatus_json ''bigSegmentsStatus'' (big_segments_status reason)
            (big_segments_status reason \<noteq> kNone) obj;
          obj = WriteMinimal_opt JString ''ruleId'' (rule_id reason) obj;
          obj = WriteMinimal_opt JUint64 ''ruleIndex'' (rule_index reason) obj;
          obj = WriteMinimal_bool ''inExperiment'' (in_experiment reason) obj;
          obj = WriteMinimal_opt JString ''prerequisiteKey'' (prerequisite_key reason) obj
      in JObject obj)"

section \<open>Evaluation results\<close>

text \<open>
  The time until which debug events are sent is in milliseconds, as in the JSON; that a
  date after the year 2262 overflows the nanoseconds of a time point is not modelled.
\<close>

record EvaluationResult =
  er_version :: u64
  er_flag_version :: "u64 option"
  er_track_events :: bool
  er_track_reason :: bool
  er_debug_events_until_date :: "i64 option"
  er_value :: Value
  er_variation_index :: "u64 option"
  er_reason :: "EvaluationReason option"
  er_prerequisites :: "string list option"

fun parse_EvaluationResult :: "numbers \<Rightarrow> json \<Rightarrow> (JsonError + EvaluationResult option) outcome" where
  "parse_EvaluationResult N JNull = Returned (Inr None)"
| "parse_EvaluationResult N (JObject obj) =
     outcome_bind (ValueAsOpt_u64 N (map_of obj ''version'')) (\<lambda>version_opt.
     case version_opt of None \<Rightarrow> Returned (Inl kSchemaFailure) | Some version \<Rightarrow>
     outcome_bind (ValueAsOpt_u64 N (map_of obj ''flagVersion'')) (\<lambda>flag_version.
     let track_events = ValueOrDefault_bool (map_of obj ''trackEvents'') False;
         track_reason = ValueOrDefault_bool (map_of obj ''trackReason'') False
     in outcome_bind (ValueAsOpt_u64 N (map_of obj ''debugEventsUntilDate'')) (\<lambda>debug_events_until_date.
     let prerequisites = ValueAsOpt_strings (map_of obj ''prerequisites'')
     in case (case map_of obj ''value'' of None \<Rightarrow> Inr VNull | Some j \<Rightarrow> parse_or_default VNull (parse_Value N j)) of
       Inl e \<Rightarrow> Returned (Inl e)
     | Inr value \<Rightarrow>
     outcome_bind (ValueAsOpt_u64 N (map_of obj ''variation'')) (\<lambda>variation.
     let result = \<lparr>er_version = version, er_flag_version = flag_version, er_track_events = track_events,
           er_track_reason = track_reason, er_debug_events_until_date = debug_events_until_date,
           er_value = value, er_variation_index = variation, er_reason = None, er_prerequisites = None\<rparr>
     in case map_of obj ''reason'' of
          Some j \<Rightarrow>
            if j \<noteq> JNull then
              outcome_bind (parse_EvaluationReason N j) (\<lambda>reason.
                case reason of
                  Inr r \<Rightarrow> Returned (Inr (Some (result\<lparr>er_reason := Some r\<rparr>)))
                | Inl _ \<Rightarrow> Returned (Inl kSchemaFailure))
            else Returned (Inr (Some (result\<lparr>er_prerequisites := prerequisites\<rparr>)))
        | None \<Rightarrow> Returned (Inr (Some (result\<lparr>er_prerequisites := prerequisites\<rparr>)))))))"
| "parse_EvaluationResult N _ = Returned (Inl kSchemaFailure)"

definition EvaluationResult_json :: "EvaluationResult \<Rightarrow> json" where
  "EvaluationResult_json r =
     (let obj = object_emplace ''version'' (JUint64 (er_version r)) [];
          obj = WriteMinimal_opt JUint64 ''flagVersion'' (er_flag_version r) obj;
          obj = WriteMinimal_bool ''trackEvents'' (er_track_events r) obj;
          obj = WriteMinimal_bool ''trackReason'' (er_track_reason r) obj;
          obj = WriteMinimal_opt JInt64 ''debugEventsUntilDate'' (er_debug_events_until_date r) obj;
          obj = WriteMinimal_vector JString ''prerequisites''
            (case er_prerequisites r of Some ps \<Rightarrow> ps | None \<Rightarrow> []) obj;
          obj = object_emplace ''value'' (Value_json (er_value r)) obj;
          obj = WriteMinimal_opt JUint64 ''variationIndex'' (er_variation_index r) obj;
          obj = WriteMinimal_opt EvaluationReason_json ''reason'' (er_reason r) obj
      in JObject obj)"

type_synonym ClientDescriptor = "EvaluationResult ItemDescriptor"
type_synonym ClientFlags = "(string \<times> ClientDescriptor) list"

definition ClientDescriptor_of :: "EvaluationResult \<Rightarrow> ClientDescriptor" where
  "ClientDescriptor_of r = \<lparr>descr_version = er_version r, descr_item = Some r\<rparr>"

fun parse_client_entries :: "numbers \<Rightarrow> json_object \<Rightarrow> ClientFlags \<Rightarrow> (JsonError + ClientFlags) outcome" where
  "parse_client_entries N [] descriptors = Returned (Inr descriptors)"
| "parse_client_entries N ((k, j) # kvs) descriptors =
     outcome_bind (parse_EvaluationResult N j) (\<lambda>res.
       case res of
         Inl e \<Rightarrow> Returned (Inl e)
       | Inr m \<Rightarrow>
           parse_client_entries N kvs
             (case m of Some r \<Rightarrow> umap_emplace k (ClientDescriptor_of r) descriptors | None \<Rightarrow> descriptors))"

fun parse_client_flags :: "numbers \<Rightarrow> json \<Rightarrow> (JsonError + ClientFlags option) outcome" where
  "parse_client_flags N JNull = Returned (Inr None)"
| "parse_client_flags N (JObject kvs) =
     outcome_bind (parse_client_entries N kvs []) (\<lambda>res. Returned (res_bind res (\<lambda>m. Inr (Some m))))"
| "parse_client_flags N _ = Returned (Inl kSchemaFailure)"

definition client_flags_json :: "ClientFlags \<Rightarrow> json" where
  "client_flags_json all_flags =
     JObject (fold (\<lambda>(key, descriptor) obj.
       case descr_item descriptor of
         Some r \<Rightarrow> object_emplace key (EvaluationResult_json r) obj
       | None \<Rightarrow> obj) all_flags [])"

section \<open>The store and its listeners\<close>

definition FlagStore_UpdateData :: "ClientFlags \<Rightarrow> ClientFlags \<Rightarrow> ClientFlags" where
  "FlagStore_UpdateData new data = fold (\<lambda>(key, item). umap_emplace key item) new []"

definition FlagStore_Upsert :: "string \<Rightarrow> ClientDescriptor \<Rightarrow> ClientFlags \<Rightarrow> ClientFlags" where
  "FlagStore_Upsert key item data = AList.update key item data"

definition FlagStore_Get :: "string \<Rightarrow> ClientFlags \<Rightarrow> ClientDescriptor option" where
  "FlagStore_Get fkey data = map_of data fkey"

record FlagValueChangeEvent =
  flag_name :: string
  new_value :: Value
  old_value :: Value
  event_deleted :: bool

definition changed_event :: "string \<Rightarrow> Value \<Rightarrow> Value \<Rightarrow> FlagValueChangeEvent" where
  "changed_event name new old = \<lparr>flag_name = name, new_value = new, old_value = old, event_deleted = False\<rparr>"

definition deleted_event :: "string \<Rightarrow> Value \<Rightarrow> FlagValueChangeEvent" where
  "deleted_event name old = \<lparr>flag_name = name, new_value = VNull, old_value = old, event_deleted = True\<rparr>"

text \<open>
  \<open>fu_signals\<close> has the number of connected handlers of each signal; \<open>dispatched\<close> the events that
  were sent to the handlers of their flag, in order. The mutex makes each operation one step.
\<close>

record FlagUpdater =
  fu_store :: ClientFlags
  fu_signals :: "(string \<times> nat) list"
  dispatched :: "FlagValueChangeEvent list"

definition GetValue :: "ClientDescriptor \<Rightarrow> Value" where
  "GetValue descriptor = (case descr_item descriptor of Some r \<Rightarrow> er_value r | None \<Rightarrow> VNull)"

definition FlagUpdater_HasListeners :: "FlagUpdater \<Rightarrow> bool" where
  "FlagUpdater_HasListeners u \<longleftrightarrow> fu_signals u \<noteq> []"

definition DispatchEvent :: "FlagValueChangeEvent \<Rightarrow> FlagUpdater \<Rightarrow> FlagUpdater" where
  "DispatchEvent event u =
     (case map_of (fu_signals u) (flag_name event) of
        Some handlers \<Rightarrow>
          if handlers = 0 then u\<lparr>fu_signals := AList.delete (flag_name event) (fu_signals u)\<rparr>
          else u\<lparr>dispatched := dispatched u @ [event]\<rparr>
      | None \<Rightarrow> u)"

definition init_new_changes :: "ClientFlags \<Rightarrow> string \<times> ClientDescriptor \<Rightarrow> FlagValueChangeEvent list" where
  "init_new_changes old_flags new_pair =
     (case map_of old_flags (fst new_pair) of
        Some existing \<Rightarrow>
          (case descr_item (snd new_pair) of
             Some _ \<Rightarrow>
               if \<not> value_eq (GetValue (snd new_pair)) (GetValue existing)
               then [changed_event (fst new_pair) (GetValue (snd new_pair)) (GetValue existing)] else []
           | None \<Rightarrow> [deleted_event (fst new_pair) (GetValue existing)])
      | None \<Rightarrow> [changed_event (fst new_pair) (GetValue (snd new_pair)) VNull])"

definition init_old_changes :: "ClientFlags \<Rightarrow> string \<times> ClientDescriptor \<Rightarrow> FlagValueChangeEvent list" where
  "init_old_changes data old_pair =
     (if map_of data (fst old_pair) = None then [deleted_event (fst old_pair) (GetValue (snd old_pair))] else [])"

definition FlagUpdater_Init :: "ClientFlags \<Rightarrow> FlagUpdater \<Rightarrow> FlagUpdater" where
  "FlagUpdater_Init data u =
     (let old_flags = fu_store u;
          change_events =
            (if old_flags \<noteq> [] \<and> FlagUpdater_HasListeners u then
               concat (map (init_new_changes old_flags) data) @ concat (map (init_old_changes data) old_flags)
             else []);
          u = u\<lparr>fu_store := FlagStore_UpdateData data (fu_store u)\<rparr>
      in fold DispatchEvent change_events u)"

definition FlagUpdater_Upsert :: "string \<Rightarrow> ClientDescriptor \<Rightarrow> FlagUpdater \<Rightarrow> FlagUpdater" where
  "FlagUpdater_Upsert key descriptor u =
     (let existing = FlagStore_Get key (fu_store u)
      in if (case existing of Some e \<Rightarrow> descr_version e \<ge> descr_version descriptor | None \<Rightarrow> False) then u
         else
           (let u = u\<lparr>fu_store := FlagStore_Upsert key descriptor (fu_store u)\<rparr>
            in if FlagUpdater_HasListeners u then
                 (case (existing, descr_item descriptor) of
                    (Some e, Some _) \<Rightarrow> DispatchEvent (changed_event key (GetValue descriptor) (GetValue e)) u
                  | (None, Some r) \<Rightarrow> DispatchEvent (changed_event key (er_value r) VNull) u
                  | (Some e, None) \<Rightarrow>
                      if descr_item e \<noteq> None then DispatchEvent (deleted_event key (GetValue e)) u else u
                  | (None, None) \<Rightarrow> u)
               else u))"

definition FlagUpdater_OnFlagChange :: "string \<Rightarrow> FlagUpdater \<Rightarrow> FlagUpdater" where
  "FlagUpdater_OnFlagChange key u =
     u\<lparr>fu_signals := AList.update key (Suc (case map_of (fu_signals u) key of Some n \<Rightarrow> n | None \<Rightarrow> 0)) (fu_signals u)\<rparr>"

text \<open>\<^verbatim>\<open>SignalConnection::Disconnect\<close>: the handler is gone, its signal stays in the map.\<close>

definition FlagUpdater_Disconnect :: "string \<Rightarrow> FlagUpdater \<Rightarrow> FlagUpdater" where
  "FlagUpdater_Disconnect key u =
     (case map_of (fu_signals u) key of
        Some n \<Rightarrow> u\<lparr>fu_signals := AList.update key (n - 1) (fu_signals u)\<rparr>
      | None \<Rightarrow> u)"

section \<open>The message handler\<close>

record ClientHandler =
  ch_updater :: FlagUpdater
  ch_status :: StatusManager

datatype ClientMessageStatus = cmHandled | cmInvalid | cmUnhandledVerb

definition parse_PatchData :: "numbers \<Rightarrow> json \<Rightarrow> (JsonError + string \<times> EvaluationResult) outcome" where
  "parse_PatchData N j =
     (case j of
        JObject obj \<Rightarrow>
          outcome_bind (parse_EvaluationResult N j) (\<lambda>result.
            Returned (case (result, ValueAsOpt_string (map_of obj ''key'')) of
              (Inr (Some r), Some key) \<Rightarrow> Inr (key, r)
            | _ \<Rightarrow> Inl kSchemaFailure))
      | _ \<Rightarrow> Returned (Inl kSchemaFailure))"

definition parse_DeleteData :: "numbers \<Rightarrow> json \<Rightarrow> (JsonError + string \<times> u64) outcome" where
  "parse_DeleteData N j =
     (case j of
        JObject obj \<Rightarrow>
          outcome_bind (ValueAsOpt_u64 N (map_of obj ''version'')) (\<lambda>version.
            Returned (case (ValueAsOpt_string (map_of obj ''key''), version) of
              (Some key, Some v) \<Rightarrow> Inr (key, v)
            | _ \<Rightarrow> Inl kSchemaFailure))
      | _ \<Rightarrow> Returned (Inl kSchemaFailure))"

definition ch_SetError :: "int \<Rightarrow> string \<Rightarrow> ClientHandler \<Rightarrow> ClientHandler" where
  "ch_SetError now message h = h\<lparr>ch_status := SetError_kind now ekInvalidData message (ch_status h)\<rparr>"

definition Client_HandleMessage ::
  "wire \<Rightarrow> int \<Rightarrow> string \<Rightarrow> string \<Rightarrow> ClientHandler \<Rightarrow> ClientMessageStatus outcome \<times> ClientHandler" where
  "Client_HandleMessage W now type data h =
     (if type = ''put'' then
        (case json_parse W data of
           None \<Rightarrow> (Returned cmInvalid, ch_SetError now ''Could not parse PUT message'' h)
         | Some parsed \<Rightarrow>
             (case parse_client_flags (wire_numbers W) parsed of
                Threw \<Rightarrow> (Threw, h)
              | Returned (Inr m) \<Rightarrow>
                  (let flags = (case m of Some fs \<Rightarrow> fs | None \<Rightarrow> []);
                       h = h\<lparr>ch_updater := FlagUpdater_Init flags (ch_updater h)\<rparr>;
                       h = h\<lparr>ch_status := SetState now dsValid (ch_status h)\<rparr>
                   in (Returned cmHandled, h))
              | Returned (Inl _) \<Rightarrow> (Returned cmInvalid, ch_SetError now ''PUT message contained invalid data'' h)))
      else if type = ''patch'' then
        (case json_parse W data of
           None \<Rightarrow> (Returned cmInvalid, ch_SetError now ''Could not parse PATCH message'' h)
         | Some parsed \<Rightarrow>
             (case parse_PatchData (wire_numbers W) parsed of
                Threw \<Rightarrow> (Threw, h)
              | Returned (Inr (key, r)) \<Rightarrow>
                  (Returned cmHandled,
                   h\<lparr>ch_updater := FlagUpdater_Upsert key (ClientDescriptor_of r) (ch_updater h)\<rparr>)
              | Returned (Inl _) \<Rightarrow> (Returned cmInvalid, ch_SetError now ''PATCH message contained invalid data'' h)))
      else if type = ''delete'' then
        (case json_parse W data of
           None \<Rightarrow> (Returned cmInvalid, ch_SetError now ''Could not parse DELETE message'' h)
         | Some parsed \<Rightarrow>
             (case parse_DeleteData (wire_numbers W) parsed of
                Threw \<Rightarrow> (Threw, h)
              | Returned (Inr (key, version)) \<Rightarrow>
                  (Returned cmHandled,
                   h\<lparr>ch_updater := FlagUpdater_Upsert key (Tombstone version) (ch_updater h)\<rparr>)
              | Returned (Inl _) \<Rightarrow>
                  (Returned cmInvalid, ch_SetError now (''DELETE message contained invalid data'' @ [CHR 0x22]) h)))
      else (Returned cmUnhandledVerb, h))"

section \<open>Reading results back\<close>

text \<open>Boost converts a number that is not negative to an unsigned one exactly, and no other one.\<close>

definition unsigned_exact :: "numbers \<Rightarrow> bool" where
  "unsigned_exact N \<longleftrightarrow>
     (\<forall>n. to_uint64 N (JUint64 n) = Some n) \<and>
     (\<forall>n. to_uint64 N (JInt64 n) = (if 0 \<le> sint n then Some n else None))"

lemma read_u64 [simp]: "unsigned_exact N \<Longrightarrow> ValueAsOpt_u64 N (map_option JUint64 v) = Returned v"
  by (cases v) (simp_all add: ValueAsOpt_u64_def unsigned_exact_def)

lemma read_u64_absent [simp]: "ValueAsOpt_u64 N None = Returned None"
  by (simp add: ValueAsOpt_u64_def)

lemma read_u64_present [simp]: "unsigned_exact N \<Longrightarrow> ValueAsOpt_u64 N (Some (JUint64 n)) = Returned (Some n)"
  using read_u64 [of N "Some n"] by simp

lemma read_date [simp]:
  "unsigned_exact N \<Longrightarrow> (\<And>d. v = Some d \<Longrightarrow> 0 \<le> sint d) \<Longrightarrow> ValueAsOpt_u64 N (map_option JInt64 v) = Returned v"
  by (cases v) (simp_all add: ValueAsOpt_u64_def unsigned_exact_def)

lemma read_string [simp]: "ValueAsOpt_string (map_option JString v) = v"
  by (cases v) (simp_all add: ValueAsOpt_string_def)

lemma read_bool [simp]: "ValueOrDefault_bool (if b then Some (JBool True) else None) False = b"
  by (simp add: ValueOrDefault_bool_def)

lemma read_strings [simp]: "strings_of (map JString ss) = Some ss"
  by (induction ss) simp_all

lemma read_ReasonKind [simp]: "parse_ReasonKind (ReasonKind_json k) = Inr k"
  by (cases k) simp_all

lemma read_ErrorKind [simp]: "parse_ErrorKind (ErrorKind_json e) = Inr e"
  by (cases e) simp_all

lemma read_BigSegmentsStatus [simp]:
  "st \<noteq> kNone \<Longrightarrow> parse_BigSegmentsStatus (BigSegmentsStatus_json st) = Inr st"
  by (cases st) simp_all

lemma reason_reread:
  assumes "unsigned_exact N" and "big_segment_status r = None"
  shows "parse_EvaluationReason N (EvaluationReason_json r) = Returned (Inr r)"
  using assms
  by (cases r; cases "error_kind r"; cases "big_segments_status r = kNone")
    (simp_all add: EvaluationReason_json_def parse_present_def EvaluationReason7_def Let_def)

text \<open>What is left of a result: the index of the variation is gone, and often the prerequisites.\<close>

definition reread :: "EvaluationResult \<Rightarrow> EvaluationResult" where
  "reread r = r\<lparr>er_variation_index := None,
     er_prerequisites := (if er_reason r = None \<and> er_prerequisites r \<noteq> Some [] then er_prerequisites r else None)\<rparr>"

definition result_ok :: "EvaluationResult \<Rightarrow> bool" where
  "result_ok r \<longleftrightarrow> writable (er_value r) \<and>
     (case er_debug_events_until_date r of Some d \<Rightarrow> 0 \<le> sint d | None \<Rightarrow> True) \<and>
     (case er_reason r of Some reason \<Rightarrow> big_segment_status reason = None | None \<Rightarrow> True)"

lemma reason_not_null: "EvaluationReason_json r \<noteq> JNull"
  by (simp add: EvaluationReason_json_def Let_def)

lemma result_reread:
  assumes N: "unsigned_exact N" and ok: "result_ok r"
  shows "parse_EvaluationResult N (EvaluationResult_json r) = Returned (Inr (Some (reread r)))"
proof -
  have date: "ValueAsOpt_u64 N (map_option JInt64 (er_debug_events_until_date r)) =
      Returned (er_debug_events_until_date r)"
    using ok by (intro read_date [OF N]) (simp add: result_ok_def)
  have val: "parse_Value N (Value_json (er_value r)) = Inr (Some (er_value r))"
    using ok by (simp add: Value_json_roundtrip result_ok_def)
  show ?thesis
  proof (cases "er_reason r")
    case None
    then show ?thesis
      using N by (cases "er_prerequisites r")
        (auto simp: EvaluationResult_json_def reread_def date val parse_or_default_def ValueAsOpt_strings_def Let_def)
  next
    case (Some reason)
    then have "parse_EvaluationReason N (EvaluationReason_json reason) = Returned (Inr reason)"
      using ok by (intro reason_reread [OF N]) (simp add: result_ok_def)
    then show ?thesis
      using N Some
      by (simp add: EvaluationResult_json_def reread_def date val parse_or_default_def reason_not_null Let_def)
  qed
qed

lemma client_flags_members:
  assumes "distinct (map fst fs)" and "fst ` set fs \<inter> fst ` set obj = {}"
  shows "fold (\<lambda>(key, descriptor) obj. case descr_item descriptor of
      Some r \<Rightarrow> object_emplace key (EvaluationResult_json r) obj | None \<Rightarrow> obj) fs obj =
    obj @ map (\<lambda>(k, r). (k, EvaluationResult_json r)) (map_choose descr_item fs)"
  using assms
proof (induction fs arbitrary: obj)
  case (Cons p fs)
  obtain k d where p: "p = (k, d)" by (cases p)
  have "map_of obj k = None" using Cons.prems p by (auto simp: map_of_eq_None_iff)
  then show ?case using Cons.prems p
    by (auto simp: Cons.IH object_emplace_def split: option.split)
qed simp

lemma client_entries_reread:
  assumes "unsigned_exact N" and "\<forall>(k, r) \<in> set rs. result_ok r"
  shows "parse_client_entries N (map (\<lambda>(k, r). (k, EvaluationResult_json r)) rs) fs =
    Returned (Inr (fold (\<lambda>(k, r). umap_emplace k (ClientDescriptor_of (reread r))) rs fs))"
  using assms(2) by (induction rs arbitrary: fs) (auto simp: result_reread [OF assms(1)] split: prod.split)

lemma client_flags_reread:
  assumes "unsigned_exact N" and d: "distinct (map fst fs)" and ok: "\<forall>(k, d) \<in> set fs. pred_option result_ok (descr_item d)"
  obtains fs' where "parse_client_flags N (client_flags_json fs) = Returned (Inr (Some fs'))"
    and "\<And>k. map_of fs' k = map_option (ClientDescriptor_of \<circ> reread) (Option.bind (map_of fs k) descr_item)"
proof -
  have "\<forall>(k, r) \<in> set (map_choose descr_item fs). result_ok r"
    using ok by (fastforce dest: map_choose_mem)
  note entries = client_entries_reread [OF assms(1) this]
  have "client_flags_json fs = JObject (map (\<lambda>(k, r). (k, EvaluationResult_json r)) (map_choose descr_item fs))"
    using client_flags_members [OF d, of "[]"] by (simp add: client_flags_json_def)
  then have "parse_client_flags N (client_flags_json fs) =
      Returned (Inr (Some (fold (\<lambda>(k, r). umap_emplace k (ClientDescriptor_of (reread r))) (map_choose descr_item fs) [])))"
    by (simp add: entries)
  moreover have "map_of (fold (\<lambda>(k, r). umap_emplace k (ClientDescriptor_of (reread r))) (map_choose descr_item fs) []) k =
      map_option (ClientDescriptor_of \<circ> reread) (Option.bind (map_of fs k) descr_item)" for k
    by (simp add: map_of_emplaced [of "\<lambda>k r. ClientDescriptor_of (reread r)"] map_of_choose [OF d] comp_def)
  ultimately show thesis by (rule that)
qed

section \<open>Listeners\<close>

definition handlers :: "string \<Rightarrow> FlagUpdater \<Rightarrow> nat" where
  "handlers k u = (case map_of (fu_signals u) k of Some n \<Rightarrow> n | None \<Rightarrow> 0)"

definition heard_about :: "string \<Rightarrow> FlagUpdater \<Rightarrow> FlagValueChangeEvent list" where
  "heard_about k u = filter (\<lambda>e. flag_name e = k) (dispatched u)"

lemma DispatchEvent_heard:
  "heard_about k (DispatchEvent e u) = heard_about k u @ (if flag_name e = k \<and> handlers k u \<noteq> 0 then [e] else [])"
  "handlers k (DispatchEvent e u) = handlers k u" "fu_store (DispatchEvent e u) = fu_store u"
  by (auto simp: DispatchEvent_def heard_about_def handlers_def delete_conv' split: option.splits)

lemma dispatch_all:
  "heard_about k (fold DispatchEvent es u) =
     heard_about k u @ (if handlers k u \<noteq> 0 then filter (\<lambda>e. flag_name e = k) es else [])"
  "fu_store (fold DispatchEvent es u) = fu_store u"
  by (induction es arbitrary: u) (auto simp: DispatchEvent_heard)

lemma filter_events_of_key:
  assumes "distinct (map fst ps)" and "\<And>p e. e \<in> set (f p) \<Longrightarrow> flag_name e = fst p"
  shows "filter (\<lambda>e. flag_name e = k) (concat (map f ps)) = (case map_of ps k of Some v \<Rightarrow> f (k, v) | None \<Rightarrow> [])"
  using assms(1)
proof (induction ps)
  case (Cons p ps)
  have "filter (\<lambda>e. flag_name e = k) (f p) = (if fst p = k then f p else [])"
    using assms(2) [of _ p] by (auto simp: filter_id_conv filter_empty_conv)
  moreover have "map_of ps (fst p) = None" using Cons.prems by (simp add: map_of_eq_None_iff)
  ultimately show ?case using Cons by (cases p) auto
qed simp

text \<open>What a listener of a flag hears when its descriptor is replaced.\<close>

fun replaced :: "string \<Rightarrow> ClientDescriptor option \<Rightarrow> ClientDescriptor option \<Rightarrow> FlagValueChangeEvent list" where
  "replaced k None None = []"
| "replaced k None (Some new) = [changed_event k (GetValue new) VNull]"
| "replaced k (Some old) None = [deleted_event k (GetValue old)]"
| "replaced k (Some old) (Some new) =
     (if descr_item new = None then [deleted_event k (GetValue old)]
      else if value_eq (GetValue new) (GetValue old) then []
      else [changed_event k (GetValue new) (GetValue old)])"

lemma init_changes_of_key:
  assumes "distinct (map fst data)" and "distinct (map fst old)"
  shows "filter (\<lambda>e. flag_name e = k) (concat (map (init_new_changes old) data) @ concat (map (init_old_changes data) old)) =
    replaced k (map_of old k) (map_of data k)"
proof -
  have names: "e \<in> set (init_new_changes old p) \<Longrightarrow> flag_name e = fst p"
    "e \<in> set (init_old_changes data p) \<Longrightarrow> flag_name e = fst p" for e p
    by (auto simp: init_new_changes_def init_old_changes_def changed_event_def deleted_event_def
        split: option.splits if_splits)
  show ?thesis
    using filter_events_of_key [where f = "init_new_changes old", OF assms(1) names(1)]
      filter_events_of_key [where f = "init_old_changes data", OF assms(2) names(2)]
    by (cases "map_of old k"; cases "map_of data k")
      (simp_all add: init_new_changes_def init_old_changes_def split: option.split)
qed

lemma Init_store: "FlagStore_Get k (fu_store (FlagUpdater_Init data u)) = map_of data k"
  by (simp add: FlagUpdater_Init_def Let_def dispatch_all FlagStore_Get_def FlagStore_UpdateData_def
      map_of_fold_umap_emplace)

lemma Init_heard:
  assumes "distinct (map fst data)" and "distinct (map fst (fu_store u))"
  shows "heard_about k (FlagUpdater_Init data u) = heard_about k u @
    (if handlers k u = 0 \<or> fu_store u = [] then [] else replaced k (map_of (fu_store u) k) (map_of data k))"
proof -
  have "FlagUpdater_HasListeners u" if "handlers k u \<noteq> 0"
    using that by (auto simp: handlers_def FlagUpdater_HasListeners_def)
  moreover have "heard_about k (u\<lparr>fu_store := d\<rparr>) = heard_about k u" "handlers k (u\<lparr>fu_store := d\<rparr>) = handlers k u" for d
    by (simp_all add: heard_about_def handlers_def)
  ultimately show ?thesis
    using init_changes_of_key [OF assms] by (auto simp: FlagUpdater_Init_def Let_def dispatch_all)
qed

text \<open>What a listener hears of an update that is not outdated: here equal values are not left out.\<close>

fun updated :: "string \<Rightarrow> ClientDescriptor option \<Rightarrow> ClientDescriptor \<Rightarrow> FlagValueChangeEvent list" where
  "updated k None new = (if descr_item new = None then [] else [changed_event k (GetValue new) VNull])"
| "updated k (Some old) new =
     (if descr_item new \<noteq> None then [changed_event k (GetValue new) (GetValue old)]
      else if descr_item old \<noteq> None then [deleted_event k (GetValue old)]
      else [])"

definition outdated :: "string \<Rightarrow> ClientDescriptor \<Rightarrow> FlagUpdater \<Rightarrow> bool" where
  "outdated key d u \<longleftrightarrow>
     (case map_of (fu_store u) key of Some e \<Rightarrow> descr_version e \<ge> descr_version d | None \<Rightarrow> False)"

lemma Upsert_store:
  "FlagStore_Get k (fu_store (FlagUpdater_Upsert key d u)) =
     (if k = key then newer d (FlagStore_Get key (fu_store u)) else FlagStore_Get k (fu_store u))"
  by (auto simp: FlagUpdater_Upsert_def FlagStore_Get_def FlagStore_Upsert_def newer_def update_conv'
      DispatchEvent_heard Let_def split: option.splits)

lemma Upsert_heard:
  "heard_about k (FlagUpdater_Upsert key d u) = heard_about k u @
     (if k \<noteq> key \<or> outdated key d u \<or> handlers k u = 0 then [] else updated k (map_of (fu_store u) k) d)"
proof -
  have "FlagUpdater_HasListeners (u\<lparr>fu_store := s\<rparr>)" if "handlers k u \<noteq> 0" for s
    using that by (auto simp: handlers_def FlagUpdater_HasListeners_def)
  moreover have "heard_about k (u\<lparr>fu_store := d\<rparr>) = heard_about k u" "handlers k (u\<lparr>fu_store := d\<rparr>) = handlers k u" for d
    by (simp_all add: heard_about_def handlers_def)
  moreover have "flag_name (changed_event a b c) = a" "flag_name (deleted_event a b) = a" for a b c
    by (simp_all add: changed_event_def deleted_event_def)
  ultimately show ?thesis
    by (cases "map_of (fu_store u) key"; cases "descr_item d")
      (auto simp: FlagUpdater_Upsert_def FlagStore_Get_def outdated_def DispatchEvent_heard GetValue_def Let_def)
qed

section \<open>Messages about flags\<close>

text \<open>The flag and the descriptor that a message carries.\<close>

definition client_carried :: "wire \<Rightarrow> string \<times> string \<Rightarrow> (string \<times> ClientDescriptor) option" where
  "client_carried W event =
     Option.bind (json_parse W (snd event)) (\<lambda>j.
       if fst event = ''patch'' then
         (case parse_PatchData (wire_numbers W) j of
            Returned (Inr (key, r)) \<Rightarrow> Some (key, ClientDescriptor_of r)
          | _ \<Rightarrow> None)
       else if fst event = ''delete'' then
         (case parse_DeleteData (wire_numbers W) j of
            Returned (Inr (key, version)) \<Rightarrow> Some (key, Tombstone version)
          | _ \<Rightarrow> None)
       else None)"

definition client_flag :: "ClientHandler \<Rightarrow> string \<Rightarrow> ClientDescriptor option" where
  "client_flag h k = FlagStore_Get k (fu_store (ch_updater h))"

definition client_message :: "wire \<Rightarrow> int \<times> string \<times> string \<Rightarrow> ClientHandler \<Rightarrow> ClientHandler" where
  "client_message W m h = snd (Client_HandleMessage W (fst m) (fst (snd m)) (snd (snd m)) h)"

lemma client_message_flag:
  assumes "fst (snd m) \<noteq> ''put''"
  shows "client_flag (client_message W m h) k =
    (case client_carried W (snd m) of
       Some (key, d) \<Rightarrow> if k = key then newer d (client_flag h k) else client_flag h k
     | None \<Rightarrow> client_flag h k)"
  using assms
  by (simp add: client_flag_def client_message_def Client_HandleMessage_def client_carried_def ch_SetError_def
      Upsert_store split: option.split outcome.split sum.split prod.split)

interpretation client: versioned_updates client_flag "client_message W" "\<lambda>m. client_carried W (snd m)"
    "\<lambda>m. fst (snd m) \<noteq> ''put''" for W
  by unfold_locales (rule client_message_flag)

definition client_candidates :: "wire \<Rightarrow> ClientHandler \<Rightarrow> (int \<times> string \<times> string) list \<Rightarrow> string \<Rightarrow> ClientDescriptor set" where
  "client_candidates W h msgs k =
     set_option (client_flag h k) \<union> {d. \<exists>m \<in> set msgs. client_carried W (snd m) = Some (k, d)}"

lemma client_candidates_eq: "client.candidates W = client_candidates W"
  by (intro ext) (simp add: client.candidates_def client_candidates_def)

section \<open>Properties\<close>

text \<open>
  C18. Listeners of the client. Replacing the data stores exactly the new flags and tells
  the listeners of a flag once when its value differs, when it is new or when it is gone;
  otherwise, and when there was no data before, nothing. An update that is not newer
  changes nothing; any other one is stored and told to the listeners of that flag, also when
  the value is the same as before, except that nobody is told of the deletion of a flag that was
  unknown or deleted already. Listeners of other flags hear nothing.
\<close>

theorem listeners_hear_changes:
  assumes "distinct (map fst data)" and "distinct (map fst (fu_store u))"
  shows "map_of (fu_store (FlagUpdater_Init data u)) = map_of data \<and>
    heard_about k (FlagUpdater_Init data u) = heard_about k u @
      (if handlers k u = 0 \<or> fu_store u = [] then [] else replaced k (map_of (fu_store u) k) (map_of data k)) \<and>
    map_of (fu_store (FlagUpdater_Upsert key d u)) =
      (if outdated key d u then map_of (fu_store u) else (map_of (fu_store u))(key \<mapsto> d)) \<and>
    heard_about k (FlagUpdater_Upsert key d u) = heard_about k u @
      (if k \<noteq> key \<or> outdated key d u \<or> handlers k u = 0 then [] else updated k (map_of (fu_store u) k) d)"
proof (intro conjI)
  show "map_of (fu_store (FlagUpdater_Init data u)) = map_of data"
    using Init_store [of _ data u] by (auto simp: FlagStore_Get_def)
  show "map_of (fu_store (FlagUpdater_Upsert key d u)) =
      (if outdated key d u then map_of (fu_store u) else (map_of (fu_store u))(key \<mapsto> d))"
    using Upsert_store [of _ key d u]
    by (intro ext) (auto simp: FlagStore_Get_def outdated_def newer_def split: option.splits)
qed (rule Init_heard [OF assms], rule Upsert_heard)

text \<open>A flag at two versions with the same value, and a listener.\<close>

definition sample_result :: "u64 \<Rightarrow> EvaluationResult" where
  "sample_result version =
     \<lparr>er_version = version, er_flag_version = Some 3, er_track_events = True, er_track_reason = False,
      er_debug_events_until_date = Some 1000, er_value = VBool True, er_variation_index = Some 1,
      er_reason = Some Off, er_prerequisites = Some [''p'']\<rparr>"

definition sample_updater :: FlagUpdater where
  "sample_updater = \<lparr>fu_store = [(''f'', ClientDescriptor_of (sample_result 1))], fu_signals = [(''f'', 1)], dispatched = []\<rparr>"

theorem listeners_hear_changes_witness:
  "heard_about ''f'' (FlagUpdater_Init [(''f'', ClientDescriptor_of (sample_result 2))] sample_updater) = [] \<and>
   heard_about ''f'' (FlagUpdater_Init [] sample_updater) = [deleted_event ''f'' (VBool True)] \<and>
   heard_about ''f'' (FlagUpdater_Upsert ''f'' (ClientDescriptor_of (sample_result 2)) sample_updater) =
     [changed_event ''f'' (VBool True) (VBool True)]"
proof -
  have d: "distinct (map fst (fu_store sample_updater))" by (simp add: sample_updater_def)
  have one: "distinct (map fst [(''f'', ClientDescriptor_of (sample_result 2))])"
    and none: "distinct (map fst ([] :: ClientFlags))" by simp_all
  have facts: "handlers ''f'' sample_updater = 1" "fu_store sample_updater \<noteq> []" "heard_about ''f'' sample_updater = []"
    "map_of (fu_store sample_updater) ''f'' = Some (ClientDescriptor_of (sample_result 1))"
    "\<not> outdated ''f'' (ClientDescriptor_of (sample_result 2)) sample_updater"
    "GetValue (ClientDescriptor_of (sample_result v)) = VBool True" "descr_item (ClientDescriptor_of (sample_result v)) \<noteq> None" for v
    by (simp_all add: sample_updater_def sample_result_def ClientDescriptor_of_def handlers_def heard_about_def
        outdated_def GetValue_def word_le_nat_alt)
  show ?thesis
    using listeners_hear_changes [OF one d, of "''f''" "''f''" "ClientDescriptor_of (sample_result 2)"]
      listeners_hear_changes [OF none d, of "''f''" "''f''" "ClientDescriptor_of (sample_result 2)"]
    by (simp add: facts)
qed

text \<open>
  C20. The flags that are cached for a context come back without what the writer and the
  reader name differently: the index of the variation, written as \<^verbatim>\<open>variationIndex\<close> and read
  as \<^verbatim>\<open>variation\<close>, is lost, and so are the prerequisites of a result with a reason. Deleted flags
  are not written. Everything else is as before.
\<close>

theorem cached_flags_reread:
  assumes "unsigned_exact N" and "distinct (map fst flags)"
    and "\<forall>(k, d) \<in> set flags. pred_option result_ok (descr_item d)"
  shows "\<exists>flags'. parse_client_flags N (client_flags_json flags) = Returned (Inr (Some flags')) \<and>
    (\<forall>k. map_of flags' k =
       map_option (\<lambda>r. ClientDescriptor_of (r\<lparr>er_variation_index := None,
           er_prerequisites := (if er_reason r = None \<and> er_prerequisites r \<noteq> Some [] then er_prerequisites r else None)\<rparr>))
         (Option.bind (map_of flags k) descr_item))"
proof -
  obtain flags' where "parse_client_flags N (client_flags_json flags) = Returned (Inr (Some flags'))"
    and "\<And>k. map_of flags' k = map_option (ClientDescriptor_of \<circ> reread) (Option.bind (map_of flags k) descr_item)"
    using client_flags_reread [OF assms] by blast
  then show ?thesis by (intro exI [of _ flags']) (simp add: reread_def comp_def)
qed

theorem cached_flags_reread_witness:
  "\<exists>flags'. parse_client_flags sample_numbers (client_flags_json [(''f'', ClientDescriptor_of (sample_result 1))]) =
     Returned (Inr (Some flags')) \<and>
   map_of flags' ''f'' = Some (ClientDescriptor_of ((sample_result 1)\<lparr>er_variation_index := None, er_prerequisites := None\<rparr>))"
proof -
  have N: "unsigned_exact sample_numbers" by (simp add: unsigned_exact_def sample_numbers_def)
  let ?fs = "[(''f'', ClientDescriptor_of (sample_result 1))]"
  have ok: "\<forall>(k, d) \<in> set ?fs. pred_option result_ok (descr_item d)"
    by (simp add: ClientDescriptor_of_def sample_result_def result_ok_def Off_def EvaluationReason7_def)
  have "distinct (map fst ?fs)" by simp
  from cached_flags_reread [OF N this ok] obtain flags'
    where p: "parse_client_flags sample_numbers (client_flags_json ?fs) = Returned (Inr (Some flags'))"
      and m: "map_of flags' ''f'' = map_option (\<lambda>r. ClientDescriptor_of (r\<lparr>er_variation_index := None,
           er_prerequisites := (if er_reason r = None \<and> er_prerequisites r \<noteq> Some [] then er_prerequisites r else None)\<rparr>))
         (Option.bind (map_of ?fs ''f'') descr_item)"
    by blast
  show ?thesis
    by (rule exI [of _ flags'], rule conjI [OF p])
      (subst m, simp add: ClientDescriptor_of_def sample_result_def)
qed

text \<open>
  The newest version of a flag wins in the client as it does in the server.
\<close>

theorem client_newest_wins:
  assumes "\<forall>m \<in> set msgs. fst (snd m) \<noteq> ''put''"
  shows "is_newest (client_flag (fold (client_message W) msgs h) k) (client_candidates W h msgs k)"
  using client.newest [OF assms] by (simp add: client_candidates_eq)

text \<open>
  The client does not survive a negative number where the service sends an unsigned
  one: a version, or any other such field of a result, that Boost cannot convert makes the
  handler throw instead of reporting the message as invalid, whatever else it holds.
\<close>

theorem negative_number_throws:
  assumes "unsigned_exact N" and "sint n < 0"
    and "W = \<lparr>wire_numbers = N, json_parse = parse, iequals = eq\<rparr>"
    and "parse data = Some (JObject obj)" and "map_of obj ''version'' = Some (JInt64 n)"
  shows "Client_HandleMessage W now ''delete'' data h = (Threw, h) \<and>
    Client_HandleMessage W now ''patch'' data h = (Threw, h)"
proof -
  have "ValueAsOpt_u64 N (Some (JInt64 n)) = Threw"
    using assms(1,2) by (simp add: ValueAsOpt_u64_def unsigned_exact_def)
  then show ?thesis
    using assms by (simp add: Client_HandleMessage_def parse_DeleteData_def parse_PatchData_def)
qed

theorem negative_number_throws_witness:
  "\<exists>h. h = \<lparr>ch_updater = sample_updater, ch_status = StatusManager_new 0\<rparr> \<and>
     Client_HandleMessage \<lparr>wire_numbers = sample_numbers,
       json_parse = (\<lambda>s. Some (JObject [(''key'', JString ''f''), (''version'', JInt64 (- 1))])), iequals = (=)\<rparr>
       0 ''delete'' ''message'' h = (Threw, h)"
proof -
  have N: "unsigned_exact sample_numbers" by (simp add: unsigned_exact_def sample_numbers_def)
  have "sint (- 1 :: i64) < 0" by simp
  note negative_number_throws [OF N this refl, where data = "''message''"]
  then show ?thesis by simp
qed

end
