(* ===== verification/Server_Client.thy ===== *)
theory Server_Client
  imports Memory_Store Event_Processor Client_Flags
begin

text \<open>
  The server-side client over a memory store: \<^verbatim>\<open>client_impl.cpp\<close> with the events it sends
  (\<^verbatim>\<open>event_factory.cpp\<close>, \<^verbatim>\<open>event_scope.hpp\<close>), the hooks around an evaluation (\<^verbatim>\<open>hook_executor.cpp\<close>)
  and the state of all flags (\<^verbatim>\<open>all_flags_state_builder.cpp\<close>, \<^verbatim>\<open>json_all_flags_state.cpp\<close>,
  \<^verbatim>\<open>prereq_event_recorder.cpp\<close>). The clock is an argument and is read once per call; the bound of
  the evaluator is the one that is enough for the store. Hooks are code of the application: a
  hook is what it returns or throws, and its data are of any type. The lemmas show what a
  variation returns and reports, that hooks cannot change it, and what the state holds.
\<close>

section \<open>Events\<close>

datatype ReasonPolicy = rpDefault | rpRequire

text \<open>
  Dates are integers without a bound: the source converts the milliseconds of
  \<^verbatim>\<open>debugEventsUntilDate\<close> to the unit of the clock, which overflows only for dates about 292
  years and more from the epoch.
\<close>

definition FeatureRequest ::
  "ReasonPolicy \<Rightarrow> Date \<Rightarrow> string \<Rightarrow> Context \<Rightarrow> Flag option \<Rightarrow> Detail \<Rightarrow> Value \<Rightarrow> string option \<Rightarrow> InputEvent" where
  "FeatureRequest reason_policy now key ctx flag detail default_val prereq_of =
     (let flag_track_events = (case flag of Some f \<Rightarrow> trackEvents f | None \<Rightarrow> False);
          require_experiment_data =
            (case flag of Some f \<Rightarrow> IsExperimentationEnabled f (detail_reason detail) | None \<Rightarrow> False);
          debug_until = Option.bind flag (\<lambda>f. map_option sint (debugEventsUntilDate f));
          reason = (if reason_policy = rpRequire \<or> require_experiment_data then detail_reason detail else None)
      in InFeature
           \<lparr>fp_creation_date = now, fp_key = key, fp_context = ctx, fp_value = detail_value detail,
            fp_default = default_val, fp_version = map_option flag_version flag,
            fp_variation = variation_index detail, fp_reason = reason,
            require_full_event = flag_track_events \<or> require_experiment_data,
            debug_events_until_date = debug_until, fp_prereq_of = prereq_of\<rparr>)"

definition UnknownFlag :: "ReasonPolicy \<Rightarrow> Date \<Rightarrow> string \<Rightarrow> Context \<Rightarrow> Detail \<Rightarrow> Value \<Rightarrow> InputEvent" where
  "UnknownFlag reason_policy now key ctx detail default_val =
     FeatureRequest reason_policy now key ctx None detail default_val None"

definition EventFactory_Eval ::
  "ReasonPolicy \<Rightarrow> Date \<Rightarrow> string \<Rightarrow> Context \<Rightarrow> Flag option \<Rightarrow> Detail \<Rightarrow> Value \<Rightarrow> string option \<Rightarrow> InputEvent" where
  "EventFactory_Eval reason_policy now key ctx flag detail default_value prereq_of =
     FeatureRequest reason_policy now key ctx flag detail default_value prereq_of"

definition EventFactory_Identify :: "Date \<Rightarrow> Context \<Rightarrow> InputEvent" where
  "EventFactory_Identify now ctx = InIdentify \<lparr>ip_creation_date = now, ip_context = ctx\<rparr>"

definition EventFactory_Custom :: "Date \<Rightarrow> Context \<Rightarrow> string \<Rightarrow> Value option \<Rightarrow> double option \<Rightarrow> InputEvent" where
  "EventFactory_Custom now ctx event_name data metric_value =
     InTrack \<lparr>tp_creation_date = now, tp_key = event_name, tp_context = ctx, tp_data = data,
       tp_metric_value = metric_value\<rparr>"

text \<open>The event the evaluator sends for a prerequisite.\<close>

definition prereq_event :: "ReasonPolicy \<Rightarrow> Date \<Rightarrow> Context \<Rightarrow> PrereqEvent \<Rightarrow> InputEvent" where
  "prereq_event reason_policy now ctx p =
     EventFactory_Eval reason_policy now (pe_key p) ctx (Some (pe_flag p)) (pe_detail p) VNull (Some (pe_prereq_of p))"

section \<open>Hooks\<close>

record SeriesContext =
  sx_flag_key :: string
  sx_context :: Context
  sx_default_value :: Value
  sx_method :: string

record 'd Hook =
  hook_before :: "SeriesContext \<Rightarrow> 'd \<Rightarrow> 'd outcome"
  hook_after :: "SeriesContext \<Rightarrow> Detail \<Rightarrow> 'd \<Rightarrow> 'd outcome"

datatype HookCall = BeforeCall nat | AfterCall nat | AfterTrackCall nat

text \<open>The executor: the data of each hook, and the calls that were made.\<close>

record 'd SeriesExecutor =
  series_data :: "'d list"
  hook_calls :: "HookCall list"

definition SeriesExecutor_new :: "'d \<Rightarrow> 'd Hook list \<Rightarrow> 'd SeriesExecutor" where
  "SeriesExecutor_new no_data hooks = \<lparr>series_data = replicate (length hooks) no_data, hook_calls = []\<rparr>"

definition run_stage :: "HookCall \<Rightarrow> nat \<Rightarrow> ('d \<Rightarrow> 'd outcome) \<Rightarrow> 'd SeriesExecutor \<Rightarrow> 'd SeriesExecutor" where
  "run_stage call i stage x =
     (let x = x\<lparr>hook_calls := hook_calls x @ [call]\<rparr>
      in case stage (series_data x ! i) of
           Returned d \<Rightarrow> x\<lparr>series_data := (series_data x)[i := d]\<rparr>
         | Threw \<Rightarrow> x)"

definition BeforeEvaluation :: "'d Hook list \<Rightarrow> SeriesContext \<Rightarrow> 'd SeriesExecutor \<Rightarrow> 'd SeriesExecutor" where
  "BeforeEvaluation hooks ctx x =
     fold (\<lambda>i. run_stage (BeforeCall i) i (hook_before (hooks ! i) ctx)) [0..<length hooks] x"

definition AfterEvaluation :: "'d Hook list \<Rightarrow> SeriesContext \<Rightarrow> Detail \<Rightarrow> 'd SeriesExecutor \<Rightarrow> 'd SeriesExecutor" where
  "AfterEvaluation hooks ctx detail x =
     fold (\<lambda>i. run_stage (AfterCall i) i (hook_after (hooks ! i) ctx detail)) (rev [0..<length hooks]) x"

text \<open>What \<^verbatim>\<open>AfterTrack\<close> throws is logged, and it returns nothing: only the calls matter.\<close>

definition ExecuteAfterTrack :: "'d Hook list \<Rightarrow> HookCall list" where
  "ExecuteAfterTrack hooks = map AfterTrackCall [0..<length hooks]"

section \<open>Variations\<close>

text \<open>
  \<open>sc_events\<close> says whether there is an event processor. The executor exists only when there are hooks.
\<close>

record 'd ServerClient =
  sc_hooks :: "'d Hook list"
  sc_no_data :: 'd
  sc_store :: MemoryStore
  sc_big_segments :: "(string \<Rightarrow> Membership \<times> LookupStatus) option"
  sc_events :: bool

definition Send :: "'d ServerClient \<Rightarrow> InputEvent \<Rightarrow> InputEvent list" where
  "Send c event = (if sc_events c then [event] else [])"

definition PreEvaluationChecks :: "'d ServerClient \<Rightarrow> Context \<Rightarrow> ErrorKind option" where
  "PreEvaluationChecks c ctx =
     (if \<not> MemoryStore_Initialized (sc_store c) then Some kClientNotReady
      else if \<not> ctx_valid ctx then Some kUserNotSpecified else None)"

definition PostEvaluation ::
  "'d ServerClient \<Rightarrow> ReasonPolicy \<Rightarrow> Date \<Rightarrow> string \<Rightarrow> Context \<Rightarrow> Value \<Rightarrow> ErrorKind + Detail \<Rightarrow> Flag option \<Rightarrow>
   Detail \<times> InputEvent list" where
  "PostEvaluation c policy now key ctx default_value error_or_detail flag =
     (case error_or_detail of
        Inl e \<Rightarrow>
          (let detail = EvaluationDetail_error e default_value
           in (detail, Send c (UnknownFlag policy now key ctx detail default_value)))
      | Inr arg \<Rightarrow>
          (let detail = EvaluationDetail3 (if variation_index arg = None then default_value else detail_value arg)
                 (variation_index arg) (detail_reason arg)
           in (detail, Send c (EventFactory_Eval policy now key ctx flag detail default_value None))))"

definition store_fuel :: "MemoryStore \<Rightarrow> nat" where
  "store_fuel m = length (ms_flags m) + length (ms_segments m) + 2"

text \<open>The evaluation between the hooks: the detail and the events that are sent, in order.\<close>

definition evaluate_and_send ::
  "env \<Rightarrow> 'd ServerClient \<Rightarrow> ReasonPolicy \<Rightarrow> Date \<Rightarrow> Context \<Rightarrow> string \<Rightarrow> Value \<Rightarrow> (Detail \<times> InputEvent list) option" where
  "evaluate_and_send e c policy now ctx key default_value =
     (case PreEvaluationChecks c ctx of
        Some err \<Rightarrow> Some (PostEvaluation c policy now key ctx default_value (Inl err) None)
      | None \<Rightarrow>
          (case Option.bind (MemoryStore_GetFlag (sc_store c) key) descr_item of
             None \<Rightarrow> Some (PostEvaluation c policy now key ctx default_value (Inl kFlagNotFound) None)
           | Some flag \<Rightarrow>
               (case Evaluate (store_fuel (sc_store c)) e (store_view (sc_store c)) (sc_big_segments c) flag ctx of
                  None \<Rightarrow> None
                | Some (result, s) \<Rightarrow>
                    (let prereqs = concat (map (Send c \<circ> prereq_event policy now ctx) (ev_sent s));
                         (detail, sent) = PostEvaluation c policy now key ctx default_value (Inr result) (Some flag)
                     in Some (detail, prereqs @ sent)))))"

definition VariationInternal ::
  "env \<Rightarrow> 'd ServerClient \<Rightarrow> ReasonPolicy \<Rightarrow> Date \<Rightarrow> Context \<Rightarrow> string \<Rightarrow> Value \<Rightarrow> string \<Rightarrow>
   (Detail \<times> InputEvent list \<times> HookCall list) option" where
  "VariationInternal e c policy now ctx key default_value method_name =
     (let series_context = \<lparr>sx_flag_key = key, sx_context = ctx, sx_default_value = default_value, sx_method = method_name\<rparr>;
          hooks = sc_hooks c;
          x = SeriesExecutor_new (sc_no_data c) hooks;
          x = (if hooks \<noteq> [] then BeforeEvaluation hooks series_context x else x)
      in case evaluate_and_send e c policy now ctx key default_value of
           None \<Rightarrow> None
         | Some (detail, sent) \<Rightarrow>
             (let x = (if hooks \<noteq> [] then AfterEvaluation hooks series_context detail x else x)
              in Some (detail, sent, hook_calls x)))"

text \<open>The results of the typed methods, with the events.\<close>

definition Variation_typed ::
  "env \<Rightarrow> 'd ServerClient \<Rightarrow> Date \<Rightarrow> Context \<Rightarrow> ValueType \<Rightarrow> string \<Rightarrow> Value \<Rightarrow> string \<Rightarrow> (Value \<times> InputEvent list) option" where
  "Variation_typed e c now ctx value_type key default_value method_name =
     map_option (\<lambda>(detail, sent, calls).
         (if Type (detail_value detail) \<noteq> value_type then default_value else detail_value detail, sent))
       (VariationInternal e c rpDefault now ctx key default_value method_name)"

definition VariationDetail ::
  "env \<Rightarrow> 'd ServerClient \<Rightarrow> Date \<Rightarrow> (Value \<Rightarrow> 't) \<Rightarrow> Context \<Rightarrow> ValueType \<Rightarrow> string \<Rightarrow> Value \<Rightarrow> string \<Rightarrow>
   ('t EvaluationDetail \<times> InputEvent list) option" where
  "VariationDetail e c now as_type ctx value_type key default_value method_name =
     map_option (\<lambda>(detail, sent, calls).
         (if Type (detail_value detail) = value_type
          then EvaluationDetail3 (as_type (detail_value detail)) (variation_index detail) (detail_reason detail)
          else EvaluationDetail_error kWrongType (as_type default_value), sent))
       (VariationInternal e c rpRequire now ctx key default_value method_name)"

definition BoolVariation :: "env \<Rightarrow> 'd ServerClient \<Rightarrow> Date \<Rightarrow> Context \<Rightarrow> string \<Rightarrow> bool \<Rightarrow> (bool \<times> InputEvent list) option" where
  "BoolVariation e c now ctx key default_value =
     map_option (apfst AsBool) (Variation_typed e c now ctx kBool key (VBool default_value) ''BoolVariation'')"

definition StringVariation :: "env \<Rightarrow> 'd ServerClient \<Rightarrow> Date \<Rightarrow> Context \<Rightarrow> string \<Rightarrow> string \<Rightarrow> (string \<times> InputEvent list) option" where
  "StringVariation e c now ctx key default_value =
     map_option (apfst AsString) (Variation_typed e c now ctx kString key (VString default_value) ''StringVariation'')"

definition DoubleVariation :: "env \<Rightarrow> 'd ServerClient \<Rightarrow> Date \<Rightarrow> Context \<Rightarrow> string \<Rightarrow> double \<Rightarrow> (double \<times> InputEvent list) option" where
  "DoubleVariation e c now ctx key default_value =
     map_option (apfst AsDouble) (Variation_typed e c now ctx kNumber key (VNumber default_value) ''DoubleVariation'')"

definition IntVariation ::
  "env \<Rightarrow> (double \<Rightarrow> 32 word) \<Rightarrow> 'd ServerClient \<Rightarrow> Date \<Rightarrow> Context \<Rightarrow> string \<Rightarrow> 32 word \<Rightarrow> (32 word \<times> InputEvent list) option" where
  "IntVariation e ub c now ctx key default_value =
     map_option (apfst (AsInt ub))
       (Variation_typed e c now ctx kNumber key (VNumber (to_double (of_int (sint default_value)))) ''IntVariation'')"

definition JsonVariation :: "env \<Rightarrow> 'd ServerClient \<Rightarrow> Date \<Rightarrow> Context \<Rightarrow> string \<Rightarrow> Value \<Rightarrow> (Value \<times> InputEvent list) option" where
  "JsonVariation e c now ctx key default_value =
     map_option (\<lambda>(detail, sent, calls). (detail_value detail, sent))
       (VariationInternal e c rpDefault now ctx key default_value ''JsonVariation'')"

definition Identify :: "'d ServerClient \<Rightarrow> Date \<Rightarrow> Context \<Rightarrow> InputEvent list" where
  "Identify c now ctx = Send c (EventFactory_Identify now ctx)"

definition TrackInternal ::
  "'d ServerClient \<Rightarrow> Date \<Rightarrow> Context \<Rightarrow> string \<Rightarrow> Value option \<Rightarrow> double option \<Rightarrow> InputEvent list \<times> HookCall list" where
  "TrackInternal c now ctx event_name data metric_value =
     (if \<not> ctx_valid ctx then ([], [])
      else (Send c (EventFactory_Custom now ctx event_name data metric_value), ExecuteAfterTrack (sc_hooks c)))"

section \<open>The state of all flags\<close>

type_synonym Options = "8 word"

definition opDefault :: Options where "opDefault = 0"
definition opIncludeReasons :: Options where "opIncludeReasons = 1"
definition opDetailsOnlyForTrackedFlags :: Options where "opDetailsOnlyForTrackedFlags = 2"
definition opClientSideOnly :: Options where "opClientSideOnly = 4"

definition IsSet :: "Options \<Rightarrow> Options \<Rightarrow> bool" where
  "IsSet options flag \<longleftrightarrow> and options flag = flag"

definition NotSet :: "Options \<Rightarrow> Options \<Rightarrow> bool" where
  "NotSet options flag \<longleftrightarrow> \<not> IsSet options flag"

record FlagState =
  st_version :: u64
  st_variation :: "i64 option"
  st_reason :: "EvaluationReason option"
  st_track_events :: bool
  st_track_reason :: bool
  st_debug_events_until_date :: "u64 option"
  omit_details :: bool
  st_prerequisites :: "string list"

record AllFlagsState =
  afs_valid :: bool
  afs_flags_state :: "(string \<times> FlagState) list"
  afs_evaluations :: "(string \<times> Value) list"

definition AllFlagsState_empty :: AllFlagsState where
  "AllFlagsState_empty = \<lparr>afs_valid = False, afs_flags_state = [], afs_evaluations = []\<rparr>"

definition IsDebuggingEnabled :: "u64 \<Rightarrow> u64 option \<Rightarrow> bool" where
  "IsDebuggingEnabled now debug_events_until \<longleftrightarrow>
     (case debug_events_until of Some d \<Rightarrow> d > now | None \<Rightarrow> False)"

text \<open>The builder's maps are those of the state that it builds.\<close>

definition AddFlag :: "Options \<Rightarrow> u64 \<Rightarrow> string \<Rightarrow> Value \<Rightarrow> FlagState \<Rightarrow> AllFlagsState \<Rightarrow> AllFlagsState" where
  "AddFlag options now key val flag b =
     (let flag = (if IsSet options opDetailsOnlyForTrackedFlags \<and> \<not> st_track_events flag \<and> \<not> st_track_reason flag \<and>
            \<not> IsDebuggingEnabled now (st_debug_events_until_date flag)
            then flag\<lparr>omit_details := True\<rparr> else flag);
          flag = (if NotSet options opIncludeReasons \<and> \<not> st_track_reason flag then flag\<lparr>st_reason := None\<rparr> else flag)
      in b\<lparr>afs_flags_state := umap_emplace key flag (afs_flags_state b),
           afs_evaluations := umap_emplace key val (afs_evaluations b)\<rparr>)"

text \<open>\<^verbatim>\<open>PrereqEventRecorder::SendAsync\<close>.\<close>

definition Recorder_SendAsync :: "string \<Rightarrow> InputEvent \<Rightarrow> string list \<Rightarrow> string list" where
  "Recorder_SendAsync parent event prereqs =
     (case event of
        InFeature feat \<Rightarrow>
          (case fp_prereq_of feat of
             Some prereq_of \<Rightarrow> if prereq_of = parent then prereqs @ [fp_key feat] else prereqs
           | None \<Rightarrow> prereqs)
      | _ \<Rightarrow> prereqs)"

definition record_prereqs :: "string \<Rightarrow> Date \<Rightarrow> Context \<Rightarrow> PrereqEvent list \<Rightarrow> string list" where
  "record_prereqs key now ctx events =
     fold (\<lambda>p. Recorder_SendAsync key (prereq_event rpDefault now ctx p)) events []"

definition flag_state :: "Flag \<Rightarrow> Detail \<Rightarrow> string list \<Rightarrow> FlagState" where
  "flag_state flag detail prereqs =
     (let in_experiment = IsExperimentationEnabled flag (detail_reason detail)
      in \<lparr>st_version = flag_version flag, st_variation = variation_index detail, st_reason = detail_reason detail,
          st_track_events = trackEvents flag \<or> in_experiment, st_track_reason = in_experiment,
          st_debug_events_until_date = debugEventsUntilDate flag, omit_details = False,
          st_prerequisites = prereqs\<rparr>)"

text \<open>The loop over the flags.\<close>

fun add_flags :: "env \<Rightarrow> 'd ServerClient \<Rightarrow> Date \<Rightarrow> u64 \<Rightarrow> Context \<Rightarrow> Options \<Rightarrow> Flag Collection \<Rightarrow> AllFlagsState \<Rightarrow>
  AllFlagsState option" where
  "add_flags e c now now_ms ctx options [] b = Some b"
| "add_flags e c now now_ms ctx options ((key, v) # rest) b =
     (case descr_item v of
        None \<Rightarrow> add_flags e c now now_ms ctx options rest b
      | Some flag \<Rightarrow>
          if IsSet options opClientSideOnly \<and> \<not> usingEnvironmentId flag
          then add_flags e c now now_ms ctx options rest b
          else
            (case Evaluate (store_fuel (sc_store c)) e (store_view (sc_store c)) (sc_big_segments c) flag ctx of
               None \<Rightarrow> None
             | Some (detail, s) \<Rightarrow>
                 add_flags e c now now_ms ctx options rest
                   (AddFlag options now_ms key (detail_value detail)
                      (flag_state flag detail (record_prereqs key now ctx (ev_sent s))) b)))"

definition AllFlagsState_of ::
  "env \<Rightarrow> 'd ServerClient \<Rightarrow> Date \<Rightarrow> u64 \<Rightarrow> Context \<Rightarrow> Options \<Rightarrow> AllFlagsState option" where
  "AllFlagsState_of e c now now_ms ctx options =
     (if \<not> MemoryStore_Initialized (sc_store c) then Some AllFlagsState_empty
      else
        map_option (\<lambda>b. b\<lparr>afs_valid := True\<rparr>)
          (add_flags e c now now_ms ctx options (AllFlags (sc_store c)) AllFlagsState_empty))"

definition FlagState_json :: "FlagState \<Rightarrow> json" where
  "FlagState_json state =
     (let obj = (if \<not> omit_details state then
            WriteMinimal_opt EvaluationReason_json ''reason'' (st_reason state)
              (object_emplace ''version'' (JUint64 (st_version state)) []) else []);
          obj = WriteMinimal_opt JInt64 ''variation'' (st_variation state) obj;
          obj = WriteMinimal_bool ''trackEvents'' (st_track_events state) obj;
          obj = WriteMinimal_bool ''trackReason'' (st_track_reason state) obj;
          obj = (case st_debug_events_until_date state of
              Some date \<Rightarrow> if date > 0 then object_emplace ''debugEventsUntilDate'' (JUint64 date) obj else obj
            | None \<Rightarrow> obj);
          obj = WriteMinimal_vector JString ''prerequisites'' (st_prerequisites state) obj
      in JObject obj)"

definition AllFlagsState_json :: "AllFlagsState \<Rightarrow> json" where
  "AllFlagsState_json state =
     (let obj = object_emplace ''$valid'' (JBool (afs_valid state)) [];
          obj = object_emplace ''$flagsState''
            (JObject (map (apsnd FlagState_json) (afs_flags_state state))) obj
      in JObject (fold (\<lambda>(k, v). object_emplace k (Value_json v)) (afs_evaluations state) obj))"

section \<open>Evaluation and events\<close>

lemma store_evaluates:
  obtains d s where "Evaluate (store_fuel m) e (store_view m) bs flag ctx = Some (d, s)"
  using memory.Evaluate_total [of m e bs flag ctx] memory_bound [of m 0] by (auto simp: store_fuel_def)

lemma FeatureRequest_fields:
  "\<exists>p. FeatureRequest policy now key ctx flag detail dflt prereq_of = InFeature p \<and> fp_key p = key \<and>
     fp_value p = detail_value detail \<and> fp_default p = dflt \<and> fp_variation p = variation_index detail \<and>
     fp_prereq_of p = prereq_of"
  by (simp add: FeatureRequest_def Let_def)

text \<open>The event of the flag itself, and those of prerequisites.\<close>

definition reports :: "string \<Rightarrow> Detail \<Rightarrow> Value \<Rightarrow> InputEvent \<Rightarrow> bool" where
  "reports key detail dflt event \<longleftrightarrow>
     (\<exists>p. event = InFeature p \<and> fp_key p = key \<and> fp_value p = detail_value detail \<and> fp_default p = dflt \<and>
        fp_variation p = variation_index detail \<and> fp_prereq_of p = None)"

definition for_prerequisite :: "InputEvent \<Rightarrow> bool" where
  "for_prerequisite event \<longleftrightarrow> (\<exists>p. event = InFeature p \<and> fp_prereq_of p \<noteq> None)"

lemma PostEvaluation_reports:
  "PostEvaluation c policy now key ctx dflt r flag = (detail, sent) \<Longrightarrow>
     (if sc_events c then \<exists>event. sent = [event] \<and> reports key detail dflt event else sent = []) \<and>
     (case r of
        Inl err \<Rightarrow> detail = EvaluationDetail_error err dflt
      | Inr d \<Rightarrow> detail = EvaluationDetail3 (if variation_index d = None then dflt else detail_value d)
          (variation_index d) (detail_reason d))"
  using FeatureRequest_fields
  by (auto simp: PostEvaluation_def Send_def reports_def UnknownFlag_def EventFactory_Eval_def Let_def split: sum.splits)

definition own_detail :: "env \<Rightarrow> 'd ServerClient \<Rightarrow> Context \<Rightarrow> string \<Rightarrow> Value \<Rightarrow> Detail \<Rightarrow> bool" where
  "own_detail e c ctx key dflt detail \<longleftrightarrow>
     (if \<not> MemoryStore_Initialized (sc_store c) then detail = EvaluationDetail_error kClientNotReady dflt
      else if \<not> ctx_valid ctx then detail = EvaluationDetail_error kUserNotSpecified dflt
      else
        case Option.bind (MemoryStore_GetFlag (sc_store c) key) descr_item of
          None \<Rightarrow> detail = EvaluationDetail_error kFlagNotFound dflt
        | Some flag \<Rightarrow>
            (\<exists>d s. Evaluate (store_fuel (sc_store c)) e (store_view (sc_store c)) (sc_big_segments c) flag ctx = Some (d, s) \<and>
               detail = EvaluationDetail3 (if variation_index d = None then dflt else detail_value d)
                 (variation_index d) (detail_reason d)))"

definition events_of :: "'d ServerClient \<Rightarrow> string \<Rightarrow> Detail \<Rightarrow> Value \<Rightarrow> InputEvent list \<Rightarrow> bool" where
  "events_of c key detail dflt sent \<longleftrightarrow>
     (if sc_events c
      then \<exists>prereqs event. sent = prereqs @ [event] \<and> reports key detail dflt event \<and> list_all for_prerequisite prereqs
      else sent = [])"

lemma prereq_events_sent:
  "list_all for_prerequisite (concat (map (Send c \<circ> prereq_event policy now ctx) ps))"
  "\<not> sc_events c \<Longrightarrow> concat (map (Send c \<circ> prereq_event policy now ctx) ps) = []"
  using FeatureRequest_fields
  by (auto simp: list_all_iff Send_def prereq_event_def EventFactory_Eval_def for_prerequisite_def split: if_splits) fastforce

lemma evaluate_and_send_spec:
  obtains detail sent where "evaluate_and_send e c policy now ctx key dflt = Some (detail, sent)"
    and "own_detail e c ctx key dflt detail" and "events_of c key detail dflt sent"
proof (cases "PreEvaluationChecks c ctx")
  case (Some err)
  obtain detail sent where post: "PostEvaluation c policy now key ctx dflt (Inl err) None = (detail, sent)" by fastforce
  then show thesis
    using that [of detail sent] Some PostEvaluation_reports [OF post]
    by (auto simp: evaluate_and_send_def own_detail_def events_of_def PreEvaluationChecks_def split: if_splits)
next
  case None
  then have ready: "MemoryStore_Initialized (sc_store c)" "ctx_valid ctx"
    by (auto simp: PreEvaluationChecks_def split: if_splits)
  show thesis
  proof (cases "Option.bind (MemoryStore_GetFlag (sc_store c) key) descr_item")
    case missing: None
    obtain detail sent where post: "PostEvaluation c policy now key ctx dflt (Inl kFlagNotFound) None = (detail, sent)"
      by fastforce
    then show thesis
      using that [of detail sent] None ready missing PostEvaluation_reports [OF post]
      by (auto simp: evaluate_and_send_def own_detail_def events_of_def split: if_splits)
  next
    case (Some flag)
    obtain d s where ev: "Evaluate (store_fuel (sc_store c)) e (store_view (sc_store c)) (sc_big_segments c) flag ctx = Some (d, s)"
      by (rule store_evaluates)
    obtain detail sent where post: "PostEvaluation c policy now key ctx dflt (Inr d) (Some flag) = (detail, sent)" by fastforce
    let ?prereqs = "concat (map (Send c \<circ> prereq_event policy now ctx) (ev_sent s))"
    have "evaluate_and_send e c policy now ctx key dflt = Some (detail, ?prereqs @ sent)"
      using None Some ev post by (simp add: evaluate_and_send_def Let_def)
    moreover have "own_detail e c ctx key dflt detail"
      using ready Some ev PostEvaluation_reports [OF post] by (simp add: own_detail_def)
    moreover have "events_of c key detail dflt (?prereqs @ sent)"
      using PostEvaluation_reports [OF post] prereq_events_sent [of c policy now ctx "ev_sent s"]
      by (auto simp: events_of_def simp del: concat_eq_Nil_conv split: if_splits)
    ultimately show thesis by (rule that)
  qed
qed

section \<open>Running hooks\<close>

definition stage_result :: "('d \<Rightarrow> 'd outcome) \<Rightarrow> 'd \<Rightarrow> 'd" where
  "stage_result stage d = (case stage d of Returned d' \<Rightarrow> d' | Threw \<Rightarrow> d)"

lemma run_stage_fields:
  "hook_calls (run_stage call i stage x) = hook_calls x @ [call]"
  "length (series_data (run_stage call i stage x)) = length (series_data x)"
  "j < length (series_data x) \<Longrightarrow>
     series_data (run_stage call i stage x) ! j = (if j = i then stage_result stage (series_data x ! j) else series_data x ! j)"
  by (auto simp: run_stage_def stage_result_def Let_def nth_list_update split: outcome.split)

lemma run_stages:
  assumes "distinct is"
  shows "hook_calls (fold (\<lambda>i. run_stage (call i) i (stage i)) is x) = hook_calls x @ map call is"
    and "length (series_data (fold (\<lambda>i. run_stage (call i) i (stage i)) is x)) = length (series_data x)"
    and "j < length (series_data x) \<Longrightarrow> series_data (fold (\<lambda>i. run_stage (call i) i (stage i)) is x) ! j =
      (if j \<in> set is then stage_result (stage j) (series_data x ! j) else series_data x ! j)"
  using assms by (induction "is" arbitrary: x) (auto simp: run_stage_fields)

lemma hooks_run:
  "hook_calls (AfterEvaluation hooks ctx detail (BeforeEvaluation hooks ctx (SeriesExecutor_new no_data hooks))) =
     map BeforeCall [0..<length hooks] @ map AfterCall (rev [0..<length hooks])"
  "i < length hooks \<Longrightarrow>
     series_data (AfterEvaluation hooks ctx detail (BeforeEvaluation hooks ctx (SeriesExecutor_new no_data hooks))) ! i =
       stage_result (hook_after (hooks ! i) ctx detail) (stage_result (hook_before (hooks ! i) ctx) no_data)"
  by (simp_all add: AfterEvaluation_def BeforeEvaluation_def SeriesExecutor_new_def run_stages)

lemma hooks_data:
  "series_data (AfterEvaluation hooks ctx detail (BeforeEvaluation hooks ctx (SeriesExecutor_new no_data hooks))) =
     map (\<lambda>h. stage_result (hook_after h ctx detail) (stage_result (hook_before h ctx) no_data)) hooks"
proof (rule nth_equalityI)
  show len: "length (series_data (AfterEvaluation hooks ctx detail (BeforeEvaluation hooks ctx (SeriesExecutor_new no_data hooks)))) =
      length (map (\<lambda>h. stage_result (hook_after h ctx detail) (stage_result (hook_before h ctx) no_data)) hooks)"
    by (simp add: AfterEvaluation_def BeforeEvaluation_def SeriesExecutor_new_def run_stages)
qed (simp add: hooks_run(2) AfterEvaluation_def BeforeEvaluation_def SeriesExecutor_new_def run_stages)

lemma VariationInternal_eq:
  "VariationInternal e c policy now ctx key dflt method =
     map_option (\<lambda>(detail, sent). (detail, sent,
         map BeforeCall [0..<length (sc_hooks c)] @ map AfterCall (rev [0..<length (sc_hooks c)])))
       (evaluate_and_send e c policy now ctx key dflt)"
  by (cases "sc_hooks c = []")
    (auto simp: VariationInternal_def hooks_run(1) Let_def split: option.split, simp add: SeriesExecutor_new_def)

lemma VariationInternal_spec:
  obtains detail sent where "VariationInternal e c policy now ctx key dflt method = Some (detail, sent,
      map BeforeCall [0..<length (sc_hooks c)] @ map AfterCall (rev [0..<length (sc_hooks c)]))"
    and "own_detail e c ctx key dflt detail" and "events_of c key detail dflt sent"
  using evaluate_and_send_spec [of e c policy now ctx key dflt] by (auto simp: VariationInternal_eq)

section \<open>All flags\<close>

text \<open>Evaluation of a flag of the store that the state includes.\<close>

definition included_flag :: "Options \<Rightarrow> FlagDescriptor option \<Rightarrow> Flag option" where
  "included_flag options d =
     (case Option.bind d descr_item of
        Some flag \<Rightarrow> if IsSet options opClientSideOnly \<and> \<not> usingEnvironmentId flag then None else Some flag
      | None \<Rightarrow> None)"

definition evaluated :: "env \<Rightarrow> 'd ServerClient \<Rightarrow> Context \<Rightarrow> Flag \<Rightarrow> Detail \<times> EvalState" where
  "evaluated e c ctx flag =
     the (Evaluate (store_fuel (sc_store c)) e (store_view (sc_store c)) (sc_big_segments c) flag ctx)"

lemma evaluated_Some:
  "Evaluate (store_fuel (sc_store c)) e (store_view (sc_store c)) (sc_big_segments c) flag ctx = Some (evaluated e c ctx flag)"
proof -
  obtain d s where "Evaluate (store_fuel (sc_store c)) e (store_view (sc_store c)) (sc_big_segments c) flag ctx = Some (d, s)"
    by (rule store_evaluates)
  then show ?thesis by (simp add: evaluated_def)
qed

text \<open>The state of one flag, without and with what the options leave out.\<close>

definition full_state :: "env \<Rightarrow> 'd ServerClient \<Rightarrow> Date \<Rightarrow> Context \<Rightarrow> string \<Rightarrow> Flag \<Rightarrow> FlagState" where
  "full_state e c now ctx key flag =
     (case evaluated e c ctx flag of (detail, s) \<Rightarrow> flag_state flag detail (record_prereqs key now ctx (ev_sent s)))"

definition shown :: "Options \<Rightarrow> u64 \<Rightarrow> FlagState \<Rightarrow> FlagState" where
  "shown options now_ms st =
     st\<lparr>omit_details := IsSet options opDetailsOnlyForTrackedFlags \<and> \<not> st_track_events st \<and> \<not> st_track_reason st \<and>
          \<not> IsDebuggingEnabled now_ms (st_debug_events_until_date st),
        st_reason := (if IsSet options opIncludeReasons \<or> st_track_reason st then st_reason st else None)\<rparr>"

lemma AddFlag_shown:
  "\<not> omit_details st \<Longrightarrow> AddFlag options now_ms key val st b =
     b\<lparr>afs_flags_state := umap_emplace key (shown options now_ms st) (afs_flags_state b),
       afs_evaluations := umap_emplace key val (afs_evaluations b)\<rparr>"
  by (cases st) (auto simp: AddFlag_def shown_def NotSet_def Let_def)

lemma full_state_details: "\<not> omit_details (full_state e c now ctx key flag)"
  by (simp add: full_state_def flag_state_def Let_def split: prod.split)

definition included_flags :: "Options \<Rightarrow> Flag Collection \<Rightarrow> (string \<times> Flag) list" where
  "included_flags options flags = map_choose (\<lambda>d. included_flag options (Some d)) flags"

lemma add_flags_eq:
  "add_flags e c now now_ms ctx options flags b =
     Some (fold (\<lambda>(key, flag). AddFlag options now_ms key (detail_value (fst (evaluated e c ctx flag)))
       (full_state e c now ctx key flag)) (included_flags options flags) b)"
proof (induction flags arbitrary: b)
  case (Cons p flags)
  obtain key d where p: "p = (key, d)" by (cases p)
  show ?case
    using Cons by (simp add: p included_flags_def included_flag_def full_state_def evaluated_Some case_prod_unfold
        split: option.split)
qed (simp add: included_flags_def)

lemma folded_flags:
  "afs_evaluations (fold (\<lambda>(key, flag). AddFlag options now_ms key (detail_value (fst (evaluated e c ctx flag)))
       (full_state e c now ctx key flag)) kfs b) =
     fold (\<lambda>(key, flag). umap_emplace key (detail_value (fst (evaluated e c ctx flag)))) kfs (afs_evaluations b)"
  "afs_flags_state (fold (\<lambda>(key, flag). AddFlag options now_ms key (detail_value (fst (evaluated e c ctx flag)))
       (full_state e c now ctx key flag)) kfs b) =
     fold (\<lambda>(key, flag). umap_emplace key (shown options now_ms (full_state e c now ctx key flag))) kfs (afs_flags_state b)"
  by (induction kfs arbitrary: b) (auto simp: AddFlag_shown full_state_details)

lemma map_of_included:
  "distinct (map fst flags) \<Longrightarrow> map_of (included_flags options flags) k = included_flag options (map_of flags k)"
  by (simp add: included_flags_def map_of_choose) (simp add: included_flag_def split: option.split bind_split)

lemma recorded_prereqs:
  "record_prereqs key now ctx ps = map pe_key (filter (\<lambda>p. pe_prereq_of p = key) ps)"
proof -
  have "fold (\<lambda>p. Recorder_SendAsync key (prereq_event rpDefault now ctx p)) ps acc =
      acc @ map pe_key (filter (\<lambda>p. pe_prereq_of p = key) ps)" for acc
    by (induction ps arbitrary: acc)
      (auto simp: Recorder_SendAsync_def prereq_event_def EventFactory_Eval_def FeatureRequest_def Let_def)
  then show ?thesis by (simp add: record_prereqs_def)
qed

lemma full_state_fields:
  "st_version (full_state e c now ctx key flag) = flag_version flag"
  "st_variation (full_state e c now ctx key flag) = variation_index (fst (evaluated e c ctx flag))"
  "st_reason (full_state e c now ctx key flag) = detail_reason (fst (evaluated e c ctx flag))"
  "st_track_reason (full_state e c now ctx key flag) = IsExperimentationEnabled flag (detail_reason (fst (evaluated e c ctx flag)))"
  "st_prerequisites (full_state e c now ctx key flag) =
     map pe_key (filter (\<lambda>p. pe_prereq_of p = key) (ev_sent (snd (evaluated e c ctx flag))))"
  by (simp_all add: full_state_def flag_state_def recorded_prereqs case_prod_unfold Let_def)

lemma all_flags_built:
  assumes "MemoryStore_Initialized (sc_store c)" and d: "distinct (map fst (ms_flags (sc_store c)))"
  obtains st where "AllFlagsState_of e c now now_ms ctx options = Some st" "afs_valid st"
    and "\<forall>k. map_of (afs_evaluations st) k =
      map_option (\<lambda>flag. detail_value (fst (evaluated e c ctx flag))) (included_flag options (MemoryStore_GetFlag (sc_store c) k))"
    and "\<forall>k. map_of (afs_flags_state st) k =
      map_option (\<lambda>flag. shown options now_ms (full_state e c now ctx k flag)) (included_flag options (MemoryStore_GetFlag (sc_store c) k))"
proof -
  let ?b = "fold (\<lambda>(key, flag). AddFlag options now_ms key (detail_value (fst (evaluated e c ctx flag)))
       (full_state e c now ctx key flag)) (included_flags options (ms_flags (sc_store c))) AllFlagsState_empty"
  have "AllFlagsState_of e c now now_ms ctx options = Some (?b\<lparr>afs_valid := True\<rparr>)"
    using assms(1) by (simp add: AllFlagsState_of_def add_flags_eq AllFlags_def)
  then show thesis
    by (rule that)
      (simp_all add: folded_flags AllFlagsState_empty_def map_of_included [OF d] MemoryStore_GetFlag_def
        map_of_emplaced [of "\<lambda>k flag. detail_value (fst (evaluated e c ctx flag))"]
        map_of_emplaced [of "\<lambda>k flag. shown options now_ms (full_state e c now ctx k flag)"])
qed

section \<open>Properties\<close>

text \<open>
  C4. What an application gets from a variation, and what is reported. Evaluation always
  returns. The default comes back, with the error, when the client is not ready, the
  context is invalid or the flag is unknown or deleted, and whenever the evaluation has no
  variation; else the value is the variation's. If there is an event processor, it gets the
  events of prerequisites first, and last one for the flag itself, with the value and
  the variation of the detail and the default.
\<close>

theorem variation_outcome:
  "\<exists>detail sent calls. VariationInternal e c policy now ctx key dflt method = Some (detail, sent, calls) \<and>
     (if \<not> MemoryStore_Initialized (sc_store c) then detail = EvaluationDetail_error kClientNotReady dflt
      else if \<not> ctx_valid ctx then detail = EvaluationDetail_error kUserNotSpecified dflt
      else
        case Option.bind (MemoryStore_GetFlag (sc_store c) key) descr_item of
          None \<Rightarrow> detail = EvaluationDetail_error kFlagNotFound dflt
        | Some flag \<Rightarrow>
            (\<exists>d s. Evaluate (store_fuel (sc_store c)) e (store_view (sc_store c)) (sc_big_segments c) flag ctx = Some (d, s) \<and>
               detail = EvaluationDetail3 (if variation_index d = None then dflt else detail_value d)
                 (variation_index d) (detail_reason d))) \<and>
     (if sc_events c
      then \<exists>prereqs p. sent = prereqs @ [InFeature p] \<and> fp_key p = key \<and> fp_value p = detail_value detail \<and>
        fp_default p = dflt \<and> fp_variation p = variation_index detail \<and> fp_prereq_of p = None \<and>
        list_all for_prerequisite prereqs
      else sent = [])"
proof -
  obtain detail sent where "VariationInternal e c policy now ctx key dflt method = Some (detail, sent,
      map BeforeCall [0..<length (sc_hooks c)] @ map AfterCall (rev [0..<length (sc_hooks c)]))"
    and "own_detail e c ctx key dflt detail" "events_of c key detail dflt sent"
    by (rule VariationInternal_spec)
  then show ?thesis
    by (intro exI [of _ detail] exI [of _ sent] exI conjI)
      (assumption, simp only: own_detail_def, auto simp: events_of_def reports_def)
qed

text \<open>What is reported of an evaluation, if there is an event processor.\<close>

definition event_reported :: "'d ServerClient \<Rightarrow> string \<Rightarrow> Detail \<Rightarrow> Value \<Rightarrow> InputEvent list \<Rightarrow> bool" where
  "event_reported c key detail dflt sent \<longleftrightarrow>
     (if sc_events c
      then \<exists>p. last sent = InFeature p \<and> fp_key p = key \<and> fp_value p = detail_value detail \<and>
        fp_variation p = variation_index detail \<and> fp_default p = dflt
      else sent = [])"

lemma VariationInternal_reported:
  obtains detail sent calls where "VariationInternal e c policy now ctx key dflt method = Some (detail, sent, calls)"
    and "event_reported c key detail dflt sent"
proof -
  obtain detail sent where v: "VariationInternal e c policy now ctx key dflt method = Some (detail, sent,
      map BeforeCall [0..<length (sc_hooks c)] @ map AfterCall (rev [0..<length (sc_hooks c)]))"
    and events: "events_of c key detail dflt sent"
    by (rule VariationInternal_spec)
  have "event_reported c key detail dflt sent"
    using events by (auto simp: events_of_def reports_def event_reported_def)
  then show thesis using v by (rule that [rotated])
qed

lemma AsInt_default: "AsInt ub (VNumber (to_double (of_int (sint (n :: 32 word))))) = n"
proof -
  define i where "i = sint n"
  have range: "- (2 ^ 31) \<le> i" "i < 2 ^ 31" using sint_ge [of n] sint_lt [of n] by (simp_all add: i_def)
  have "\<bar>of_int i :: rat\<bar> \<le> of_int (2 ^ 31)"
    using range by (subst of_int_abs [symmetric], subst of_int_le_iff) linarith
  also have "\<dots> = 2 powi 31" by simp
  also have "\<dots> \<le> 2 powi 1023" by (rule power_int_increasing) simp_all
  finally have "to_double (of_int i) = Fin (round_f64 (of_int i))" by (rule to_double_Fin)
  also have "round_f64 (of_int i) = of_int i" by (rule f64.rnd_int) (use range in simp)
  finally have "AsInt ub (VNumber (to_double (of_int i))) = word_of_int i"
    using range by (simp add: AsInt_def rat_trunc_def)
  moreover have "word_of_int i = n" by (simp add: i_def)
  ultimately show ?thesis unfolding i_def by (simp only:)
qed

text \<open>
  C37. The typed methods. The methods for booleans, strings, doubles and integers return the
  value of the evaluation when it has the type that was asked for, a number being truncated by
  the integer method, and the default otherwise; the method for JSON returns it whatever its
  type. The methods with a detail return the evaluation, or the error of a wrong type with the
  default. The event is that of the evaluation either way, with its value and variation and the
  default: when the type is wrong, the value that is reported is not the one that the
  application got.
\<close>

theorem typed_variation_reports:
  "(\<exists>detail sent calls. VariationInternal e c rpDefault now ctx key (VBool b) ''BoolVariation'' = Some (detail, sent, calls) \<and>
      event_reported c key detail (VBool b) sent \<and>
      BoolVariation e c now ctx key b = Some (case detail_value detail of VBool x \<Rightarrow> x | _ \<Rightarrow> b, sent)) \<and>
   (\<exists>detail sent calls. VariationInternal e c rpDefault now ctx key (VString str) ''StringVariation'' = Some (detail, sent, calls) \<and>
      event_reported c key detail (VString str) sent \<and>
      StringVariation e c now ctx key str = Some (case detail_value detail of VString x \<Rightarrow> x | _ \<Rightarrow> str, sent)) \<and>
   (\<exists>detail sent calls. VariationInternal e c rpDefault now ctx key (VNumber r) ''DoubleVariation'' = Some (detail, sent, calls) \<and>
      event_reported c key detail (VNumber r) sent \<and>
      DoubleVariation e c now ctx key r = Some (case detail_value detail of VNumber x \<Rightarrow> x | _ \<Rightarrow> r, sent)) \<and>
   (\<exists>detail sent calls. VariationInternal e c rpDefault now ctx key (VNumber (to_double (of_int (sint n)))) ''IntVariation'' =
        Some (detail, sent, calls) \<and>
      event_reported c key detail (VNumber (to_double (of_int (sint n)))) sent \<and>
      IntVariation e ub c now ctx key n = Some (case detail_value detail of VNumber x \<Rightarrow> cast_int ub x | _ \<Rightarrow> n, sent)) \<and>
   (\<exists>detail sent calls. VariationInternal e c rpDefault now ctx key v ''JsonVariation'' = Some (detail, sent, calls) \<and>
      event_reported c key detail v sent \<and>
      JsonVariation e c now ctx key v = Some (detail_value detail, sent)) \<and>
   (\<exists>detail sent calls. VariationInternal e c rpRequire now ctx key v method = Some (detail, sent, calls) \<and>
      event_reported c key detail v sent \<and>
      VariationDetail e c now as_type ctx value_type key v method =
        Some (if Type (detail_value detail) = value_type
              then EvaluationDetail3 (as_type (detail_value detail)) (variation_index detail) (detail_reason detail)
              else EvaluationDetail_error kWrongType (as_type v), sent))"
proof (intro conjI)
  show "\<exists>detail sent calls. VariationInternal e c rpDefault now ctx key (VBool b) ''BoolVariation'' = Some (detail, sent, calls) \<and>
      event_reported c key detail (VBool b) sent \<and>
      BoolVariation e c now ctx key b = Some (case detail_value detail of VBool x \<Rightarrow> x | _ \<Rightarrow> b, sent)"
    by (rule VariationInternal_reported [of e c rpDefault now ctx key "VBool b" "''BoolVariation''"])
      (auto simp: BoolVariation_def Variation_typed_def AsBool_def split: Value.split)
  show "\<exists>detail sent calls. VariationInternal e c rpDefault now ctx key (VString str) ''StringVariation'' = Some (detail, sent, calls) \<and>
      event_reported c key detail (VString str) sent \<and>
      StringVariation e c now ctx key str = Some (case detail_value detail of VString x \<Rightarrow> x | _ \<Rightarrow> str, sent)"
    by (rule VariationInternal_reported [of e c rpDefault now ctx key "VString str" "''StringVariation''"])
      (auto simp: StringVariation_def Variation_typed_def AsString_def split: Value.split)
  show "\<exists>detail sent calls. VariationInternal e c rpDefault now ctx key (VNumber r) ''DoubleVariation'' = Some (detail, sent, calls) \<and>
      event_reported c key detail (VNumber r) sent \<and>
      DoubleVariation e c now ctx key r = Some (case detail_value detail of VNumber x \<Rightarrow> x | _ \<Rightarrow> r, sent)"
    by (rule VariationInternal_reported [of e c rpDefault now ctx key "VNumber r" "''DoubleVariation''"])
      (auto simp: DoubleVariation_def Variation_typed_def AsDouble_def split: Value.split)
  show "\<exists>detail sent calls. VariationInternal e c rpDefault now ctx key v ''JsonVariation'' = Some (detail, sent, calls) \<and>
      event_reported c key detail v sent \<and> JsonVariation e c now ctx key v = Some (detail_value detail, sent)"
    by (rule VariationInternal_reported [of e c rpDefault now ctx key v "''JsonVariation''"])
      (auto simp: JsonVariation_def)
  show "\<exists>detail sent calls. VariationInternal e c rpRequire now ctx key v method = Some (detail, sent, calls) \<and>
      event_reported c key detail v sent \<and>
      VariationDetail e c now as_type ctx value_type key v method =
        Some (if Type (detail_value detail) = value_type
              then EvaluationDetail3 (as_type (detail_value detail)) (variation_index detail) (detail_reason detail)
              else EvaluationDetail_error kWrongType (as_type v), sent)"
    by (rule VariationInternal_reported [of e c rpRequire now ctx key v]) (auto simp: VariationDetail_def)
  define dflt where "dflt = VNumber (to_double (of_int (sint n)))"
  have dflt: "AsInt ub dflt = n" unfolding dflt_def by (rule AsInt_default)
  have int: "IntVariation e ub c now ctx key n =
      map_option (apfst (AsInt ub)) (Variation_typed e c now ctx kNumber key dflt ''IntVariation'')"
    by (simp add: IntVariation_def dflt_def)
  have number: "AsInt ub (if Type x \<noteq> kNumber then dflt else x) = (case x of VNumber d \<Rightarrow> cast_int ub d | _ \<Rightarrow> n)" for x
    using dflt by (cases x) (simp_all add: AsInt_def)
  show "\<exists>detail sent calls. VariationInternal e c rpDefault now ctx key (VNumber (to_double (of_int (sint n)))) ''IntVariation'' =
        Some (detail, sent, calls) \<and>
      event_reported c key detail (VNumber (to_double (of_int (sint n)))) sent \<and>
      IntVariation e ub c now ctx key n = Some (case detail_value detail of VNumber x \<Rightarrow> cast_int ub x | _ \<Rightarrow> n, sent)"
    unfolding int dflt_def [symmetric]
    by (rule VariationInternal_reported [of e c rpDefault now ctx key dflt "''IntVariation''"])
      (simp only: Variation_typed_def option.map prod.case apfst_conv number, blast)
qed

text \<open>
  C17. Hooks do not interfere. Whatever they return or throw, the detail and the events are
  those without hooks. They are called in order before the evaluation and in reverse order
  after it, and each one gets in its second stage what it returned in its first, or the data
  it was given when it threw.
\<close>

theorem hooks_do_not_interfere:
  "map_option (\<lambda>(detail, sent, calls). (detail, sent)) (VariationInternal e c policy now ctx key dflt method) =
     map_option (\<lambda>(detail, sent, calls). (detail, sent))
       (VariationInternal e (c\<lparr>sc_hooks := []\<rparr>) policy now ctx key dflt method) \<and>
   map_option (\<lambda>(detail, sent, calls). calls) (VariationInternal e c policy now ctx key dflt method) =
     Some (map BeforeCall [0..<length (sc_hooks c)] @ map AfterCall (rev [0..<length (sc_hooks c)])) \<and>
   series_data (AfterEvaluation hooks sx detail (BeforeEvaluation hooks sx (SeriesExecutor_new no_data hooks))) =
     map (\<lambda>h. stage_result (hook_after h sx detail) (stage_result (hook_before h sx) no_data)) hooks"
proof (intro conjI)
  have same: "evaluate_and_send e (c\<lparr>sc_hooks := []\<rparr>) policy now ctx key dflt = evaluate_and_send e c policy now ctx key dflt"
    by (simp add: evaluate_and_send_def PreEvaluationChecks_def PostEvaluation_def Send_def comp_def
        cong: option.case_cong prod.case_cong sum.case_cong)
  show "map_option (\<lambda>(detail, sent, calls). (detail, sent)) (VariationInternal e c policy now ctx key dflt method) =
     map_option (\<lambda>(detail, sent, calls). (detail, sent))
       (VariationInternal e (c\<lparr>sc_hooks := []\<rparr>) policy now ctx key dflt method)"
    unfolding VariationInternal_eq same by (cases "evaluate_and_send e c policy now ctx key dflt") auto
  obtain detail sent where "VariationInternal e c policy now ctx key dflt method = Some (detail, sent,
      map BeforeCall [0..<length (sc_hooks c)] @ map AfterCall (rev [0..<length (sc_hooks c)]))"
    by (rule VariationInternal_spec)
  then show "map_option (\<lambda>(detail, sent, calls). calls) (VariationInternal e c policy now ctx key dflt method) =
     Some (map BeforeCall [0..<length (sc_hooks c)] @ map AfterCall (rev [0..<length (sc_hooks c)]))" by simp
qed (rule hooks_data)

text \<open>
  C16. The state of all flags. Before the store is initialized it is empty and invalid. After
  that it has exactly the flags that are not deleted, and with the option for client-side
  flags only those that client-side SDKs may see; for each one the value of its
  evaluation, its direct prerequisites that were evaluated, and the reason when it is asked
  for or needed for an experiment.
\<close>

theorem all_flags_state:
  assumes "MemoryStore_ok (sc_store c)"
  shows "\<exists>st. AllFlagsState_of e c now now_ms ctx options = Some st \<and>
    (if \<not> MemoryStore_Initialized (sc_store c) then st = AllFlagsState_empty
     else afs_valid st \<and>
       (\<forall>k. case Option.bind (MemoryStore_GetFlag (sc_store c) k) descr_item of
          None \<Rightarrow> map_of (afs_evaluations st) k = None \<and> map_of (afs_flags_state st) k = None
        | Some flag \<Rightarrow>
            if IsSet options opClientSideOnly \<and> \<not> usingEnvironmentId flag
            then map_of (afs_evaluations st) k = None \<and> map_of (afs_flags_state st) k = None
            else
              \<exists>detail s fs. Evaluate (store_fuel (sc_store c)) e (store_view (sc_store c)) (sc_big_segments c) flag ctx = Some (detail, s) \<and>
                map_of (afs_evaluations st) k = Some (detail_value detail) \<and> map_of (afs_flags_state st) k = Some fs \<and>
                st_version fs = flag_version flag \<and> st_variation fs = variation_index detail \<and>
                st_prerequisites fs = map pe_key (filter (\<lambda>p. pe_prereq_of p = k) (ev_sent s)) \<and>
                st_reason fs = (if IsSet options opIncludeReasons \<or> IsExperimentationEnabled flag (detail_reason detail)
                  then detail_reason detail else None)))"
proof (cases "MemoryStore_Initialized (sc_store c)")
  case False
  then show ?thesis by (simp add: AllFlagsState_of_def)
next
  case True
  have d: "distinct (map fst (ms_flags (sc_store c)))" using assms by (simp add: MemoryStore_ok_def)
  obtain st where st: "AllFlagsState_of e c now now_ms ctx options = Some st" "afs_valid st"
    and maps: "\<forall>k. map_of (afs_evaluations st) k =
        map_option (\<lambda>flag. detail_value (fst (evaluated e c ctx flag))) (included_flag options (MemoryStore_GetFlag (sc_store c) k))"
      "\<forall>k. map_of (afs_flags_state st) k =
        map_option (\<lambda>flag. shown options now_ms (full_state e c now ctx k flag)) (included_flag options (MemoryStore_GetFlag (sc_store c) k))"
    by (rule all_flags_built [where e = e and now = now and now_ms = now_ms and ctx = ctx and options = options, OF True d])
  show ?thesis
  proof (rule exI [of _ st], simp only: st True not_True_eq_False if_False simp_thms, rule allI, goal_cases)
    case (1 k)
    show ?case
    proof (cases "included_flag options (MemoryStore_GetFlag (sc_store c) k)")
      case None
      then show ?thesis using maps by (auto simp: included_flag_def split: option.splits if_splits)
    next
      case (Some flag)
      obtain detail s where ev: "evaluated e c ctx flag = (detail, s)" by fastforce
      from Some show ?thesis
        using maps evaluated_Some [of c e flag ctx]
        by (auto simp: included_flag_def ev shown_def full_state_fields split: option.splits if_splits)
    qed
  qed
qed

text \<open>A store with two flags, one of them a prerequisite of the other and for client-side SDKs.\<close>

definition sample_client :: "nat ServerClient" where
  "sample_client =
     \<lparr>sc_hooks = [], sc_no_data = 0,
      sc_store =
        \<lparr>ms_flags = [(''a'', FlagDescriptor_of flag_a), (''b'', FlagDescriptor_of ((flag_b False)\<lparr>usingEnvironmentId := True\<rparr>))],
         ms_segments = [], ms_initialized = True\<rparr>,
      sc_big_segments = None, sc_events = True\<rparr>"

theorem all_flags_state_witness:
  "\<exists>st. AllFlagsState_of sample_env sample_client 0 0 sample_context opClientSideOnly = Some st \<and> afs_valid st \<and>
     map_of (afs_evaluations st) ''a'' = None \<and> (\<exists>v. map_of (afs_evaluations st) ''b'' = Some v)"
proof -
  have ok: "MemoryStore_ok (sc_store sample_client)" by (simp add: sample_client_def MemoryStore_ok_def)
  have flags: "MemoryStore_Initialized (sc_store sample_client)"
    "Option.bind (MemoryStore_GetFlag (sc_store sample_client) ''a'') descr_item = Some flag_a"
    "Option.bind (MemoryStore_GetFlag (sc_store sample_client) ''b'') descr_item = Some ((flag_b False)\<lparr>usingEnvironmentId := True\<rparr>)"
    "IsSet opClientSideOnly opClientSideOnly" "\<not> usingEnvironmentId flag_a"
    by (simp_all add: sample_client_def MemoryStore_Initialized_def MemoryStore_GetFlag_def FlagDescriptor_of_def
        IsSet_def flag_a_def sample_flag_def)
  obtain st where st: "AllFlagsState_of sample_env sample_client 0 0 sample_context opClientSideOnly = Some st" "afs_valid st"
    and all: "\<forall>k. case Option.bind (MemoryStore_GetFlag (sc_store sample_client) k) descr_item of
          None \<Rightarrow> map_of (afs_evaluations st) k = None \<and> map_of (afs_flags_state st) k = None
        | Some flag \<Rightarrow>
            if IsSet opClientSideOnly opClientSideOnly \<and> \<not> usingEnvironmentId flag
            then map_of (afs_evaluations st) k = None \<and> map_of (afs_flags_state st) k = None
            else \<exists>v. map_of (afs_evaluations st) k = Some v"
    using all_flags_state [OF ok, of sample_env 0 0 sample_context opClientSideOnly] flags(1)
    by (force split: option.splits if_splits)
  show ?thesis
    using st all [THEN spec, of "''a''"] all [THEN spec, of "''b''"] flags by simp
qed

end
