(* ===== verification/Client_Persistence.thy ===== *)
theory Client_Persistence
  imports Client_Flags "HOL-Library.Multiset" "HOL-Library.Countable"
begin

text \<open>
  The cache of the client-side SDK: the index of the cached contexts (\<^verbatim>\<open>context_index.cpp\<close>) and
  the persistence that wraps the updater (\<^verbatim>\<open>flag_persistence.cpp\<close>). The store behind
  \<^verbatim>\<open>IPersistence\<close> is the application's; it is a map from keys to texts here, as its
  interface documents, for the one namespace that is used. Serializing and parsing JSON, the
  encoding of context keys and \<^verbatim>\<open>std::sort\<close>, whose order of equal elements is not specified, are
  parameters. The lemmas show how many contexts the cache holds.
\<close>

section \<open>The index\<close>

text \<open>Time points are nanoseconds; that a date after the year 2262 overflows them is not modelled.\<close>

record IndexEntry =
  entry_id :: string
  entry_timestamp :: int

definition entry :: "string \<Rightarrow> int \<Rightarrow> IndexEntry" where
  "entry i timestamp = \<lparr>entry_id = i, entry_timestamp = timestamp\<rparr>"

fun ContextIndex_Notice :: "string \<Rightarrow> int \<Rightarrow> IndexEntry list \<Rightarrow> IndexEntry list" where
  "ContextIndex_Notice i timestamp [] = [entry i timestamp]"
| "ContextIndex_Notice i timestamp (e # es) =
     (if entry_id e = i then e\<lparr>entry_timestamp := timestamp\<rparr> # es
      else e # ContextIndex_Notice i timestamp es)"

definition ContextIndex_Prune ::
  "(IndexEntry list \<Rightarrow> IndexEntry list) \<Rightarrow> nat \<Rightarrow> IndexEntry list \<Rightarrow> string list \<times> IndexEntry list" where
  "ContextIndex_Prune std_sort maxContexts index =
     (if length index \<le> maxContexts then ([], index)
      else
        (let index = std_sort index;
             removed = drop maxContexts index
         in (map entry_id removed, take maxContexts index)))"

text \<open>\<^verbatim>\<open>duration_cast<milliseconds>\<close> truncates towards zero.\<close>

definition cast_milliseconds :: "int \<Rightarrow> int" where
  "cast_milliseconds t = (if t < 0 then - (- t div 1000000) else t div 1000000)"

definition IndexEntry_json :: "IndexEntry \<Rightarrow> json" where
  "IndexEntry_json e =
     JObject (object_emplace ''timestamp'' (JInt64 (of_int (cast_milliseconds (entry_timestamp e))))
       (object_emplace ''id'' (JString (entry_id e)) []))"

definition ContextIndex_json :: "IndexEntry list \<Rightarrow> json" where
  "ContextIndex_json index = JObject (object_emplace ''index'' (JArray (map IndexEntry_json index)) [])"

fun parse_index_items :: "numbers \<Rightarrow> json list \<Rightarrow> IndexEntry list outcome" where
  "parse_index_items N [] = Returned []"
| "parse_index_items N (JObject obj # items) =
     outcome_bind (ValueAsOpt_u64 N (map_of obj ''timestamp'')) (\<lambda>timestamp.
     outcome_bind (parse_index_items N items) (\<lambda>index.
       Returned (case (ValueAsOpt_string (map_of obj ''id''), timestamp) of
         (Some i, Some ms) \<Rightarrow> entry i (sint ms * 1000000) # index
       | _ \<Rightarrow> index)))"
| "parse_index_items N (_ # items) = parse_index_items N items"

definition parse_ContextIndex :: "numbers \<Rightarrow> json \<Rightarrow> IndexEntry list outcome" where
  "parse_ContextIndex N j =
     (case j of
        JObject obj \<Rightarrow> (case map_of obj ''index'' of Some (JArray items) \<Rightarrow> parse_index_items N items | _ \<Rightarrow> Returned [])
      | _ \<Rightarrow> Returned [])"

section \<open>The persistence\<close>

record cache_code =
  cache_wire :: wire
  serialize :: "json \<Rightarrow> string"
  PersistenceEncodeKey :: "string \<Rightarrow> string"
  std_sort :: "IndexEntry list \<Rightarrow> IndexEntry list"

text \<open>
  \<open>fp_persistence\<close> is absent when persistence is disabled; \<open>fp_updater\<close> is the sink and holds the flag
  store.
\<close>

record FlagPersistence =
  fp_updater :: FlagUpdater
  fp_persistence :: "(string \<times> string) list option"
  max_cached_contexts :: nat

definition index_key :: string where "index_key = ''ContextIndex''"

definition Persistence_Read :: "string \<Rightarrow> (string \<times> string) list \<Rightarrow> string option" where
  "Persistence_Read key store = map_of store key"

definition Persistence_Set :: "string \<Rightarrow> string \<Rightarrow> (string \<times> string) list \<Rightarrow> (string \<times> string) list" where
  "Persistence_Set key data store = AList.update key data store"

definition Persistence_Remove :: "string \<Rightarrow> (string \<times> string) list \<Rightarrow> (string \<times> string) list" where
  "Persistence_Remove key store = AList.delete key store"

definition GetIndex :: "cache_code \<Rightarrow> FlagPersistence \<Rightarrow> IndexEntry list outcome" where
  "GetIndex C p =
     (case fp_persistence p of
        None \<Rightarrow> Returned []
      | Some store \<Rightarrow>
          (case Persistence_Read index_key store of
             None \<Rightarrow> Returned []
           | Some index_data \<Rightarrow>
               (case json_parse (cache_wire C) index_data of
                  None \<Rightarrow> Returned []
                | Some parsed \<Rightarrow> parse_ContextIndex (wire_numbers (cache_wire C)) parsed)))"

definition StoreCache :: "cache_code \<Rightarrow> int \<Rightarrow> string \<Rightarrow> FlagPersistence \<Rightarrow> unit outcome \<times> FlagPersistence" where
  "StoreCache C now context_id p =
     (case fp_persistence p of
        None \<Rightarrow> (Returned (), p)
      | Some store \<Rightarrow>
          (case GetIndex C p of
             Threw \<Rightarrow> (Threw, p)
           | Returned index \<Rightarrow>
               (let index = ContextIndex_Notice context_id now index;
                    (pruned, index) = ContextIndex_Prune (std_sort C) (max_cached_contexts p) index;
                    store = fold Persistence_Remove pruned store;
                    store = Persistence_Set index_key (serialize C (ContextIndex_json index)) store;
                    store = Persistence_Set context_id (serialize C (client_flags_json (fu_store (fp_updater p)))) store
                in (Returned (), p\<lparr>fp_persistence := Some store\<rparr>))))"

definition FlagPersistence_Init ::
  "cache_code \<Rightarrow> int \<Rightarrow> Context \<Rightarrow> ClientFlags \<Rightarrow> FlagPersistence \<Rightarrow> unit outcome \<times> FlagPersistence" where
  "FlagPersistence_Init C now ctx data p =
     StoreCache C now (PersistenceEncodeKey C (canonical_key ctx)) (p\<lparr>fp_updater := FlagUpdater_Init data (fp_updater p)\<rparr>)"

definition FlagPersistence_Upsert ::
  "cache_code \<Rightarrow> int \<Rightarrow> Context \<Rightarrow> string \<Rightarrow> ClientDescriptor \<Rightarrow> FlagPersistence \<Rightarrow> unit outcome \<times> FlagPersistence" where
  "FlagPersistence_Upsert C now ctx key item p =
     StoreCache C now (PersistenceEncodeKey C (canonical_key ctx)) (p\<lparr>fp_updater := FlagUpdater_Upsert key item (fp_updater p)\<rparr>)"

definition LoadCached :: "cache_code \<Rightarrow> Context \<Rightarrow> FlagPersistence \<Rightarrow> unit outcome \<times> FlagPersistence" where
  "LoadCached C ctx p =
     (case fp_persistence p of
        None \<Rightarrow> (Returned (), p)
      | Some store \<Rightarrow>
          if \<not> ctx_valid ctx then (Returned (), p)
          else
            (case Persistence_Read (PersistenceEncodeKey C (canonical_key ctx)) store of
               None \<Rightarrow> (Returned (), p)
             | Some data \<Rightarrow>
                 (case json_parse (cache_wire C) data of
                    None \<Rightarrow> (Returned (), p)
                  | Some parsed \<Rightarrow>
                      (case parse_client_flags (wire_numbers (cache_wire C)) parsed of
                         Threw \<Rightarrow> (Threw, p)
                       | Returned (Inl _) \<Rightarrow> (Returned (), p)
                       | Returned (Inr m) \<Rightarrow>
                           (Returned (),
                            p\<lparr>fp_updater := FlagUpdater_Init (case m of Some fs \<Rightarrow> fs | None \<Rightarrow> []) (fp_updater p)\<rparr>)))))"

section \<open>Stored indexes\<close>

text \<open>What the cache relies on: a JSON text is read as what was written, and the sort sorts.\<close>

definition sound_code :: "cache_code \<Rightarrow> bool" where
  "sound_code C \<longleftrightarrow>
     unsigned_exact (wire_numbers (cache_wire C)) \<and>
     (\<forall>index. json_parse (cache_wire C) (serialize C (ContextIndex_json index)) = Some (ContextIndex_json index)) \<and>
     (\<forall>es. mset (std_sort C es) = mset es \<and>
        sorted_wrt (\<lambda>a b. entry_timestamp a \<ge> entry_timestamp b) (std_sort C es))"

definition floored :: "IndexEntry \<Rightarrow> IndexEntry" where
  "floored e = e\<lparr>entry_timestamp := entry_timestamp e div 1000000 * 1000000\<rparr>"

definition time_ok :: "int \<Rightarrow> bool" where
  "time_ok t \<longleftrightarrow> 0 \<le> t \<and> t < 2 ^ 63"

lemma floored_fields [simp]: "entry_id (floored e) = entry_id e" "0 \<le> entry_timestamp e \<Longrightarrow> 0 \<le> entry_timestamp (floored e)"
  "entry_timestamp (floored e) \<le> entry_timestamp e"
  by (simp_all add: floored_def)

lemma index_items_reread:
  assumes "unsigned_exact N" and "\<forall>e \<in> set index. time_ok (entry_timestamp e)"
  shows "parse_index_items N (map IndexEntry_json index) = Returned (map floored index)"
  using assms(2)
proof (induction index)
  case (Cons e index)
  let ?ms = "entry_timestamp e div 1000000"
  have range: "0 \<le> ?ms" "?ms < 2 ^ 63" using Cons.prems by (auto simp: time_ok_def)
  then have ms: "sint (of_int ?ms :: i64) = ?ms"
    by (simp add: sint_sbintrunc' signed_take_bit_int_eq_self)
  have "ValueAsOpt_u64 N (Some (JInt64 (of_int ?ms))) = Returned (Some (of_int ?ms))"
    using assms(1) range(1) by (simp add: ValueAsOpt_u64_def unsigned_exact_def ms)
  moreover have "cast_milliseconds (entry_timestamp e) = ?ms"
    using Cons.prems by (simp add: cast_milliseconds_def time_ok_def)
  ultimately show ?case
    using Cons by (simp add: IndexEntry_json_def ValueAsOpt_string_def ms entry_def floored_def)
qed simp

lemma index_reread:
  "unsigned_exact N \<Longrightarrow> \<forall>e \<in> set index. time_ok (entry_timestamp e) \<Longrightarrow>
   parse_ContextIndex N (ContextIndex_json index) = Returned (map floored index)"
  by (simp add: parse_ContextIndex_def ContextIndex_json_def index_items_reread)

lemma Notice_ids: "entry_id ` set (ContextIndex_Notice i t index) = insert i (entry_id ` set index)"
  by (induction index) (auto simp: entry_def)

lemma Notice_distinct:
  "distinct (map entry_id index) \<Longrightarrow> distinct (map entry_id (ContextIndex_Notice i t index))"
proof (induction index)
  case (Cons e index)
  then show ?case using Notice_ids [of i t index] by auto
qed (simp add: entry_def)

lemma Notice_times:
  "distinct (map entry_id index) \<Longrightarrow> e \<in> set (ContextIndex_Notice i t index) \<Longrightarrow>
   entry_id e = i \<and> entry_timestamp e = t \<or> entry_id e \<noteq> i \<and> e \<in> set index"
  by (induction index) (auto simp: entry_def image_iff split: if_splits)

text \<open>Pruning splits the entries, and the latest one stays.\<close>

lemma Prune_split:
  assumes "mset (srt index) = mset index" and "ContextIndex_Prune srt n index = (pruned, kept)"
  shows "length kept \<le> n" and "set pruned \<union> entry_id ` set kept = entry_id ` set index"
    and "set kept \<subseteq> set index" and "distinct (map entry_id index) \<Longrightarrow> distinct (map entry_id kept)"
proof -
  have set: "set (srt index) = set index" using assms(1) by (metis set_mset_mset)
  have split: "set (take n (srt index)) \<union> set (drop n (srt index)) = set index"
    unfolding set [symmetric] by (metis append_take_drop_id set_append)
  show "length kept \<le> n" using assms(2) by (auto simp: ContextIndex_Prune_def Let_def split: if_splits)
  show "set pruned \<union> entry_id ` set kept = entry_id ` set index"
  proof (cases "length index \<le> n")
    case True
    then show ?thesis using assms(2) by (auto simp: ContextIndex_Prune_def)
  next
    case False
    then have "pruned = map entry_id (drop n (srt index))" "kept = take n (srt index)"
      using assms(2) by (auto simp: ContextIndex_Prune_def Let_def)
    then show ?thesis using arg_cong [OF split, of "image entry_id"] by (simp add: image_Un Un_commute)
  qed
  show "set kept \<subseteq> set index"
    using assms(2) split by (auto simp: ContextIndex_Prune_def Let_def split: if_splits)
  assume "distinct (map entry_id index)"
  then have "distinct (map entry_id (srt index))"
    using assms(1) by (metis mset_map mset_eq_imp_distinct_iff)
  then show "distinct (map entry_id kept)"
    using assms(2) \<open>distinct (map entry_id index)\<close>
    by (auto simp: ContextIndex_Prune_def Let_def take_map [symmetric] split: if_splits)
qed

lemma Prune_keeps_latest:
  assumes perm: "mset (srt index) = mset index"
    and sorted: "sorted_wrt (\<lambda>a b. entry_timestamp a \<ge> entry_timestamp b) (srt index)"
    and latest: "e \<in> set index" "\<And>e'. e' \<in> set index \<Longrightarrow> e' = e \<or> entry_timestamp e' < entry_timestamp e"
    and prune: "ContextIndex_Prune srt n index = (pruned, kept)" and n: "1 \<le> n"
  shows "e \<in> set kept"
proof (cases "length index \<le> n")
  case True
  then show ?thesis using prune latest(1) by (simp add: ContextIndex_Prune_def)
next
  case False
  have set: "set (srt index) = set index" using perm by (metis set_mset_mset)
  then obtain x xs where s: "srt index = x # xs" using latest(1) by (cases "srt index") auto
  have "x = e"
  proof (rule ccontr)
    assume "x \<noteq> e"
    moreover have "e \<in> insert x (set xs)" "x \<in> set index" using latest(1) set s by auto
    ultimately have "entry_timestamp x < entry_timestamp e" "e \<in> set xs" using latest(2) by auto
    then show False using sorted s by auto
  qed
  moreover have "x \<in> set (take n (srt index))" using n s by (cases n) auto
  ultimately show ?thesis using prune False by (auto simp: ContextIndex_Prune_def Let_def)
qed

section \<open>The cache\<close>

definition cache_ok :: "cache_code \<Rightarrow> int \<Rightarrow> FlagPersistence \<Rightarrow> bool" where
  "cache_ok C t p \<longleftrightarrow>
     (\<exists>store index. fp_persistence p = Some store \<and> GetIndex C p = Returned index \<and>
        distinct (map entry_id index) \<and> length index \<le> max_cached_contexts p \<and>
        (\<forall>e \<in> set index. 0 \<le> entry_timestamp e \<and> entry_timestamp e \<le> t) \<and>
        fst ` set store \<subseteq> insert index_key (entry_id ` set index))"

lemma removed_keys: "fst ` set (fold Persistence_Remove ks store) = fst ` set store - set ks"
proof (induction ks arbitrary: store)
  case (Cons k ks)
  have "fst ` set (AList.delete k store) = fst ` set store - {k}"
    by (metis delete_keys set_map set_removeAll)
  then show ?case using Cons by (auto simp: Persistence_Remove_def)
qed simp

lemma set_keys: "fst ` set (Persistence_Set k v store) = insert k (fst ` set store)"
  by (simp add: Persistence_Set_def dom_update)

lemma read_set: "Persistence_Read k (Persistence_Set k' v store) = (if k = k' then Some v else Persistence_Read k store)"
  by (simp add: Persistence_Read_def Persistence_Set_def update_conv')

text \<open>One more context is cached.\<close>

lemma StoreCache_step:
  assumes C: "sound_code C" and ok: "cache_ok C t p" and now: "t < now" "time_ok now"
    and i: "i \<noteq> index_key" and n: "1 \<le> max_cached_contexts p"
    and p': "p' = snd (StoreCache C now i p)"
  shows "cache_ok C now p'" and "fst (StoreCache C now i p) = Returned ()"
    and "max_cached_contexts p' = max_cached_contexts p" and "fp_updater p' = fp_updater p"
    and "Option.bind (fp_persistence p') (Persistence_Read i) =
      Some (serialize C (client_flags_json (fu_store (fp_updater p))))"
proof -
  obtain store index where store: "fp_persistence p = Some store" "GetIndex C p = Returned index"
    and index: "distinct (map entry_id index)" "length index \<le> max_cached_contexts p"
      "\<And>e. e \<in> set index \<Longrightarrow> 0 \<le> entry_timestamp e \<and> entry_timestamp e \<le> t"
      "fst ` set store \<subseteq> insert index_key (entry_id ` set index)"
    using ok unfolding cache_ok_def by blast
  let ?noticed = "ContextIndex_Notice i now index"
  obtain pruned kept where prune: "ContextIndex_Prune (std_sort C) (max_cached_contexts p) ?noticed = (pruned, kept)"
    by fastforce
  have sort: "mset (std_sort C ?noticed) = mset ?noticed"
    "sorted_wrt (\<lambda>a b. entry_timestamp a \<ge> entry_timestamp b) (std_sort C ?noticed)"
    using C by (simp_all add: sound_code_def)
  note kept = Prune_split [OF sort(1) prune]
  obtain e where e: "e \<in> set ?noticed" "entry_id e = i" using Notice_ids [of i now index] by (metis image_iff insertI1)
  have times: "e' = e \<or> entry_timestamp e' < entry_timestamp e" if "e' \<in> set ?noticed" for e'
  proof (cases "entry_id e' = i")
    case True
    have "inj_on entry_id (set ?noticed)" using Notice_distinct [OF index(1)] by (simp add: distinct_map)
    then show ?thesis using True e that by (metis inj_onD)
  next
    case False
    then have "e' \<in> set index" using Notice_times [OF index(1) that] by auto
    then show ?thesis using index(3) [of e'] Notice_times [OF index(1) e(1)] e(2) now(1) by auto
  qed
  have "e \<in> set kept" using Prune_keeps_latest [OF sort e(1) times prune n] .
  then have i_kept: "i \<in> entry_id ` set kept" using e(2) by auto
  have range: "time_ok (entry_timestamp e') \<and> entry_timestamp e' \<le> now" if "e' \<in> set kept" for e'
  proof -
    have "e' \<in> set ?noticed" using kept(3) that by auto
    then consider "entry_timestamp e' = now" | "e' \<in> set index" using Notice_times [OF index(1)] by blast
    then show ?thesis using index(3) [of e'] now by cases (auto simp: time_ok_def)
  qed
  let ?store = "Persistence_Set i (serialize C (client_flags_json (fu_store (fp_updater p))))
    (Persistence_Set index_key (serialize C (ContextIndex_json kept)) (fold Persistence_Remove pruned store))"
  have state: "p' = p\<lparr>fp_persistence := Some ?store\<rparr>"
    by (simp add: p' StoreCache_def store prune Let_def)
  have "GetIndex C p' = Returned (map floored kept)"
    using C i range by (simp add: state GetIndex_def read_set sound_code_def index_reread)
  moreover have "fst ` set ?store \<subseteq> insert index_key (entry_id ` set (map floored kept))"
    using index(4) kept(2) i_kept unfolding set_keys removed_keys
    by (auto simp: Notice_ids image_image)
  moreover have "\<forall>e' \<in> set (map floored kept). 0 \<le> entry_timestamp e' \<and> entry_timestamp e' \<le> now"
    using range by (auto simp: time_ok_def intro: order_trans [OF floored_fields(3)])
  moreover have "distinct (map entry_id (map floored kept))"
    using kept(4) [OF Notice_distinct [OF index(1)]] by (simp add: comp_def)
  ultimately show "cache_ok C now p'" using kept(1) by (simp add: cache_ok_def state)
  show "fst (StoreCache C now i p) = Returned ()" "max_cached_contexts p' = max_cached_contexts p" "fp_updater p' = fp_updater p"
    "Option.bind (fp_persistence p') (Persistence_Read i) =
      Some (serialize C (client_flags_json (fu_store (fp_updater p))))"
    by (simp_all add: p' StoreCache_def store prune Let_def read_set)
qed

definition store_all :: "cache_code \<Rightarrow> (int \<times> string) list \<Rightarrow> FlagPersistence \<Rightarrow> FlagPersistence" where
  "store_all C stores p = fold (\<lambda>(now, i) p. snd (StoreCache C now i p)) stores p"

lemma store_all_ok:
  assumes "sound_code C" and "cache_ok C t p" and "1 \<le> max_cached_contexts p"
    and "sorted_wrt (<) (t # map fst stores)" and "\<forall>m \<in> set stores. time_ok (fst m) \<and> snd m \<noteq> index_key"
  shows "(\<exists>t'. cache_ok C t' (store_all C stores p)) \<and> max_cached_contexts (store_all C stores p) = max_cached_contexts p \<and>
    (stores \<noteq> [] \<longrightarrow> Option.bind (fp_persistence (store_all C stores p)) (Persistence_Read (snd (last stores))) =
      Some (serialize C (client_flags_json (fu_store (fp_updater p)))))"
  using assms(2-5)
proof (induction stores arbitrary: t p)
  case Nil
  then show ?case by (auto simp: store_all_def)
next
  case (Cons m stores)
  let ?p = "snd (StoreCache C (fst m) (snd m) p)"
  have all: "store_all C (m # stores) p = store_all C stores ?p" by (simp add: store_all_def case_prod_unfold)
  have "t < fst m" "time_ok (fst m)" "snd m \<noteq> index_key" using Cons.prems(3,4) by auto
  note step = StoreCache_step [OF assms(1) Cons.prems(1) this Cons.prems(2) refl]
  have n: "1 \<le> max_cached_contexts ?p" using Cons.prems(2) step(3) by simp
  have rest: "sorted_wrt (<) (fst m # map fst stores)" "\<forall>m \<in> set stores. time_ok (fst m) \<and> snd m \<noteq> index_key"
    using Cons.prems(3,4) by auto
  note IH = Cons.IH [OF step(1) n rest]
  show ?case
  proof (cases "stores = []")
    case True
    then show ?thesis using step(1,3,5) unfolding all by (auto simp: store_all_def)
  next
    case False
    then show ?thesis using IH unfolding all step(3,4) by simp
  qed
qed

text \<open>A cache with no room.\<close>

lemma unindexed_step:
  assumes C: "sound_code C" and "max_cached_contexts p = 0" and "fp_persistence p = Some store"
    and "GetIndex C p = Returned []" and "i \<noteq> index_key"
  obtains store' where "fp_persistence (snd (StoreCache C now i p)) = Some store'"
    and "fst ` set store' = insert index_key (insert i (fst ` set store))"
    and "GetIndex C (snd (StoreCache C now i p)) = Returned []"
    and "max_cached_contexts (snd (StoreCache C now i p)) = 0"
proof -
  have "mset (std_sort C [entry i now]) = {#entry i now#}" using C by (simp add: sound_code_def)
  then have sort: "std_sort C [entry i now] = [entry i now]" by simp
  let ?store = "Persistence_Set i (serialize C (client_flags_json (fu_store (fp_updater p))))
    (Persistence_Set index_key (serialize C (ContextIndex_json [])) (Persistence_Remove i store))"
  have state: "snd (StoreCache C now i p) = p\<lparr>fp_persistence := Some ?store\<rparr>"
    using assms by (simp add: StoreCache_def ContextIndex_Prune_def sort Let_def) (simp add: entry_def)
  have "GetIndex C (p\<lparr>fp_persistence := Some ?store\<rparr>) = Returned []"
    using C assms(5) index_reread [of "wire_numbers (cache_wire C)" "[]"]
    by (simp add: GetIndex_def read_set sound_code_def)
  moreover have "fst ` set ?store = insert index_key (insert i (fst ` set store))"
    using removed_keys [of "[i]" store] by (auto simp: set_keys)
  ultimately show thesis using that [of ?store] assms(2) unfolding state by simp
qed

lemma unindexed_kept:
  assumes "sound_code C" and "max_cached_contexts p = 0" and "fp_persistence p = Some store"
    and "GetIndex C p = Returned []" and "index_key \<notin> snd ` set stores"
  shows "\<exists>store'. fp_persistence (store_all C stores p) = Some store' \<and>
    fst ` set store' - {index_key} = (fst ` set store - {index_key}) \<union> snd ` set stores"
  using assms(2-5)
proof (induction stores arbitrary: p store)
  case (Cons m stores)
  let ?p = "snd (StoreCache C (fst m) (snd m) p)"
  have i: "snd m \<noteq> index_key" using Cons.prems(4) by auto
  obtain store' where step: "fp_persistence ?p = Some store'"
      "fst ` set store' = insert index_key (insert (snd m) (fst ` set store))" "GetIndex C ?p = Returned []"
      "max_cached_contexts ?p = 0"
    using unindexed_step [OF assms(1) Cons.prems(1-3) i] by metis
  have "store_all C (m # stores) p = store_all C stores ?p" by (simp add: store_all_def case_prod_unfold)
  then show ?case using Cons.IH [OF step(4,1,3)] Cons.prems(4) i step(2) by auto
qed (simp add: store_all_def)

section \<open>Properties\<close>

text \<open>
  C19. The cache does not grow: when each context is stored later than the one before, on a
  store that was empty and with room for at least one context, at most that many contexts
  are kept, and the one that was stored last is among them with its flags.
\<close>

theorem cache_bounded:
  assumes "sound_code C" and "1 \<le> max_cached_contexts p" and "fp_persistence p = Some []"
    and "sorted_wrt (<) (map fst stores)"
    and "\<forall>m \<in> set stores. 0 < fst m \<and> fst m < 2 ^ 63 \<and> snd m \<noteq> index_key"
  shows "\<exists>store. fp_persistence (store_all C stores p) = Some store \<and>
    card (fst ` set store - {index_key}) \<le> max_cached_contexts p \<and>
    (stores \<noteq> [] \<longrightarrow> Persistence_Read (snd (last stores)) store =
       Some (serialize C (client_flags_json (fu_store (fp_updater p)))))"
proof -
  have start: "cache_ok C 0 p" using assms(3) by (simp add: cache_ok_def GetIndex_def Persistence_Read_def)
  have times: "sorted_wrt (<) (0 # map fst stores)" "\<forall>m \<in> set stores. time_ok (fst m) \<and> snd m \<noteq> index_key"
    using assms(4,5) by (auto simp: time_ok_def)
  note all = store_all_ok [OF assms(1) start assms(2) times]
  then obtain t where ok: "cache_ok C t (store_all C stores p)" by blast
  obtain store and index :: "IndexEntry list" where s: "fp_persistence (store_all C stores p) = Some store"
      "length index \<le> max_cached_contexts (store_all C stores p)"
      "fst ` set store \<subseteq> insert index_key (entry_id ` set index)"
    using ok unfolding cache_ok_def by blast
  have "card (fst ` set store - {index_key}) \<le> card (entry_id ` set index)" using s(3) by (intro card_mono) auto
  also have "\<dots> \<le> length index" using card_image_le [of "set index" entry_id] card_length [of index] by simp
  finally show ?thesis using s all by simp
qed

text \<open>
  C39. With room for no context at all, every context is kept: each one is pruned from the
  index before its flags are stored, so that nothing removes them later, and the cache
  has the flags of every context that was ever stored.
\<close>

theorem empty_cache_keeps_all:
  assumes "sound_code C" and "max_cached_contexts p = 0" and "fp_persistence p = Some []"
    and "index_key \<notin> snd ` set stores"
  shows "\<exists>store. fp_persistence (store_all C stores p) = Some store \<and> fst ` set store - {index_key} = snd ` set stores"
proof -
  have "GetIndex C p = Returned []" using assms(3) by (simp add: GetIndex_def Persistence_Read_def)
  then show ?thesis using unindexed_kept [OF assms(1,2,3) _ assms(4)] by simp
qed

text \<open>
  Texts for the witnesses: the number of a JSON value in unary.
\<close>

instance double :: countable by countable_datatype
instance json :: countable by countable_datatype

definition sample_code :: cache_code where
  "sample_code =
     \<lparr>cache_wire = \<lparr>wire_numbers = sample_numbers, json_parse = (\<lambda>s. Some (from_nat (length s))), iequals = (=)\<rparr>,
      serialize = (\<lambda>j. replicate (to_nat j) (CHR ''1'')), PersistenceEncodeKey = id,
      std_sort = sort_key (\<lambda>e. - entry_timestamp e)\<rparr>"

lemma sample_code_sound: "sound_code sample_code"
proof -
  have "sorted (map (\<lambda>e. - entry_timestamp e) (sort_key (\<lambda>e. - entry_timestamp e) es))" for es :: "IndexEntry list"
    by (rule sorted_sort_key)
  then show ?thesis
    by (simp add: sound_code_def sample_code_def unsigned_exact_def sample_numbers_def sorted_map)
qed

definition sample_cache :: "nat \<Rightarrow> FlagPersistence" where
  "sample_cache n = \<lparr>fp_updater = sample_updater, fp_persistence = Some [], max_cached_contexts = n\<rparr>"

theorem cache_bounded_witness:
  "\<exists>store. fp_persistence (store_all sample_code [(1, ''a''), (2, ''b''), (3, ''c'')] (sample_cache 2)) = Some store \<and>
     card (fst ` set store - {index_key}) \<le> 2 \<and>
     Persistence_Read ''c'' store = Some (serialize sample_code (client_flags_json (fu_store sample_updater)))"
proof -
  have n: "1 \<le> max_cached_contexts (sample_cache 2)" "fp_persistence (sample_cache 2) = Some []"
    by (simp_all add: sample_cache_def)
  have times: "sorted_wrt (<) (map fst [(1 :: int, ''a''), (2, ''b''), (3, ''c'')])"
      "\<forall>m \<in> set [(1 :: int, ''a''), (2, ''b''), (3, ''c'')]. 0 < fst m \<and> fst m < 2 ^ 63 \<and> snd m \<noteq> index_key"
    by (simp_all add: index_key_def)
  show ?thesis using cache_bounded [OF sample_code_sound n times] by (simp add: sample_cache_def)
qed

theorem empty_cache_keeps_all_witness:
  "\<exists>store. fp_persistence (store_all sample_code [(1, ''a''), (2, ''b''), (3, ''c'')] (sample_cache 0)) = Some store \<and>
     fst ` set store - {index_key} = {''a'', ''b'', ''c''}"
proof -
  have n: "max_cached_contexts (sample_cache 0) = 0" "fp_persistence (sample_cache 0) = Some []"
    by (simp_all add: sample_cache_def)
  have ids: "index_key \<notin> snd ` set [(1 :: int, ''a''), (2, ''b''), (3, ''c'')]" by (simp add: index_key_def)
  show ?thesis using empty_cache_keeps_all [OF sample_code_sound n ids] by simp
qed

end
