(* ===== verification/Streaming_Synchronizer.thy ===== *)
theory Streaming_Synchronizer
  imports FDv2_Protocol
begin

text \<open>
  The streaming synchronizer of \<^verbatim>\<open>libs/server-sdk/src/data_systems/fdv2/streaming_synchronizer.cpp\<close>:
  how events and errors of the SSE client become results, and how results reach the calls
  of \<open>Next\<close>. The promise of a waiting call is the flag \<open>pending_promise\<close>; the results it was
  resolved with and those that \<open>Next\<close> returned at once are \<open>delivered\<close>, in order, and every
  result that the synchronizer produced is in \<open>notified\<close>. Restarts of the SSE client are
  recorded with their reason. Building the URL and the client is Boost and SSE client
  code, so whether it succeeds is an argument.
\<close>

section \<open>Errors of the SSE client\<close>

datatype SseError =
    InvalidRedirectLocation string
  | NotRedirectable
  | ReadTimeout "int option"
  | UnrecoverableClientError u64

text \<open>
  Printing an absent timeout dereferences an empty optional; what that prints is the
  parameter \<open>ub\<close>.
\<close>

fun ErrorToString :: "string \<Rightarrow> SseError \<Rightarrow> string" where
  "ErrorToString ub (InvalidRedirectLocation location) =
     ''received invalid redirect from server, cannot follow ('' @ location @ '') - giving up permanently''"
| "ErrorToString ub NotRedirectable =
     ''received malformed redirect from server, cannot follow - giving up permanently''"
| "ErrorToString ub (ReadTimeout timeout) =
     ''timed out reading response body (exceeded '' @ (case timeout of Some ms \<Rightarrow> int_str ms | None \<Rightarrow> ub) @
     ''ms) - will retry''"
| "ErrorToString ub (UnrecoverableClientError status) =
     ''received HTTP error '' @ nat_str (unat status) @
     (if status = 401 \<or> status = 403 then '' (invalid auth key)'' else []) @
     '' for streaming connection - giving up permanently''"

fun IsRecoverable :: "SseError \<Rightarrow> bool" where
  "IsRecoverable (ReadTimeout _) = True"
| "IsRecoverable _ = False"

section \<open>The synchronizer\<close>

record Streaming =
  protocol_handler :: Handler
  started :: bool
  shut :: bool
  latest_fdv1_fallback :: "int option"
  latest_selector :: Selector
  sse_client :: bool
  pending_promise :: bool
  result_queue :: "FDv2SourceResult list"
  close_promise :: bool
  delivered :: "FDv2SourceResult list"
  notified :: "FDv2SourceResult list"
  shutdowns :: nat
  restarts :: "string list"

definition Streaming_new :: Streaming where
  "Streaming_new =
     \<lparr>protocol_handler = Handler_new, started = False, shut = False, latest_fdv1_fallback = None,
      latest_selector = None, sse_client = False, pending_promise = False, result_queue = [],
      close_promise = False, delivered = [], notified = [], shutdowns = 0, restarts = []\<rparr>"

definition Notify :: "FDv2SourceResult \<Rightarrow> Streaming \<Rightarrow> Streaming" where
  "Notify result s =
     (let result = (if fdv1_fallback result = None
                    then result\<lparr>fdv1_fallback := latest_fdv1_fallback s\<rparr> else result);
          s = s\<lparr>notified := notified s @ [result]\<rparr>
      in if pending_promise s
         then s\<lparr>pending_promise := False, delivered := delivered s @ [result]\<rparr>
         else s\<lparr>result_queue := result_queue s @ [result]\<rparr>)"

definition EnsureStarted :: "int \<Rightarrow> bool \<Rightarrow> bool \<Rightarrow> Selector \<Rightarrow> Streaming \<Rightarrow> Streaming" where
  "EnsureStarted now url_ok client_ok selector s =
     (let s = s\<lparr>latest_selector := selector\<rparr> in
      if shut s \<or> started s then s
      else
        let s = s\<lparr>started := True\<rparr> in
        if \<not> url_ok then
          Notify (plain_result (SrcTerminalError
            (MakeError now ekNetworkError 0 ''could not parse streaming endpoint URL''))) s
        else if \<not> client_ok then
          Notify (plain_result (SrcTerminalError
            (MakeError now ekNetworkError 0 ''could not build SSE client''))) s
        else if shut s then s
        else s\<lparr>sse_client := True\<rparr>)"

definition async_restart :: "string \<Rightarrow> Streaming \<Rightarrow> Streaming" where
  "async_restart reason s = (if sse_client s then s\<lparr>restarts := restarts s @ [reason]\<rparr> else s)"

text \<open>
  \<^verbatim>\<open>OnResponse\<close> reads the directive from the headers of every response, and forgets the
  previous one; its arguments are the values of the two headers.
\<close>

definition OnResponse :: "wire \<Rightarrow> string option \<Rightarrow> string option \<Rightarrow> Streaming \<Rightarrow> Streaming" where
  "OnResponse W fallback ttl s = s\<lparr>latest_fdv1_fallback := fallback_directive W fallback ttl\<rparr>"

definition OnEvent :: "wire \<Rightarrow> int \<Rightarrow> string \<Rightarrow> string \<Rightarrow> Streaming \<Rightarrow> Streaming" where
  "OnEvent W now event_type data s =
     (if \<not> IsKnownEvent event_type then s
      else case json_parse W data of
        None \<Rightarrow>
          (let s = s\<lparr>protocol_handler := Reset_handler (protocol_handler s)\<rparr>;
               s = Notify (plain_result (SrcInterrupted
                     (MakeError now ekInvalidData 0 ''could not parse FDv2 streaming event payload''))) s
           in async_restart ''FDv2 parse error'' s)
      | Some j \<Rightarrow>
          (case HandleEvent (wire_numbers W) event_type j (protocol_handler s) of (result, h) \<Rightarrow>
             let s = s\<lparr>protocol_handler := h\<rparr> in
             (case result of
                HrNothing \<Rightarrow> s
              | HrChangeSet r \<Rightarrow>
                  (case TranslateChangeSet (wire_numbers W) r of
                     None \<Rightarrow> Notify (plain_result (SrcInterrupted
                       (MakeError now ekInvalidData 0 ''FDv2 streaming changeset could not be translated''))) s
                   | Some typed \<Rightarrow> Notify (plain_result (SrcChangeSet typed)) s)
              | HrGoodbye r \<Rightarrow>
                  (let s = Notify (goodbye_result r) s;
                       s = s\<lparr>protocol_handler := Reset_handler (protocol_handler s)\<rparr>
                   in async_restart ''FDv2 goodbye received'' s)
              | HrError r \<Rightarrow>
                  if err_kind r = kServerError
                  then Notify (plain_result (SrcInterrupted
                         (MakeError now ekErrorResponse 0 (server_error_message r)))) s
                  else async_restart ''FDv2 protocol error''
                         (Notify (plain_result (SrcInterrupted (MakeError now ekInvalidData 0 (err_message r)))) s))))"

definition OnError :: "string \<Rightarrow> int \<Rightarrow> SseError \<Rightarrow> Streaming \<Rightarrow> Streaming" where
  "OnError ub now error s =
     (let s = s\<lparr>protocol_handler := Reset_handler (protocol_handler s)\<rparr>;
          msg = ErrorToString ub error
      in if IsRecoverable error then
           Notify (plain_result (SrcInterrupted (MakeError now ekNetworkError 0 msg))) s
         else case error of
           UnrecoverableClientError status \<Rightarrow>
             Notify (plain_result (SrcTerminalError (MakeError now ekErrorResponse status msg))) s
         | _ \<Rightarrow> Notify (plain_result (SrcTerminalError (MakeError now ekNetworkError 0 msg))) s)"

definition State_Next :: "int \<Rightarrow> bool \<Rightarrow> bool \<Rightarrow> Selector \<Rightarrow> Streaming \<Rightarrow> Streaming" where
  "State_Next now url_ok client_ok selector s =
     (let s = EnsureStarted now url_ok client_ok selector s in
      case result_queue s of
        result # queue \<Rightarrow> s\<lparr>result_queue := queue, delivered := delivered s @ [result]\<rparr>
      | [] \<Rightarrow> s\<lparr>pending_promise := True\<rparr>)"

definition ClearPendingPromise :: "Streaming \<Rightarrow> Streaming" where
  "ClearPendingPromise s = s\<lparr>pending_promise := False\<rparr>"

definition Shutdown :: "Streaming \<Rightarrow> Streaming" where
  "Shutdown s = s\<lparr>shut := True, sse_client := False\<rparr>"

text \<open>
  The public operations. \<^verbatim>\<open>Next\<close> of a closed synchronizer returns a shutdown at once. A
  waiting call sees the close promise first: its continuation runs inline when \<^verbatim>\<open>Close\<close>
  resolves it.
\<close>

definition Next :: "int \<Rightarrow> bool \<Rightarrow> bool \<Rightarrow> Selector \<Rightarrow> Streaming \<Rightarrow> Streaming" where
  "Next now url_ok client_ok selector s =
     (if close_promise s then s\<lparr>shutdowns := Suc (shutdowns s)\<rparr>
      else State_Next now url_ok client_ok selector s)"

definition Close :: "Streaming \<Rightarrow> Streaming" where
  "Close s =
     (if close_promise s then s
      else
        let s = s\<lparr>close_promise := True\<rparr>;
            s = (if pending_promise s
                 then (ClearPendingPromise s)\<lparr>shutdowns := Suc (shutdowns s)\<rparr> else s)
        in Shutdown s)"

datatype stream_op =
    OpNext int bool bool Selector
  | OpHeaders "string option" "string option"
  | OpEvent int string string
  | OpError int SseError
  | OpClose

fun stream_step :: "wire \<Rightarrow> string \<Rightarrow> stream_op \<Rightarrow> Streaming \<Rightarrow> Streaming" where
  "stream_step W ub (OpNext now url_ok client_ok selector) s = Next now url_ok client_ok selector s"
| "stream_step W ub (OpHeaders fallback ttl) s = OnResponse W fallback ttl s"
| "stream_step W ub (OpEvent now event_type data) s = OnEvent W now event_type data s"
| "stream_step W ub (OpError now error) s = OnError ub now error s"
| "stream_step W ub OpClose s = Close s"

section \<open>Results are delivered in order\<close>

definition queue_ok :: "Streaming \<Rightarrow> bool" where
  "queue_ok s \<longleftrightarrow> delivered s @ result_queue s = notified s \<and> (pending_promise s \<longrightarrow> result_queue s = [])"

lemma queue_ok_Notify [inv_intros]: "queue_ok s \<Longrightarrow> queue_ok (Notify r s)"
  by (auto simp: queue_ok_def Notify_def Let_def)

lemma queue_ok_update [simp]:
  "queue_ok (s\<lparr>protocol_handler := h\<rparr>) = queue_ok s"
  "queue_ok (s\<lparr>latest_fdv1_fallback := f\<rparr>) = queue_ok s"
  "queue_ok (async_restart reason s) = queue_ok s"
  "queue_ok (Shutdown s) = queue_ok s"
  by (simp_all add: queue_ok_def async_restart_def Shutdown_def)

lemma queue_ok_EnsureStarted [inv_intros]:
  "queue_ok s \<Longrightarrow> queue_ok (EnsureStarted now url_ok client_ok selector s)"
  by (auto simp: EnsureStarted_def Let_def intro!: queue_ok_Notify) (auto simp: queue_ok_def)

lemma queue_ok_Next [inv_intros]: "queue_ok s \<Longrightarrow> queue_ok (Next now url_ok client_ok selector s)"
  using queue_ok_EnsureStarted [of s now url_ok client_ok selector]
  by (auto simp: Next_def State_Next_def Let_def split: list.splits) (auto simp: queue_ok_def)

lemma queue_ok_OnEvent [inv_intros]: "queue_ok s \<Longrightarrow> queue_ok (OnEvent W now event_type data s)"
  by (auto simp: OnEvent_def Let_def intro!: queue_ok_Notify split: option.splits prod.splits HandlerResult.splits)

lemma queue_ok_OnError [inv_intros]: "queue_ok s \<Longrightarrow> queue_ok (OnError ub now error s)"
  by (auto simp: OnError_def Let_def intro!: queue_ok_Notify split: SseError.splits)

lemma queue_ok_Close [inv_intros]: "queue_ok s \<Longrightarrow> queue_ok (Close s)"
  by (auto simp: Close_def ClearPendingPromise_def Let_def) (auto simp: queue_ok_def)

lemma queue_ok_step: "queue_ok s \<Longrightarrow> queue_ok (stream_step W ub op s)"
  by (cases op) (auto simp: OnResponse_def intro: inv_intros)

lemma queue_ok_run: "queue_ok s \<Longrightarrow> queue_ok (fold (stream_step W ub) ops s)"
  by (induction ops arbitrary: s) (auto intro: queue_ok_step)

text \<open>
  C13. Whatever happens to the synchronizer, the calls of \<open>Next\<close> get the results in the
  order in which they were produced, none of them twice and none left out: what was
  delivered followed by what waits in the queue is what was produced, and a call waits only
  while nothing does.
\<close>

theorem streaming_results_in_order:
  "let s = fold (stream_step W ub) ops Streaming_new in
   delivered s @ result_queue s = notified s \<and> \<not> (pending_promise s \<and> result_queue s \<noteq> [])"
proof -
  have "queue_ok Streaming_new" by (simp add: queue_ok_def Streaming_new_def)
  then show ?thesis using queue_ok_run [of Streaming_new W ub ops] by (simp add: Let_def queue_ok_def)
qed

section \<open>A transfer that cannot be translated\<close>

text \<open>Put and delete events, each with the time at which it arrives, and the changes they announce.\<close>

type_synonym arrival = "int \<times> string \<times> string"

definition change_ops :: "arrival list \<Rightarrow> stream_op list" where
  "change_ops es = map (\<lambda>(now, event_type, data). OpEvent now event_type data) es"

fun read_changes :: "wire \<Rightarrow> arrival list \<Rightarrow> FDv2Change list option" where
  "read_changes W [] = Some []"
| "read_changes W ((now, event_type, data) # es) =
     (case Option.bind (json_parse W data) (\<lambda>j. change_of (wire_numbers W) (event_type, j)) of
        None \<Rightarrow> None
      | Some c \<Rightarrow> map_option (Cons c) (read_changes W es))"

lemma OnEvent_change:
  assumes "json_parse W data = Some j" and "change_of (wire_numbers W) (event_type, j) = Some c"
  shows "OnEvent W now event_type data s =
    s\<lparr>protocol_handler := (protocol_handler s)\<lparr>h_changes := h_changes (protocol_handler s) @ [c]\<rparr>\<rparr>"
proof -
  have "is_change_event (event_type, j)"
    using assms(2) by (auto simp: change_of_def is_change_event_def split: if_splits)
  then have "HandleEvent (wire_numbers W) event_type j (protocol_handler s) =
      (HrNothing, (protocol_handler s)\<lparr>h_changes := h_changes (protocol_handler s) @ [c]\<rparr>)"
    using handle_change [of event_type j "wire_numbers W" "protocol_handler s"] assms(2) by simp
  moreover have "IsKnownEvent event_type"
    using \<open>is_change_event (event_type, j)\<close> by (auto simp: is_change_event_def IsKnownEvent_def)
  ultimately show ?thesis using assms(1) by (simp add: OnEvent_def)
qed

lemma changes_collected:
  "read_changes W es = Some cs \<Longrightarrow> fold (stream_step W ub) (change_ops es) s =
     s\<lparr>protocol_handler := (protocol_handler s)\<lparr>h_changes := h_changes (protocol_handler s) @ cs\<rparr>\<rparr>"
proof (induction W es arbitrary: s cs rule: read_changes.induct)
  case (2 W now event_type data es)
  then obtain j c cs' where "json_parse W data = Some j" "change_of (wire_numbers W) (event_type, j) = Some c"
    "read_changes W es = Some cs'" "cs = c # cs'"
    by (auto simp: bind_eq_Some_conv split: option.splits)
  then show ?case using 2 by (simp add: change_ops_def OnEvent_change)
qed (simp add: change_ops_def)

definition transfer_result :: "wire \<Rightarrow> int \<Rightarrow> ChangeSetType \<Rightarrow> PayloadTransferred \<Rightarrow> FDv2Change list \<Rightarrow> SourceValue" where
  "transfer_result W now type t cs =
     (case translate_changes (wire_numbers W) cs [] of
        None \<Rightarrow> SrcInterrupted (MakeError now ekInvalidData 0 ''FDv2 streaming changeset could not be translated'')
      | Some changes \<Rightarrow> SrcChangeSet \<lparr>cs_type = type, cs_data = changes,
          cs_selector = Some \<lparr>sel_version = transferred_version t, sel_state = transferred_state t\<rparr>\<rparr>)"

lemma OnEvent_transferred:
  assumes "json_parse W data = Some j" and "parse_PayloadTransferred (wire_numbers W) j = Inr (Some t)"
    and "h_state (protocol_handler s) \<noteq> kInactive"
  shows "OnEvent W now ''payload-transferred'' data s =
    Notify (plain_result (transfer_result W now (if h_state (protocol_handler s) = kPartialTransfer then kPartial else kFull) t
      (h_changes (protocol_handler s)))) (s\<lparr>protocol_handler := \<lparr>h_state = kPartialTransfer, h_changes = []\<rparr>\<rparr>)"
  using assms by (cases "protocol_handler s")
    (simp add: OnEvent_def IsKnownEvent_def handle_transferred HandlePayloadTransferred_def TranslateChangeSet_def
      transfer_result_def split: option.splits)

lemma Notify_fields [simp]:
  "notified (Notify r s) = notified s @
     [if fdv1_fallback r = None then r\<lparr>fdv1_fallback := latest_fdv1_fallback s\<rparr> else r]"
  "protocol_handler (Notify r s) = protocol_handler s" "restarts (Notify r s) = restarts s"
  "sse_client (Notify r s) = sse_client s" "latest_fdv1_fallback (Notify r s) = latest_fdv1_fallback s"
  by (simp_all add: Notify_def Let_def)

lemma transfer_ends:
  assumes "read_changes W es = Some cs" and "json_parse W data = Some j"
    and "parse_PayloadTransferred (wire_numbers W) j = Inr (Some t)" and "h_state (protocol_handler s) \<noteq> kInactive"
    and "s' = fold (stream_step W ub) (change_ops es @ [OpEvent now ''payload-transferred'' data]) s"
  shows "notified s' = notified s @ [\<lparr>src_value =
        transfer_result W now (if h_state (protocol_handler s) = kPartialTransfer then kPartial else kFull) t
          (h_changes (protocol_handler s) @ cs), fdv1_fallback = latest_fdv1_fallback s\<rparr>]"
    and "protocol_handler s' = \<lparr>h_state = kPartialTransfer, h_changes = []\<rparr>"
    and "restarts s' = restarts s" and "sse_client s' = sse_client s"
    and "latest_fdv1_fallback s' = latest_fdv1_fallback s"
  using assms(2-4) unfolding assms(5)
  by (simp_all add: changes_collected [OF assms(1)] OnEvent_transferred)

text \<open>
  C32. When a change of a transfer cannot be translated, the transfer is dropped but the
  connection goes on. Let a synchronizer, after any operations, be in a transfer, full or partial,
  of which it may have collected changes, and let further puts and deletes and the end of the
  transfer arrive, each readable, such that the collected changes do not translate. Then puts and
  deletes that do translate and another end of transfer, without a new intent, make it report
  exactly two results, in this order: an interruption, and a partial change set with the changes
  and the selector of the second transfer alone. The stream is not restarted, and both results
  carry the fallback directive of the last response. So the changes of the dropped
  transfer, even of a full one, are in no change set.
\<close>

theorem untranslated_transfer_skipped:
  assumes "s = fold (stream_step W ub) ops Streaming_new" and "h_state (protocol_handler s) \<noteq> kInactive"
    and "read_changes W es1 = Some cs1"
    and "translate_changes (wire_numbers W) (h_changes (protocol_handler s) @ cs1) [] = None"
    and "json_parse W end1 = Some j1" and "parse_PayloadTransferred (wire_numbers W) j1 = Inr (Some t1)"
    and "read_changes W es2 = Some cs2" and "translate_changes (wire_numbers W) cs2 [] = Some changes"
    and "json_parse W end2 = Some j2" and "parse_PayloadTransferred (wire_numbers W) j2 = Inr (Some t2)"
    and "s' = fold (stream_step W ub)
      (change_ops es1 @ [OpEvent now1 ''payload-transferred'' end1] @
       change_ops es2 @ [OpEvent now2 ''payload-transferred'' end2]) s"
  shows "delivered s' @ result_queue s' = delivered s @ result_queue s @
      [\<lparr>src_value = SrcInterrupted (MakeError now1 ekInvalidData 0 ''FDv2 streaming changeset could not be translated''),
        fdv1_fallback = latest_fdv1_fallback s\<rparr>,
       \<lparr>src_value = SrcChangeSet \<lparr>cs_type = kPartial, cs_data = changes,
          cs_selector = Some \<lparr>sel_version = transferred_version t2, sel_state = transferred_state t2\<rparr>\<rparr>,
        fdv1_fallback = latest_fdv1_fallback s\<rparr>] \<and>
    restarts s' = restarts s \<and> sse_client s' = sse_client s"
proof -
  define s1 where "s1 = fold (stream_step W ub) (change_ops es1 @ [OpEvent now1 ''payload-transferred'' end1]) s"
  note first = transfer_ends [OF assms(3,5,6,2) s1_def]
  have active: "h_state (protocol_handler s1) \<noteq> kInactive" by (simp add: first(2))
  have "s' = fold (stream_step W ub) (change_ops es2 @ [OpEvent now2 ''payload-transferred'' end2]) s1"
    by (simp add: assms(11) s1_def)
  note second = transfer_ends [OF assms(7,9,10) active this]
  have "queue_ok Streaming_new" by (simp add: queue_ok_def Streaming_new_def)
  then have ok: "queue_ok s" "queue_ok s'" unfolding assms(11) unfolding assms(1) by (simp_all only: queue_ok_run)
  then show ?thesis
    using first second assms(4,8) unfolding queue_ok_def by (simp add: transfer_result_def)
qed

definition sample_wire :: wire where
  "sample_wire =
     \<lparr>wire_numbers = sample_numbers,
      json_parse = (\<lambda>s. if s = ''end'' then Some sample_transferred
        else if s = ''intent'' then Some sample_intent
        else if s = ''put'' then Some (JObject [(''version'', JInt64 4), (''kind'', JString ''flag''), (''key'', JString ''f''),
          (''object'', parsed_form (Flag_json sample_json_flag))])
        else if s = ''bad'' then Some (JObject [(''version'', JInt64 4), (''kind'', JString ''flag''), (''key'', JString ''f''),
          (''object'', JBool True)])
        else None),
      iequals = (=)\<rparr>"

definition sample_change :: "json \<Rightarrow> FDv2Change" where
  "sample_change j = \<lparr>fc_type = kPut, fc_kind = ''flag'', fc_key = ''f'', fc_version = 4, fc_object = j\<rparr>"

definition sample_streaming :: Streaming where
  "sample_streaming = fold (stream_step sample_wire []) [OpEvent 0 ''server-intent'' ''intent''] Streaming_new"

lemma sample_streaming_state:
  "protocol_handler sample_streaming = \<lparr>h_state = kFullTransfer, h_changes = []\<rparr>"
  "delivered sample_streaming = []" "result_queue sample_streaming = []" "latest_fdv1_fallback sample_streaming = None"
  "restarts sample_streaming = []"
  using handle_intent [OF sample_intent_opens]
  by (simp_all add: sample_streaming_def OnEvent_def IsKnownEvent_def sample_wire_def Streaming_new_def)

lemma sample_read:
  "read_changes sample_wire [(1, ''put-object'', ''bad'')] = Some [sample_change (JBool True)]"
  "read_changes sample_wire [(3, ''put-object'', ''put'')] = Some [sample_change (parsed_form (Flag_json sample_json_flag))]"
  by (simp_all add: sample_wire_def change_of_def parse_PutObject_def PARSE_REQUIRED_FIELD_def sample_change_def
      sample_numbers_exact)

theorem untranslated_transfer_skipped_witness:
  "\<exists>s'. s' = fold (stream_step sample_wire [])
      [OpEvent 1 ''put-object'' ''bad'', OpEvent 2 ''payload-transferred'' ''end'',
       OpEvent 3 ''put-object'' ''put'', OpEvent 4 ''payload-transferred'' ''end''] sample_streaming \<and>
    restarts s' = [] \<and>
    delivered s' @ result_queue s' =
      [plain_result (SrcInterrupted (MakeError 2 ekInvalidData 0 ''FDv2 streaming changeset could not be translated'')),
       plain_result (SrcChangeSet \<lparr>cs_type = kPartial,
         cs_data = [\<lparr>change_key = ''f'', change_object = FlagObject (FlagDescriptor_of sample_json_flag)\<rparr>],
         cs_selector = Some \<lparr>sel_version = 3, sel_state = ''s3''\<rparr>\<rparr>)]"
proof -
  have wire: "wire_numbers sample_wire = sample_numbers" "json_parse sample_wire ''end'' = Some sample_transferred"
    by (simp_all add: sample_wire_def)
  have active: "h_state (protocol_handler sample_streaming) \<noteq> kInactive" by (simp add: sample_streaming_state)
  have bad: "translate_changes (wire_numbers sample_wire) (h_changes (protocol_handler sample_streaming) @ [sample_change (JBool True)]) [] = None"
    by (simp add: wire sample_streaming_state translate_change_def TranslatePut_def sample_change_def parse_Flag_def)
  have good: "translate_changes (wire_numbers sample_wire) [sample_change (parsed_form (Flag_json sample_json_flag))] [] =
      Some [\<lparr>change_key = ''f'', change_object = FlagObject (FlagDescriptor_of sample_json_flag)\<rparr>]"
    by (simp add: wire translate_change_def TranslatePut_def sample_change_def sample_parsed)
  note transferred = sample_transferred_read [folded wire(1)]
  show ?thesis
    using untranslated_transfer_skipped [OF sample_streaming_def active sample_read(1) bad wire(2) transferred
        sample_read(2) good wire(2) transferred refl, of 2 4]
    by (simp add: change_ops_def sample_streaming_state del: fold.simps stream_step.simps)
qed

end
