(* ===== verification/Background_Sync.thy ===== *)
theory Background_Sync
  imports Streaming_Synchronizer Change_Notifier Versioned_Store
begin

text \<open>
  The data sources of background synchronization, under
  \<^verbatim>\<open>libs/server-sdk/src/data_systems/background_sync/sources/\<close>: the handler of stream messages
  (\<^verbatim>\<open>streaming/event_handler.cpp\<close>), the streaming source that feeds it
  (\<^verbatim>\<open>streaming/streaming_data_source.cpp\<close>) and the polling source
  (\<^verbatim>\<open>polling/polling_data_source.cpp\<close>). The destination is the change notifier over the memory
  store. Whether the configured URL can be used, which Boost decides, is an argument. The
  lemmas show that the newest version of each flag wins whatever the order of the messages,
  what a message that cannot be read does, and when polling goes on.
\<close>

section \<open>Paths\<close>

definition FlagsPath :: string where "FlagsPath = ''/flags/''"
definition SegmentsPath :: string where "SegmentsPath = ''/segments/''"

text \<open>\<^verbatim>\<open>std::string::rfind\<close>: where the last occurrence starts.\<close>

definition rfind :: "string \<Rightarrow> string \<Rightarrow> nat option" where
  "rfind p s =
     (case filter (\<lambda>i. take (length p) (drop i s) = p) [0..<Suc (length s)] of
        [] \<Rightarrow> None
      | starts \<Rightarrow> Some (last starts))"

definition IsKind :: "string \<Rightarrow> string \<Rightarrow> bool" where
  "IsKind kind_path patch_path \<longleftrightarrow> rfind kind_path patch_path = Some 0"

definition StreamingDataKind_Key :: "string \<Rightarrow> string \<Rightarrow> string" where
  "StreamingDataKind_Key kind_path patch_path = drop (length kind_path) patch_path"

definition StreamingDataKinds_Kind :: "string \<Rightarrow> DataKind option" where
  "StreamingDataKinds_Kind path =
     (if IsKind FlagsPath path then Some kFlag
      else if IsKind SegmentsPath path then Some kSegment else None)"

definition StreamingDataKinds_Key :: "string \<Rightarrow> string option" where
  "StreamingDataKinds_Key path =
     (if IsKind FlagsPath path then Some (StreamingDataKind_Key FlagsPath path)
      else if IsKind SegmentsPath path then Some (StreamingDataKind_Key SegmentsPath path) else None)"

section \<open>The messages\<close>

record Patch =
  patch_key :: string
  patch_data :: ItemObject

record Delete =
  delete_key :: string
  delete_kind :: DataKind
  delete_version :: u64

definition Patch_item :: "'a parser \<Rightarrow> ('a \<Rightarrow> ItemObject) \<Rightarrow> string \<Rightarrow> string \<Rightarrow> json_object \<Rightarrow> JsonError + Patch" where
  "Patch_item p descriptor kind_path path obj =
     (case map_of obj ''data'' of
        None \<Rightarrow> Inl kSchemaFailure
      | Some j \<Rightarrow>
          (case p j of
             Inr (Some x) \<Rightarrow>
               Inr \<lparr>patch_key = StreamingDataKind_Key kind_path path, patch_data = descriptor x\<rparr>
           | _ \<Rightarrow> Inl kSchemaFailure))"

fun parse_Put :: "numbers \<Rightarrow> json \<Rightarrow> JsonError + SDKDataSet option" where
  "parse_Put N (JObject obj) =
     res_bind (PARSE_FIELD_DEFAULT parse_string obj ''path'' []) (\<lambda>path.
       if \<not> (path = ''/'' \<or> path = []) then Inr None
       else res_bind (PARSE_FIELD_DEFAULT (parse_SDKDataSet N) obj ''data'' \<lparr>ds_flags = [], ds_segments = []\<rparr>)
         (\<lambda>put_data. Inr (Some put_data)))"
| "parse_Put N _ = Inl kSchemaFailure"

fun parse_Patch :: "numbers \<Rightarrow> json \<Rightarrow> JsonError + Patch option" where
  "parse_Patch N (JObject obj) =
     res_bind (PARSE_FIELD_DEFAULT parse_string obj ''path'' []) (\<lambda>path.
       if IsKind FlagsPath path then
         map_sum id Some (Patch_item (parse_Flag N) (FlagObject \<circ> FlagDescriptor_of) FlagsPath path obj)
       else if IsKind SegmentsPath path then
         map_sum id Some (Patch_item (parse_Segment N) (SegmentObject \<circ> SegmentDescriptor_of) SegmentsPath path obj)
       else Inr None)"
| "parse_Patch N _ = Inl kSchemaFailure"

fun parse_Delete :: "numbers \<Rightarrow> json \<Rightarrow> JsonError + Delete" where
  "parse_Delete N (JObject obj) =
     res_bind (PARSE_REQUIRED_FIELD (parse_uint64 N) obj ''version'') (\<lambda>version.
     res_bind (PARSE_REQUIRED_FIELD parse_string obj ''path'') (\<lambda>path.
       case (StreamingDataKinds_Kind path, StreamingDataKinds_Key path) of
         (Some kind, Some key) \<Rightarrow> Inr \<lparr>delete_key = key, delete_kind = kind, delete_version = version\<rparr>
       | _ \<Rightarrow> Inl kSchemaFailure))"
| "parse_Delete N _ = Inl kSchemaFailure"

section \<open>The handler\<close>

datatype MessageStatus = kMessageHandled | kInvalidMessage | kUnhandledVerb

record StreamHandler =
  sh_handler :: ChangeNotifier
  sh_status_manager :: StatusManager

definition kErrorParsingPut :: string where "kErrorParsingPut = ''Could not parse PUT message''"
definition kErrorPutInvalid :: string where "kErrorPutInvalid = ''PUT message contained invalid data''"
definition kErrorParsingPatch :: string where "kErrorParsingPatch = ''Could not parse PATCH message''"
definition kErrorPatchInvalid :: string where "kErrorPatchInvalid = ''PATCH message contained invalid data''"
definition kErrorParsingDelete :: string where "kErrorParsingDelete = ''Could not parse DELETE message''"
definition kErrorDeleteInvalid :: string where
  "kErrorDeleteInvalid = ''DELETE message contained invalid data'' @ [CHR 0x22]"

definition sh_SetError :: "int \<Rightarrow> string \<Rightarrow> StreamHandler \<Rightarrow> StreamHandler" where
  "sh_SetError now message h = h\<lparr>sh_status_manager := SetError_kind now ekInvalidData message (sh_status_manager h)\<rparr>"

definition sh_Upsert :: "string \<Rightarrow> ItemObject \<Rightarrow> StreamHandler \<Rightarrow> StreamHandler" where
  "sh_Upsert key object h =
     (case object of
        FlagObject f \<Rightarrow> h\<lparr>sh_handler := ChangeNotifier_Upsert_flag key f (sh_handler h)\<rparr>
      | SegmentObject s \<Rightarrow> h\<lparr>sh_handler := ChangeNotifier_Upsert_segment key s (sh_handler h)\<rparr>)"

definition HandleMessage :: "wire \<Rightarrow> int \<Rightarrow> string \<Rightarrow> string \<Rightarrow> StreamHandler \<Rightarrow> MessageStatus \<times> StreamHandler" where
  "HandleMessage W now type data h =
     (if type = ''put'' then
        (case json_parse W data of
           None \<Rightarrow> (kInvalidMessage, sh_SetError now kErrorParsingPut h)
         | Some parsed \<Rightarrow>
             (case parse_Put (wire_numbers W) parsed of
                Inl _ \<Rightarrow> (kInvalidMessage, sh_SetError now kErrorPutInvalid h)
              | Inr (Some put_data) \<Rightarrow>
                  (let h = h\<lparr>sh_handler := ChangeNotifier_Init put_data (sh_handler h)\<rparr>;
                       h = h\<lparr>sh_status_manager := SetState now dsValid (sh_status_manager h)\<rparr>
                   in (kMessageHandled, h))
              | Inr None \<Rightarrow> (kMessageHandled, h)))
      else if type = ''patch'' then
        (case json_parse W data of
           None \<Rightarrow> (kInvalidMessage, sh_SetError now kErrorParsingPatch h)
         | Some parsed \<Rightarrow>
             (case parse_Patch (wire_numbers W) parsed of
                Inl _ \<Rightarrow> (kInvalidMessage, sh_SetError now kErrorPatchInvalid h)
              | Inr (Some patch) \<Rightarrow> (kMessageHandled, sh_Upsert (patch_key patch) (patch_data patch) h)
              | Inr None \<Rightarrow> (kMessageHandled, h)))
      else if type = ''delete'' then
        (case json_parse W data of
           None \<Rightarrow> (kInvalidMessage, sh_SetError now kErrorParsingDelete h)
         | Some parsed \<Rightarrow>
             (case parse_Delete (wire_numbers W) parsed of
                Inr del \<Rightarrow>
                  (case delete_kind del of
                     kFlag \<Rightarrow> (kMessageHandled,
                       sh_Upsert (delete_key del) (FlagObject (Tombstone (delete_version del))) h)
                   | kSegment \<Rightarrow> (kMessageHandled,
                       sh_Upsert (delete_key del) (SegmentObject (Tombstone (delete_version del))) h))
              | Inl _ \<Rightarrow> (kInvalidMessage, sh_SetError now kErrorDeleteInvalid h)))
      else (kUnhandledVerb, h))"

section \<open>The streaming source\<close>

record StreamingSource =
  event_handler :: StreamHandler
  src_client :: bool
  src_restarts :: "string list"

definition kCouldNotParseEndpoint :: "string \<Rightarrow> string" where
  "kCouldNotParseEndpoint source = ''Could not parse '' @ source @ '' endpoint URL''"

definition src_status :: "(StatusManager \<Rightarrow> StatusManager) \<Rightarrow> StreamingSource \<Rightarrow> StreamingSource" where
  "src_status f s =
     s\<lparr>event_handler := (event_handler s)\<lparr>sh_status_manager := f (sh_status_manager (event_handler s))\<rparr>\<rparr>"

definition Streaming_StartAsync :: "bool \<Rightarrow> int \<Rightarrow> StreamingSource \<Rightarrow> StreamingSource" where
  "Streaming_StartAsync url_ok now s =
     (let s = src_status (SetState now dsInitializing) s
      in if \<not> url_ok then
           src_status (SetState_kind now dsOff ekNetworkError (kCouldNotParseEndpoint ''streaming'')) s
         else s\<lparr>src_client := True\<rparr>)"

text \<open>The callback of the SSE client for an event.\<close>

definition Streaming_receive :: "wire \<Rightarrow> int \<Rightarrow> string \<times> string \<Rightarrow> StreamingSource \<Rightarrow> StreamingSource" where
  "Streaming_receive W now event s =
     (let (status, h) = HandleMessage W now (fst event) (snd event) (event_handler s);
          s = s\<lparr>event_handler := h\<rparr>
      in if status = kInvalidMessage \<and> src_client s
         then s\<lparr>src_restarts := src_restarts s @ [''invalid data in stream'']\<rparr> else s)"

definition HandleErrorStateChange :: "int \<Rightarrow> SseError \<Rightarrow> string \<Rightarrow> StreamingSource \<Rightarrow> StreamingSource" where
  "HandleErrorStateChange now error error_string s =
     (let state = (if IsRecoverable error then dsInterrupted else dsOff)
      in case error of
           UnrecoverableClientError status \<Rightarrow> src_status (SetState_code now state status error_string) s
         | _ \<Rightarrow> src_status (SetState_kind now state ekNetworkError error_string) s)"

definition Streaming_error :: "string \<Rightarrow> int \<Rightarrow> SseError \<Rightarrow> StreamingSource \<Rightarrow> StreamingSource" where
  "Streaming_error ub now error s = HandleErrorStateChange now error (ErrorToString ub error) s"

definition Streaming_ShutdownAsync :: "int \<Rightarrow> StreamingSource \<Rightarrow> StreamingSource" where
  "Streaming_ShutdownAsync now s =
     (if src_client s then src_status (SetState now dsInitializing) s else s)"

section \<open>The polling source\<close>

text \<open>
  Times are nanoseconds of the system clock. \<open>poll_timer\<close> is the delay of the timer that is
  waited for; a canceled timer calls nothing. \<open>requests_open\<close> counts the requests without a
  result, and \<open>request_headers\<close> are the headers of \<^verbatim>\<open>request_\<close>.
\<close>

record PollingSource =
  poll_status_manager :: StatusManager
  poll_sink :: ChangeNotifier
  polling_interval :: int
  request_valid :: bool
  request_headers :: "(string \<times> string) list"
  poll_etag :: "string option"
  last_poll_start :: int
  poll_timer :: "int option"
  requests_open :: nat


definition DoPoll :: "int \<Rightarrow> PollingSource \<Rightarrow> PollingSource" where
  "DoPoll now s = s\<lparr>last_poll_start := now, requests_open := requests_open s + 1\<rparr>"

text \<open>\<^verbatim>\<open>duration_cast<seconds>\<close> truncates towards zero.\<close>

definition cast_seconds :: "int \<Rightarrow> int" where
  "cast_seconds d = (if d < 0 then - (- d div 1000000000) else d div 1000000000)"

definition StartPollingTimer :: "int \<Rightarrow> PollingSource \<Rightarrow> PollingSource" where
  "StartPollingTimer now s =
     s\<lparr>poll_timer := Some (max (polling_interval s - cast_seconds (now - last_poll_start s)) 0)\<rparr>"

definition poll_set :: "(StatusManager \<Rightarrow> StatusManager) \<Rightarrow> PollingSource \<Rightarrow> PollingSource" where
  "poll_set f s = s\<lparr>poll_status_manager := f (poll_status_manager s)\<rparr>"

definition note_etag :: "string option \<Rightarrow> PollingSource \<Rightarrow> PollingSource" where
  "note_etag etag s =
     (case etag of
        Some e \<Rightarrow> s\<lparr>request_headers := AList.update ''If-None-Match'' e (request_headers s), poll_etag := Some e\<rparr>
      | None \<Rightarrow> s)"

text \<open>The result is the new state and whether the timer is started at the end.\<close>

definition handle_poll_body :: "wire \<Rightarrow> int \<Rightarrow> PollResult \<Rightarrow> PollingSource \<Rightarrow> bool \<times> PollingSource" where
  "handle_poll_body W now res s =
     (if res_error res then
        (True, poll_set (SetState_kind now dsInterrupted ekNetworkError
           (case res_error_message res of Some m \<Rightarrow> m | None \<Rightarrow> ''unknown error'')) s)
      else if res_status res = 200 then
        (case res_body res of
           Some body \<Rightarrow>
             (case json_parse W body of
                None \<Rightarrow> (False, poll_set (SetError_kind now ekInvalidData ''Could not parse polling payload'') s)
              | Some parsed \<Rightarrow>
                  (case parse_or_default \<lparr>ds_flags = [], ds_segments = []\<rparr> (parse_SDKDataSet (wire_numbers W) parsed) of
                     Inr data_set \<Rightarrow>
                       (False, poll_set (SetState now dsValid) (s\<lparr>poll_sink := ChangeNotifier_Init data_set (poll_sink s)\<rparr>))
                   | Inl _ \<Rightarrow>
                       (False, poll_set (SetError_kind now ekInvalidData ''Polling payload contained invalid data'') s)))
         | None \<Rightarrow>
             (True, poll_set (SetState_kind now dsInterrupted ekUnknown ''polling response contained no body.'') s))
      else if res_status res = 304 then (True, s)
      else if IsRecoverableStatus (res_status res) then
        (True, poll_set (SetState_code now dsInterrupted (res_status res)
           (ErrorForStatusCode (res_status res) ''polling request'' (Some ''will retry''))) s)
      else
        (False, poll_set (SetState_code now dsOff (res_status res)
           (ErrorForStatusCode (res_status res) ''polling request'' None)) s))"

definition HandlePollResult :: "wire \<Rightarrow> int \<Rightarrow> PollResult \<Rightarrow> PollingSource \<Rightarrow> PollingSource" where
  "HandlePollResult W now res s =
     (let header_etag = headers_find ''etag'' (res_headers res)
      in if header_etag \<noteq> None \<and> poll_etag s = header_etag then StartPollingTimer now s
         else
           (let (go_on, s) = handle_poll_body W now res (note_etag header_etag s)
            in if go_on then StartPollingTimer now s else s))"


definition Polling_ShutdownAsync :: "int \<Rightarrow> PollingSource \<Rightarrow> PollingSource" where
  "Polling_ShutdownAsync now s = poll_set (SetState now dsInitializing) (s\<lparr>poll_timer := None\<rparr>)"

text \<open>
  What can happen to a started source: the result of an open request comes in, the timer
  expires, or the source is shut down.
\<close>

inductive polling :: "wire \<Rightarrow> PollingSource \<Rightarrow> PollingSource \<Rightarrow> bool" for W where
  poll_result: "0 < requests_open s \<Longrightarrow>
     polling W s (HandlePollResult W now res (s\<lparr>requests_open := requests_open s - 1\<rparr>))"
| poll_timer_expires: "poll_timer s \<noteq> None \<Longrightarrow> polling W s (DoPoll now (s\<lparr>poll_timer := None\<rparr>))"
| poll_shutdown: "polling W s (Polling_ShutdownAsync now s)"


section \<open>Paths of items\<close>

lemma last_match_zero:
  "(\<exists>xs. filter P [0..<Suc n] = xs \<and> xs \<noteq> [] \<and> last xs = 0) \<longleftrightarrow> P 0 \<and> (\<forall>i. 0 < i \<and> i \<le> n \<longrightarrow> \<not> P i)"
proof -
  let ?ys = "filter P [1..<Suc n]"
  have split: "filter P [0..<Suc n] = (if P 0 then 0 # ?ys else ?ys)" by (subst upt_rec) simp
  have "last ?ys \<in> set ?ys" if "?ys \<noteq> []" using that by (rule last_in_set)
  then have pos: "last ?ys \<noteq> 0" if "?ys \<noteq> []" using that by (auto simp del: upt_Suc)
  have "?ys = [] \<longleftrightarrow> (\<forall>i. 0 < i \<and> i \<le> n \<longrightarrow> \<not> P i)"
    by (auto simp: filter_empty_conv le_less_Suc_eq simp del: upt_Suc)
  then show ?thesis unfolding split using pos by (cases "?ys = []") (auto simp del: upt_Suc)
qed

lemma IsKind_iff:
  "IsKind p s \<longleftrightarrow> take (length p) s = p \<and> (\<forall>i. 0 < i \<and> i \<le> length s \<longrightarrow> take (length p) (drop i s) \<noteq> p)"
  using last_match_zero [of "\<lambda>i. take (length p) (drop i s) = p" "length s"]
  by (auto simp: IsKind_def rfind_def simp del: upt_Suc split: list.splits)

text \<open>Items whose key has no slash are recognized.\<close>

lemma IsKind_key:
  assumes "CHR ''/'' \<notin> set key" and "CHR ''/'' \<notin> set name"
  shows "IsKind (CHR ''/'' # name @ ''/'') (CHR ''/'' # name @ CHR ''/'' # key)"
    (is "IsKind ?p ?s")
proof -
  have slash: "j = 0 \<or> j = Suc (length name)" if "?s ! j = CHR ''/''" "j < length ?s" for j
  proof (rule ccontr)
    assume "\<not> ?thesis"
    then consider "0 < j" "j \<le> length name" | "Suc (length name) < j" by linarith
    then have "?s ! j \<in> set name \<union> set key"
    proof cases
      case 1
      then obtain i where "j = Suc i" "i < length name" by (cases j) auto
      then show ?thesis by (simp add: nth_append)
    next
      case 2
      then obtain i where "j = Suc (Suc (length name + i))" by (auto dest: less_imp_Suc_add)
      then show ?thesis using that(2) by (simp add: nth_append)
    qed
    then show False using assms that(1) by auto
  qed
  have False if i: "0 < i" "i \<le> length ?s" and match: "take (length ?p) (drop i ?s) = ?p" for i
  proof -
    have "length (take (length ?p) (drop i ?s)) = length ?p" using match by simp
    then have len: "i + length ?p \<le> length ?s" by simp
    have at: "?s ! (i + j) = ?p ! j" if "j < length ?p" for j
      using arg_cong [OF match, of "\<lambda>xs. xs ! j"] that len by simp
    have "?s ! (i + 0) = CHR ''/''" by (subst at) simp_all
    then have "i = Suc (length name)" using slash [of i] i len by simp
    moreover have "?s ! (i + Suc (length name)) = CHR ''/''" by (subst at) (simp_all add: nth_append)
    then have "i + Suc (length name) = Suc (length name)" using slash [of "i + Suc (length name)"] i len by auto
    ultimately show False using i by simp
  qed
  then show ?thesis by (auto simp: IsKind_iff)
qed

lemma flag_path [simp]:
  "CHR ''/'' \<notin> set key \<Longrightarrow> IsKind FlagsPath (FlagsPath @ key)"
  "StreamingDataKind_Key FlagsPath (FlagsPath @ key) = key"
  using IsKind_key [of key "''flags''"] by (simp_all add: FlagsPath_def StreamingDataKind_Key_def)

lemma segment_path [simp]:
  "CHR ''/'' \<notin> set key \<Longrightarrow> IsKind SegmentsPath (SegmentsPath @ key)"
  "StreamingDataKind_Key SegmentsPath (SegmentsPath @ key) = key"
  "\<not> IsKind FlagsPath (SegmentsPath @ key)"
  using IsKind_key [of key "''segments''"]
  by (simp_all add: SegmentsPath_def FlagsPath_def StreamingDataKind_Key_def IsKind_iff)

section \<open>Messages about flags and segments\<close>

text \<open>
  The flag or the segment and its descriptor that a message carries, if it is about one.
\<close>

definition carried_flag :: "wire \<Rightarrow> string \<times> string \<Rightarrow> (string \<times> FlagDescriptor) option" where
  "carried_flag W event =
     Option.bind (json_parse W (snd event)) (\<lambda>j.
       if fst event = ''patch'' then
         (case parse_Patch (wire_numbers W) j of
            Inr (Some p) \<Rightarrow> (case patch_data p of FlagObject f \<Rightarrow> Some (patch_key p, f) | _ \<Rightarrow> None)
          | _ \<Rightarrow> None)
       else if fst event = ''delete'' then
         (case parse_Delete (wire_numbers W) j of
            Inr d \<Rightarrow> if delete_kind d = kFlag then Some (delete_key d, Tombstone (delete_version d)) else None
          | _ \<Rightarrow> None)
       else None)"

definition carried_segment :: "wire \<Rightarrow> string \<times> string \<Rightarrow> (string \<times> SegmentDescriptor) option" where
  "carried_segment W event =
     Option.bind (json_parse W (snd event)) (\<lambda>j.
       if fst event = ''patch'' then
         (case parse_Patch (wire_numbers W) j of
            Inr (Some p) \<Rightarrow> (case patch_data p of SegmentObject s \<Rightarrow> Some (patch_key p, s) | _ \<Rightarrow> None)
          | _ \<Rightarrow> None)
       else if fst event = ''delete'' then
         (case parse_Delete (wire_numbers W) j of
            Inr d \<Rightarrow> if delete_kind d = kSegment then Some (delete_key d, Tombstone (delete_version d)) else None
          | _ \<Rightarrow> None)
       else None)"

definition stored_flag_of :: "StreamingSource \<Rightarrow> string \<Rightarrow> FlagDescriptor option" where
  "stored_flag_of s = MemoryStore_GetFlag (cn_store (sh_handler (event_handler s)))"

definition stored_segment_of :: "StreamingSource \<Rightarrow> string \<Rightarrow> SegmentDescriptor option" where
  "stored_segment_of s = MemoryStore_GetSegment (cn_store (sh_handler (event_handler s)))"

lemma Notify_store [simp]: "cn_store (NotifyChanges ds c) = cn_store c"
  by (simp add: NotifyChanges_def Let_def)

lemma upsert_flag_lookup:
  "MemoryStore_GetFlag (cn_store (ChangeNotifier_Upsert_flag key d c)) k =
     (if k = key then newer d (MemoryStore_GetFlag (cn_store c) key) else MemoryStore_GetFlag (cn_store c) k)"
  "MemoryStore_GetSegment (cn_store (ChangeNotifier_Upsert_flag key d c)) k = MemoryStore_GetSegment (cn_store c) k"
  by (auto simp: ChangeNotifier_Upsert_flag_def UpsertCommon_def newer_def Let_def split: option.splits)

lemma upsert_segment_lookup:
  "MemoryStore_GetSegment (cn_store (ChangeNotifier_Upsert_segment key e c)) k =
     (if k = key then newer e (MemoryStore_GetSegment (cn_store c) key) else MemoryStore_GetSegment (cn_store c) k)"
  "MemoryStore_GetFlag (cn_store (ChangeNotifier_Upsert_segment key d c)) k = MemoryStore_GetFlag (cn_store c) k"
  by (auto simp: ChangeNotifier_Upsert_segment_def UpsertCommon_def newer_def Let_def split: option.splits)

lemma HandleMessage_cases:
  obtains (invalid) message where "type \<in> {''put'', ''patch'', ''delete''}"
      "HandleMessage W now type data h = (kInvalidMessage, sh_SetError now message h)"
    | (unhandled) "type \<notin> {''put'', ''patch'', ''delete''}" "HandleMessage W now type data h = (kUnhandledVerb, h)"
    | (ignored) "HandleMessage W now type data h = (kMessageHandled, h)"
    | (put) put_data where "type = ''put''"
      "HandleMessage W now type data h = (kMessageHandled,
         h\<lparr>sh_handler := ChangeNotifier_Init put_data (sh_handler h),
           sh_status_manager := SetState now dsValid (sh_status_manager h)\<rparr>)"
    | (item) key object where "HandleMessage W now type data h = (kMessageHandled, sh_Upsert key object h)"
proof -
  let ?H = "HandleMessage W now type data h"
  have "(\<exists>message. type \<in> {''put'', ''patch'', ''delete''} \<and> ?H = (kInvalidMessage, sh_SetError now message h)) \<or>
    (type \<notin> {''put'', ''patch'', ''delete''} \<and> ?H = (kUnhandledVerb, h)) \<or> ?H = (kMessageHandled, h) \<or>
    (\<exists>put_data. type = ''put'' \<and> ?H = (kMessageHandled,
         h\<lparr>sh_handler := ChangeNotifier_Init put_data (sh_handler h),
           sh_status_manager := SetState now dsValid (sh_status_manager h)\<rparr>)) \<or>
    (\<exists>key object. ?H = (kMessageHandled, sh_Upsert key object h))"
    unfolding HandleMessage_def Let_def
    by (cases "type = ''put''"; cases "type = ''patch''"; cases "type = ''delete''")
      (auto split: option.split sum.split DataKind.split)
  then show thesis using that by (elim disjE exE conjE) assumption+
qed

lemma Init_initialized: "ms_initialized (cn_store (ChangeNotifier_Init data_set c))"
  by (simp add: ChangeNotifier_Init_def MemoryStore_Init_def Let_def split: option.split)

lemma receive_handler:
  "sh_handler (event_handler (Streaming_receive W now event s)) =
     sh_handler (snd (HandleMessage W now (fst event) (snd event) (event_handler s)))"
  by (simp add: Streaming_receive_def Let_def case_prod_unfold)

lemma message_flag:
  assumes "fst event \<noteq> ''put''"
  shows "stored_flag_of (Streaming_receive W now event s) k =
    (case carried_flag W event of
       Some (key, d) \<Rightarrow> if k = key then newer d (stored_flag_of s k) else stored_flag_of s k
     | None \<Rightarrow> stored_flag_of s k)"
  using assms unfolding stored_flag_of_def receive_handler
  by (simp add: HandleMessage_def carried_flag_def sh_Upsert_def sh_SetError_def upsert_flag_lookup
      upsert_segment_lookup del: MemoryStore_Get
      split: option.split sum.split DataKind.split ItemObject.split)

lemma message_segment:
  assumes "fst event \<noteq> ''put''"
  shows "stored_segment_of (Streaming_receive W now event s) k =
    (case carried_segment W event of
       Some (key, d) \<Rightarrow> if k = key then newer d (stored_segment_of s k) else stored_segment_of s k
     | None \<Rightarrow> stored_segment_of s k)"
  using assms unfolding stored_segment_of_def receive_handler
  by (simp add: HandleMessage_def carried_segment_def sh_Upsert_def sh_SetError_def upsert_flag_lookup
      upsert_segment_lookup del: MemoryStore_Get
      split: option.split sum.split DataKind.split ItemObject.split)

type_synonym stream_message = "int \<times> string \<times> string"

definition receive_message :: "wire \<Rightarrow> stream_message \<Rightarrow> StreamingSource \<Rightarrow> StreamingSource" where
  "receive_message W m = Streaming_receive W (fst m) (snd m)"

interpretation stream: versioned_updates stored_flag_of "receive_message W" "\<lambda>m. carried_flag W (snd m)"
    "\<lambda>m. fst (snd m) \<noteq> ''put''" for W
  by unfold_locales (simp add: receive_message_def message_flag)

interpretation segment_stream: versioned_updates stored_segment_of "receive_message W"
    "\<lambda>m. carried_segment W (snd m)" "\<lambda>m. fst (snd m) \<noteq> ''put''" for W
  by unfold_locales (simp add: receive_message_def message_segment)

definition flag_candidates :: "wire \<Rightarrow> StreamingSource \<Rightarrow> stream_message list \<Rightarrow> string \<Rightarrow> FlagDescriptor set" where
  "flag_candidates W s msgs k =
     set_option (stored_flag_of s k) \<union> {d. \<exists>m \<in> set msgs. carried_flag W (snd m) = Some (k, d)}"

definition segment_candidates :: "wire \<Rightarrow> StreamingSource \<Rightarrow> stream_message list \<Rightarrow> string \<Rightarrow> SegmentDescriptor set" where
  "segment_candidates W s msgs k =
     set_option (stored_segment_of s k) \<union> {d. \<exists>m \<in> set msgs. carried_segment W (snd m) = Some (k, d)}"

lemma stream_candidates:
  "stream.candidates W = flag_candidates W" "segment_stream.candidates W = segment_candidates W"
  by (intro ext, simp add: stream.candidates_def segment_stream.candidates_def flag_candidates_def
      segment_candidates_def)+

lemmas stream_newest = stream.newest [unfolded stream_candidates] segment_stream.newest [unfolded stream_candidates]
lemmas stream_order = stream.order_irrelevant [unfolded stream_candidates]
  segment_stream.order_irrelevant [unfolded stream_candidates]

section \<open>Polling\<close>

lemmas polling_defs = handle_poll_body_def HandlePollResult_def StartPollingTimer_def note_etag_def poll_set_def

lemma HandlePollResult_open [simp]: "requests_open (HandlePollResult W now res s) = requests_open s"
  by (simp add: polling_defs Let_def split: option.split sum.split)










section \<open>Properties\<close>

text \<open>
  C8. Messages of the stream may come late, twice or out of order. After patches and
  deletes, the store has under every key the newest of the flag it had and those that were sent,
  and likewise the newest segment, a tombstone included; and any other list of the same messages,
  in whatever order and however often repeated, gives the same flag when no two of the versions of
  the flag are equal, and the same segment when no two versions of the segment are.
\<close>

theorem stream_newest_wins:
  assumes "\<forall>m \<in> set msgs. fst (snd m) \<noteq> ''put''"
  shows "is_newest (stored_flag_of (fold (receive_message W) msgs s) k) (flag_candidates W s msgs k) \<and>
    is_newest (stored_segment_of (fold (receive_message W) msgs s) k) (segment_candidates W s msgs k) \<and>
    (\<forall>msgs'. set msgs' = set msgs \<and> inj_on descr_version (flag_candidates W s msgs k) \<longrightarrow>
       stored_flag_of (fold (receive_message W) msgs' s) k = stored_flag_of (fold (receive_message W) msgs s) k) \<and>
    (\<forall>msgs'. set msgs' = set msgs \<and> inj_on descr_version (segment_candidates W s msgs k) \<longrightarrow>
       stored_segment_of (fold (receive_message W) msgs' s) k = stored_segment_of (fold (receive_message W) msgs s) k)"
proof (intro conjI allI impI)
  fix msgs'
  assume "set msgs' = set msgs \<and> inj_on descr_version (flag_candidates W s msgs k)"
  then show "stored_flag_of (fold (receive_message W) msgs' s) k = stored_flag_of (fold (receive_message W) msgs s) k"
    by (elim conjE) (rule stream_order(1) [OF assms])
next
  fix msgs'
  assume "set msgs' = set msgs \<and> inj_on descr_version (segment_candidates W s msgs k)"
  then show "stored_segment_of (fold (receive_message W) msgs' s) k = stored_segment_of (fold (receive_message W) msgs s) k"
    by (elim conjE) (rule stream_order(2) [OF assms])
qed (rule stream_newest [OF assms])+

text \<open>
  A wire that knows patches of a flag and of a segment and the deletion of the flag, and a source
  without data.
\<close>

definition sync_wire :: wire where
  "sync_wire =
     \<lparr>wire_numbers = sample_numbers,
      json_parse = (\<lambda>s.
        if s = ''patch'' then
          Some (JObject [(''path'', JString (FlagsPath @ ''f'')), (''data'', parsed_form (Flag_json sample_json_flag))])
        else if s = ''segment'' then
          Some (JObject [(''path'', JString (SegmentsPath @ ''s'')), (''data'', parsed_form (Segment_json sample_json_segment))])
        else if s = ''delete'' then
          Some (JObject [(''path'', JString (FlagsPath @ ''f'')), (''version'', JInt64 9)])
        else if s = ''{}'' then Some (JObject []) else None),
      iequals = (=)\<rparr>"

definition sync_source :: StreamingSource where
  "sync_source =
     \<lparr>event_handler = \<lparr>sh_handler = ChangeNotifier_new MemoryStore_empty, sh_status_manager = StatusManager_new 0\<rparr>,
      src_client = True, src_restarts = []\<rparr>"

lemma sync_carried:
  "carried_flag sync_wire (''patch'', ''patch'') = Some (''f'', FlagDescriptor_of sample_json_flag)"
  "carried_flag sync_wire (''patch'', ''segment'') = None"
  "carried_flag sync_wire (''delete'', ''delete'') = Some (''f'', Tombstone 9)"
  "carried_segment sync_wire (''patch'', ''patch'') = None"
  "carried_segment sync_wire (''patch'', ''segment'') = Some (''s'', SegmentDescriptor_of sample_json_segment)"
  "carried_segment sync_wire (''delete'', ''delete'') = None"
  by (simp_all add: carried_flag_def carried_segment_def sync_wire_def Patch_item_def sample_parsed
      PARSE_FIELD_DEFAULT_def PARSE_CONDITIONAL_FIELD_def PARSE_REQUIRED_FIELD_def parse_uint64_def
      StreamingDataKinds_Kind_def StreamingDataKinds_Key_def) (simp_all add: sample_numbers_def)

lemma sync_candidates:
  assumes "set msgs = {(0, ''delete'', ''delete''), (1, ''patch'', ''patch''), (2, ''patch'', ''segment'')}"
  shows "flag_candidates sync_wire sync_source msgs ''f'' = {Tombstone 9, FlagDescriptor_of sample_json_flag}"
    and "segment_candidates sync_wire sync_source msgs ''s'' = {SegmentDescriptor_of sample_json_segment}"
  using assms
  by (auto simp: flag_candidates_def segment_candidates_def sync_carried stored_flag_of_def stored_segment_of_def
      sync_source_def ChangeNotifier_new_def MemoryStore_empty_def)

theorem stream_newest_wins_witness:
  "let s = fold (receive_message sync_wire)
       [(0, ''delete'', ''delete''), (1, ''patch'', ''patch''), (2, ''patch'', ''segment'')] sync_source;
     s' = fold (receive_message sync_wire)
       [(2, ''patch'', ''segment''), (1, ''patch'', ''patch''), (0, ''delete'', ''delete''), (2, ''patch'', ''segment'')] sync_source
   in stored_flag_of s ''f'' = Some (Tombstone 9) \<and> stored_flag_of s' ''f'' = Some (Tombstone 9) \<and>
     stored_segment_of s ''s'' = Some (SegmentDescriptor_of sample_json_segment) \<and>
     stored_segment_of s' ''s'' = Some (SegmentDescriptor_of sample_json_segment)"
proof -
  let ?ms = "[(0 :: int, ''delete'', ''delete''), (1, ''patch'', ''patch''), (2, ''patch'', ''segment'')]"
  let ?rs = "[(2 :: int, ''patch'', ''segment''), (1, ''patch'', ''patch''), (0, ''delete'', ''delete''), (2, ''patch'', ''segment'')]"
  let ?found = "stored_flag_of (fold (receive_message sync_wire) ?ms sync_source) ''f''"
  let ?found_s = "stored_segment_of (fold (receive_message sync_wire) ?ms sync_source) ''s''"
  have versions: "descr_version (Tombstone 9 :: FlagDescriptor) = 9" "descr_version (FlagDescriptor_of sample_json_flag) = 7"
    by (simp_all add: Tombstone_def FlagDescriptor_of_def sample_json_flag_def)
  have "set ?ms = {(0, ''delete'', ''delete''), (1, ''patch'', ''patch''), (2, ''patch'', ''segment'')}" by simp
  note C = sync_candidates [OF this]
  have puts: "\<forall>m \<in> set ?ms. fst (snd m) \<noteq> ''put''" by simp
  have same: "set ?rs = set ?ms" by auto
  have inj: "inj_on descr_version (flag_candidates sync_wire sync_source ?ms ''f'')"
    "inj_on descr_version (segment_candidates sync_wire sync_source ?ms ''s'')"
    unfolding C by (auto simp: versions)
  note newest = stream_newest_wins [OF puts, of sync_wire sync_source]
  have f: "is_newest ?found {Tombstone 9, FlagDescriptor_of sample_json_flag}"
    "stored_flag_of (fold (receive_message sync_wire) ?rs sync_source) ''f'' = ?found"
    using newest [of "''f''"] same inj(1) unfolding C by blast+
  have s: "is_newest ?found_s {SegmentDescriptor_of sample_json_segment}"
    "stored_segment_of (fold (receive_message sync_wire) ?rs sync_source) ''s'' = ?found_s"
    using newest [of "''s''"] same inj(2) unfolding C by blast+
  have "?found = Some (Tombstone 9)" using f(1) by (auto simp: is_newest_def versions split: option.splits)
  moreover have "?found_s = Some (SegmentDescriptor_of sample_json_segment)"
    using s(1) by (auto simp: is_newest_def split: option.splits)
  ultimately show ?thesis using f(2) s(2) unfolding Let_def by simp
qed

text \<open>
  What a message can do. One that cannot be read leaves the data as it is, announces
  the error, which does not change the state, and asks for a new connection. A message of
  another type changes nothing. And one that is handled does not touch the status, except
  that a put of data makes it valid.
\<close>

theorem stream_message_outcomes:
  "let (status, h') = HandleMessage W now type data (event_handler s);
       s' = Streaming_receive W now (type, data) s
   in event_handler s' = h' \<and>
     (case status of
        kInvalidMessage \<Rightarrow>
          type \<in> {''put'', ''patch'', ''delete''} \<and> sh_handler h' = sh_handler (event_handler s) \<and>
          sm_state (sh_status_manager h') = sm_state (sh_status_manager (event_handler s)) \<and>
          map_option ei_kind (sm_last_error (sh_status_manager h')) = Some ekInvalidData \<and>
          src_restarts s' = src_restarts s @ (if src_client s then [''invalid data in stream''] else [])
      | kUnhandledVerb \<Rightarrow> type \<notin> {''put'', ''patch'', ''delete''} \<and> s' = s
      | kMessageHandled \<Rightarrow>
          src_restarts s' = src_restarts s \<and>
          (sh_status_manager h' = sh_status_manager (event_handler s) \<or>
           type = ''put'' \<and> sm_state (sh_status_manager h') = dsValid \<and>
           ms_initialized (cn_store (sh_handler h'))))"
proof (cases rule: HandleMessage_cases [of type W now data "event_handler s"])
  case (invalid message)
  then show ?thesis
    by (simp add: Streaming_receive_def sh_SetError_def SetError_kind_def announce_def)
next
  case unhandled
  then show ?thesis by (simp add: Streaming_receive_def)
next
  case ignored
  then show ?thesis by (simp add: Streaming_receive_def)
next
  case (put put_data)
  then show ?thesis by (simp add: Streaming_receive_def SetState_cases UpdateState_state Init_initialized)
next
  case (item key object)
  then show ?thesis by (simp add: Streaming_receive_def sh_Upsert_def split: ItemObject.split)
qed





end
