(* ===== verification/Client_SDK.thy ===== *)
theory Client_SDK
  imports Client_Persistence Event_Processor Background_Sync
begin

text \<open>
  The client of the client-side SDK (\<^verbatim>\<open>client-sdk/src/client_impl.cpp\<close>) and its polling data
  source (\<^verbatim>\<open>data_sources/polling_data_source.cpp\<close>): variations with the events of evaluated
  prerequisites, identifying, what resolves the promise of starting, and polling. The clock
  is an argument; one value of it serves for all events of a variation. Recursion into
  prerequisites has no guard in the code, so it is bounded by fuel here. The lemmas show
  exactly when it returns, what an application gets and what is reported, and how polling
  treats entity tags.
\<close>

section \<open>The client\<close>

text \<open>
  \<open>cl_manager\<close> is the flag manager: the cache, the updater and the store. \<open>cl_reporting\<close> tells
  whether there is an event processor that is not the null one.
\<close>

record Client =
  cl_manager :: FlagPersistence
  cl_status :: StatusManager
  cl_context :: Context
  eval_reasons_available :: bool
  cl_reporting :: bool

abbreviation cl_store :: "Client \<Rightarrow> ClientFlags" where
  "cl_store c \<equiv> fu_store (fp_updater (cl_manager c))"

definition IsInitializedSuccessfully :: "DataSourceState \<Rightarrow> bool" where
  "IsInitializedSuccessfully state \<longleftrightarrow> state = dsValid \<or> state = dsSetOffline \<or> state = dsInterrupted"

definition Client_Initialized :: "Client \<Rightarrow> bool" where
  "Client_Initialized c = IsInitializedSuccessfully (sm_state (cl_status c))"

definition Client_Send :: "Client \<Rightarrow> InputEvent \<Rightarrow> InputEvent list" where
  "Client_Send c event = (if cl_reporting c then [event] else [])"

definition Client_AllFlags :: "Client \<Rightarrow> (string \<times> Value) list" where
  "Client_AllFlags c =
     fold (\<lambda>(key, descriptor) result.
         case descr_item descriptor of Some r \<Rightarrow> umap_emplace key (er_value r) result | None \<Rightarrow> result)
       (cl_store c) []"

definition Client_TrackInternal :: "Client \<Rightarrow> Date \<Rightarrow> string \<Rightarrow> Value option \<Rightarrow> double option \<Rightarrow> InputEvent list" where
  "Client_TrackInternal c now event_name data metric_value =
     Client_Send c (InTrack \<lparr>tp_creation_date = now, tp_key = event_name, tp_context = cl_context c, tp_data = data,
       tp_metric_value = metric_value\<rparr>)"

text \<open>
  \<^verbatim>\<open>ClientImpl::IdentifyAsync\<close> up to the restart of the data source. An exception of the cache
  leaves the context set and no event sent.
\<close>

definition Client_Identify :: "cache_code \<Rightarrow> Date \<Rightarrow> Context \<Rightarrow> Client \<Rightarrow> InputEvent list outcome \<times> Client" where
  "Client_Identify C now ctx c =
     (let c = c\<lparr>cl_context := ctx\<rparr>;
          (loaded, manager) = LoadCached C ctx (cl_manager c);
          c = c\<lparr>cl_manager := manager\<rparr>
      in (outcome_bind loaded (\<lambda>_.
            Returned (Client_Send c (InIdentify \<lparr>ip_creation_date = now, ip_context = ctx\<rparr>))), c))"

text \<open>
  The promise of \<^verbatim>\<open>StartAsyncInternal\<close>, from the statuses that are announced after it: the
  listener ignores the initializing state, sets the value at the first other one and
  disconnects.
\<close>

definition start_promise :: "DataSourceStatus list \<Rightarrow> bool option" where
  "start_promise statuses =
     map_option (IsInitializedSuccessfully \<circ> ds_state) (List.find (\<lambda>s. ds_state s \<noteq> dsInitializing) statuses)"

section \<open>Variations\<close>

definition client_event :: "Client \<Rightarrow> Date \<Rightarrow> string \<Rightarrow> Value \<Rightarrow> FeatureEventParams" where
  "client_event c now key default_value =
     \<lparr>fp_creation_date = now, fp_key = key, fp_context = cl_context c, fp_value = default_value,
      fp_default = default_value, fp_version = None, fp_variation = None, fp_reason = None,
      require_full_event = False, debug_events_until_date = None, fp_prereq_of = None\<rparr>"

definition client_error ::
  "Client \<Rightarrow> FeatureEventParams \<Rightarrow> ErrorKind \<Rightarrow> Value \<Rightarrow> Value EvaluationDetail \<times> InputEvent list" where
  "client_error c event kind default_value =
     (let error_reason = EvaluationReason_error kind;
          event = (if eval_reasons_available c then event\<lparr>fp_reason := Some error_reason\<rparr> else event)
      in (EvaluationDetail3 default_value None (Some error_reason), Client_Send c (InFeature event)))"

definition client_report ::
  "Client \<Rightarrow> FeatureEventParams \<Rightarrow> EvaluationResult \<Rightarrow> bool \<Rightarrow> Value EvaluationDetail \<times> InputEvent list" where
  "client_report c event flag detailed =
     (let event = event\<lparr>fp_value := er_value flag, fp_variation := er_variation_index flag\<rparr>;
          event = (if detailed \<or> er_track_reason flag then event\<lparr>fp_reason := er_reason flag\<rparr> else event);
          event = event\<lparr>fp_version := Some (case er_flag_version flag of Some v \<Rightarrow> v | None \<Rightarrow> er_version flag),
                        require_full_event := er_track_events flag,
                        debug_events_until_date := map_option sint (er_debug_events_until_date flag)\<rparr>
      in (EvaluationDetail3 (er_value flag) (er_variation_index flag) (er_reason flag), Client_Send c (InFeature event)))"

text \<open>The result \<open>None\<close> stands for a recursion that does not fit into the fuel.\<close>

fun Client_VariationInternal ::
  "nat \<Rightarrow> Client \<Rightarrow> Date \<Rightarrow> string \<Rightarrow> Value \<Rightarrow> bool \<Rightarrow> bool \<Rightarrow> (Value EvaluationDetail \<times> InputEvent list) option" where
  "Client_VariationInternal 0 c now key default_value check_type detailed = None"
| "Client_VariationInternal (Suc fuel) c now key default_value check_type detailed =
     (let event = client_event c now key default_value
      in case Option.bind (FlagStore_Get key (cl_store c)) descr_item of
           None \<Rightarrow>
             Some (client_error c event (if \<not> Client_Initialized c then kClientNotReady else kFlagNotFound) default_value)
         | Some flag \<Rightarrow>
             (case those (map (\<lambda>prereq. Client_VariationInternal fuel c now prereq VNull False False)
                 (case er_prerequisites flag of Some prereqs \<Rightarrow> prereqs | None \<Rightarrow> [])) of
                None \<Rightarrow> None
              | Some results \<Rightarrow>
                  Some (apsnd (append (concat (map snd results)))
                    (if check_type \<and> Type default_value \<noteq> kNull \<and> Type (er_value flag) \<noteq> Type default_value
                     then client_error c event kWrongType default_value
                     else client_report c event flag detailed))))"

definition client_typed ::
  "nat \<Rightarrow> Client \<Rightarrow> Date \<Rightarrow> (Value \<Rightarrow> 't) \<Rightarrow> string \<Rightarrow> Value \<Rightarrow> bool \<Rightarrow> bool \<Rightarrow> ('t EvaluationDetail \<times> InputEvent list) option" where
  "client_typed fuel c now as_type key default_value check_type detailed =
     map_option (\<lambda>(d, sent). (EvaluationDetail3 (as_type (detail_value d)) (variation_index d) (detail_reason d), sent))
       (Client_VariationInternal fuel c now key default_value check_type detailed)"

definition Client_BoolVariationDetail :: "nat \<Rightarrow> Client \<Rightarrow> Date \<Rightarrow> string \<Rightarrow> bool \<Rightarrow> (bool EvaluationDetail \<times> InputEvent list) option" where
  "Client_BoolVariationDetail fuel c now key dflt = client_typed fuel c now AsBool key (VBool dflt) True True"

definition Client_BoolVariation :: "nat \<Rightarrow> Client \<Rightarrow> Date \<Rightarrow> string \<Rightarrow> bool \<Rightarrow> (bool \<times> InputEvent list) option" where
  "Client_BoolVariation fuel c now key dflt =
     map_option (apfst detail_value) (client_typed fuel c now AsBool key (VBool dflt) True False)"

definition Client_StringVariationDetail :: "nat \<Rightarrow> Client \<Rightarrow> Date \<Rightarrow> string \<Rightarrow> string \<Rightarrow> (string EvaluationDetail \<times> InputEvent list) option" where
  "Client_StringVariationDetail fuel c now key dflt = client_typed fuel c now AsString key (VString dflt) True True"

definition Client_StringVariation :: "nat \<Rightarrow> Client \<Rightarrow> Date \<Rightarrow> string \<Rightarrow> string \<Rightarrow> (string \<times> InputEvent list) option" where
  "Client_StringVariation fuel c now key dflt =
     map_option (apfst detail_value) (client_typed fuel c now AsString key (VString dflt) True False)"

definition Client_DoubleVariationDetail :: "nat \<Rightarrow> Client \<Rightarrow> Date \<Rightarrow> string \<Rightarrow> double \<Rightarrow> (double EvaluationDetail \<times> InputEvent list) option" where
  "Client_DoubleVariationDetail fuel c now key dflt = client_typed fuel c now AsDouble key (VNumber dflt) True True"

definition Client_DoubleVariation :: "nat \<Rightarrow> Client \<Rightarrow> Date \<Rightarrow> string \<Rightarrow> double \<Rightarrow> (double \<times> InputEvent list) option" where
  "Client_DoubleVariation fuel c now key dflt =
     map_option (apfst detail_value) (client_typed fuel c now AsDouble key (VNumber dflt) True False)"

definition Client_IntVariationDetail ::
  "nat \<Rightarrow> (double \<Rightarrow> 32 word) \<Rightarrow> Client \<Rightarrow> Date \<Rightarrow> string \<Rightarrow> 32 word \<Rightarrow> (32 word EvaluationDetail \<times> InputEvent list) option" where
  "Client_IntVariationDetail fuel ub c now key dflt = client_typed fuel c now (AsInt ub) key (Value_int dflt) True True"

definition Client_IntVariation ::
  "nat \<Rightarrow> (double \<Rightarrow> 32 word) \<Rightarrow> Client \<Rightarrow> Date \<Rightarrow> string \<Rightarrow> 32 word \<Rightarrow> (32 word \<times> InputEvent list) option" where
  "Client_IntVariation fuel ub c now key dflt =
     map_option (apfst detail_value) (client_typed fuel c now (AsInt ub) key (Value_int dflt) True False)"

definition Client_JsonVariationDetail :: "nat \<Rightarrow> Client \<Rightarrow> Date \<Rightarrow> string \<Rightarrow> Value \<Rightarrow> (Value EvaluationDetail \<times> InputEvent list) option" where
  "Client_JsonVariationDetail fuel c now key dflt = client_typed fuel c now id key dflt False True"

definition Client_JsonVariation :: "nat \<Rightarrow> Client \<Rightarrow> Date \<Rightarrow> string \<Rightarrow> Value \<Rightarrow> (Value \<times> InputEvent list) option" where
  "Client_JsonVariation fuel c now key dflt =
     map_option (apfst detail_value) (client_typed fuel c now id key dflt False False)"

section \<open>The polling source\<close>

text \<open>
  The state is that of the server-side source without the sink, and the message handler.
  Its status manager is the one of the handler.
\<close>

record ClientPolling =
  cp_handler :: ClientHandler
  cp_interval :: int
  cp_valid :: bool
  cp_headers :: "(string \<times> string) list"
  cp_etag :: "string option"
  cp_poll_start :: int
  cp_timer :: "int option"
  cp_open :: nat

definition ClientPolling_new :: "int \<Rightarrow> int \<Rightarrow> bool \<Rightarrow> (string \<times> string) list \<Rightarrow> ClientHandler \<Rightarrow> ClientPolling" where
  "ClientPolling_new interval min_polling_interval valid headers handler =
     \<lparr>cp_handler = handler,
      cp_interval = (if interval < min_polling_interval then min_polling_interval else interval),
      cp_valid = valid, cp_headers = headers, cp_etag = None, cp_poll_start = 0, cp_timer = None, cp_open = 0\<rparr>"

definition ClientPolling_DoPoll :: "int \<Rightarrow> ClientPolling \<Rightarrow> ClientPolling" where
  "ClientPolling_DoPoll now s = s\<lparr>cp_poll_start := now, cp_open := cp_open s + 1\<rparr>"

definition ClientPolling_StartPollingTimer :: "int \<Rightarrow> ClientPolling \<Rightarrow> ClientPolling" where
  "ClientPolling_StartPollingTimer now s =
     s\<lparr>cp_timer := Some (max (cp_interval s - cast_seconds (now - cp_poll_start s)) 0)\<rparr>"

definition cp_set :: "(StatusManager \<Rightarrow> StatusManager) \<Rightarrow> ClientPolling \<Rightarrow> ClientPolling" where
  "cp_set f s = s\<lparr>cp_handler := (cp_handler s)\<lparr>ch_status := f (ch_status (cp_handler s))\<rparr>\<rparr>"

definition cp_note_etag :: "string option \<Rightarrow> ClientPolling \<Rightarrow> ClientPolling" where
  "cp_note_etag etag s =
     (case etag of
        Some e \<Rightarrow> s\<lparr>cp_headers := AList.update ''If-None-Match'' e (cp_headers s), cp_etag := Some e\<rparr>
      | None \<Rightarrow> s)"

text \<open>
  Whether the timer is started at the end. \<^verbatim>\<open>value()\<close> of an absent body throws, and so may the
  handler.
\<close>

definition client_poll_body :: "wire \<Rightarrow> int \<Rightarrow> PollResult \<Rightarrow> ClientPolling \<Rightarrow> bool outcome \<times> ClientPolling" where
  "client_poll_body W now res s =
     (if res_error res then
        (Returned True, cp_set (SetState_kind now dsInterrupted ekNetworkError
           (case res_error_message res of Some m \<Rightarrow> m | None \<Rightarrow> ''unknown error'')) s)
      else if res_status res = 200 then
        (case res_body res of
           Some body \<Rightarrow>
             (let (handled, h) = Client_HandleMessage W now ''put'' body (cp_handler s)
              in (outcome_bind handled (\<lambda>_. Returned True), s\<lparr>cp_handler := h\<rparr>))
         | None \<Rightarrow> (Threw, s))
      else if res_status res = 304 then (Returned True, s)
      else if IsRecoverableStatus (res_status res) then
        (Returned True, cp_set (SetState_code now dsInterrupted (res_status res)
           (ErrorForStatusCode (res_status res) ''polling request'' (Some ''will retry''))) s)
      else
        (Returned False, cp_set (SetState_code now dsOff (res_status res)
           (ErrorForStatusCode (res_status res) ''polling request'' None)) s))"

definition ClientPolling_HandlePollResult :: "wire \<Rightarrow> int \<Rightarrow> PollResult \<Rightarrow> ClientPolling \<Rightarrow> unit outcome \<times> ClientPolling" where
  "ClientPolling_HandlePollResult W now res s =
     (let header_etag = headers_find ''etag'' (res_headers res)
      in if header_etag \<noteq> None \<and> cp_etag s = header_etag
         then (Returned (), ClientPolling_StartPollingTimer now s)
         else
           (case client_poll_body W now res (cp_note_etag header_etag s) of
              (Threw, s) \<Rightarrow> (Threw, s)
            | (Returned go_on, s) \<Rightarrow> (Returned (), if go_on then ClientPolling_StartPollingTimer now s else s)))"

definition ClientPolling_Start :: "int \<Rightarrow> ClientPolling \<Rightarrow> ClientPolling" where
  "ClientPolling_Start now s =
     (let s = cp_set (SetState now dsInitializing) s
      in if \<not> cp_valid s then
           cp_set (SetState_kind now dsOff ekNetworkError ''Could not parse polling endpoint URL.'') s
         else ClientPolling_DoPoll now s)"

definition ClientPolling_ShutdownAsync :: "int \<Rightarrow> ClientPolling \<Rightarrow> ClientPolling" where
  "ClientPolling_ShutdownAsync now s = cp_set (SetState now dsInitializing) (s\<lparr>cp_timer := None\<rparr>)"

definition NullDataSource_Start :: "int \<Rightarrow> StatusManager \<Rightarrow> StatusManager" where
  "NullDataSource_Start now m = SetState now dsSetOffline m"

text \<open>What can happen to a started source, with the responses that come in.\<close>

inductive client_polling :: "wire \<Rightarrow> (PollResult \<Rightarrow> bool) \<Rightarrow> ClientPolling \<Rightarrow> ClientPolling \<Rightarrow> bool" for W P where
  cp_refl: "client_polling W P s s"
| cp_result: "client_polling W P s t \<Longrightarrow> 0 < cp_open t \<Longrightarrow> P res \<Longrightarrow>
     client_polling W P s (snd (ClientPolling_HandlePollResult W now res (t\<lparr>cp_open := cp_open t - 1\<rparr>)))"
| cp_expires: "client_polling W P s t \<Longrightarrow> cp_timer t \<noteq> None \<Longrightarrow>
     client_polling W P s (ClientPolling_DoPoll now (t\<lparr>cp_timer := None\<rparr>))"

section \<open>Recursion into prerequisites\<close>

definition live_flag :: "Client \<Rightarrow> string \<Rightarrow> EvaluationResult option" where
  "live_flag c key = Option.bind (FlagStore_Get key (cl_store c)) descr_item"

definition flag_prereqs :: "EvaluationResult \<Rightarrow> string list" where
  "flag_prereqs flag = (case er_prerequisites flag of Some prereqs \<Rightarrow> prereqs | None \<Rightarrow> [])"

definition needs :: "Client \<Rightarrow> (string \<times> string) set" where
  "needs c = {(k, p). \<exists>flag. live_flag c k = Some flag \<and> p \<in> set (flag_prereqs flag)}"

text \<open>A flag that is reached is among its own prerequisites.\<close>

definition reaches_cycle :: "Client \<Rightarrow> string \<Rightarrow> bool" where
  "reaches_cycle c key \<longleftrightarrow> (\<exists>k. (key, k) \<in> (needs c)\<^sup>* \<and> (k, k) \<in> (needs c)\<^sup>+)"

lemma those_None: "those xs = None \<longleftrightarrow> None \<in> set xs"
  by (induction xs) (auto split: option.split)

lemma Client_VariationInternal_Suc:
  "Client_VariationInternal (Suc fuel) c now key d ct detailed =
     (case live_flag c key of
        None \<Rightarrow> Some (client_error c (client_event c now key d)
          (if \<not> Client_Initialized c then kClientNotReady else kFlagNotFound) d)
      | Some flag \<Rightarrow>
          map_option (\<lambda>results. apsnd (append (concat (map snd results)))
              (if ct \<and> Type d \<noteq> kNull \<and> Type (er_value flag) \<noteq> Type d
               then client_error c (client_event c now key d) kWrongType d
               else client_report c (client_event c now key d) flag detailed))
            (those (map (\<lambda>p. Client_VariationInternal fuel c now p VNull False False) (flag_prereqs flag))))"
  by (simp add: live_flag_def flag_prereqs_def Let_def split: option.split)

lemma variation_None:
  "Client_VariationInternal n c now key d ct detailed = None \<longleftrightarrow> (\<exists>q. (key, q) \<in> needs c ^^ n)"
proof (induction n arbitrary: key d ct detailed)
  case (Suc n)
  have "Client_VariationInternal (Suc n) c now key d ct detailed = None \<longleftrightarrow>
      (\<exists>p. (key, p) \<in> needs c \<and> Client_VariationInternal n c now p VNull False False = None)"
    by (auto simp: Client_VariationInternal_Suc those_None needs_def image_iff eq_commute [of None]
        simp del: Client_VariationInternal.simps split: option.split)
  also have "\<dots> \<longleftrightarrow> (\<exists>p q. (key, p) \<in> needs c \<and> (p, q) \<in> needs c ^^ n)" by (simp add: Suc.IH)
  also have "\<dots> \<longleftrightarrow> (\<exists>q. (key, q) \<in> needs c ^^ Suc n)"
    by (meson relpow_Suc_I2 relpow_Suc_D2)
  finally show ?case .
qed simp

lemma finite_needs: "finite (Domain (needs c))" and card_needs: "card (Domain (needs c)) \<le> length (cl_store c)"
proof -
  have sub: "Domain (needs c) \<subseteq> set (map fst (cl_store c))"
    by (auto simp: needs_def live_flag_def FlagStore_Get_def bind_eq_Some_conv dest!: map_of_SomeD)
      (metis fst_conv image_eqI)
  then show "finite (Domain (needs c))" by (rule finite_subset) simp
  show "card (Domain (needs c)) \<le> length (cl_store c)"
    using card_mono [OF _ sub] card_length [of "map fst (cl_store c)"] by simp
qed

lemma long_path_cycle:
  assumes path: "(key, q) \<in> R ^^ n" and fin: "finite (Domain R)" and long: "card (Domain R) < n"
  shows "\<exists>k. (key, k) \<in> R\<^sup>* \<and> (k, k) \<in> R\<^sup>+"
proof -
  obtain f where f: "f 0 = key" "\<And>i. i < n \<Longrightarrow> (f i, f (Suc i)) \<in> R"
    using path by (auto simp: relpow_fun_conv)
  have steps: "(f i, f (i + m)) \<in> R ^^ m" if "i + m \<le> n" for i m
    using that by (induction m) (auto intro!: relcompI f(2))
  have "f ` {..<n} \<subseteq> Domain R" using f(2) by auto
  then have "\<not> inj_on f {..<n}" using long fin card_inj_on_le [of f "{..<n}" "Domain R"] by auto
  then obtain i j where ij: "i < j" "j < n" "f i = f j"
    by (auto simp: inj_on_def) (metis linorder_neqE_nat)
  have "(key, f i) \<in> R\<^sup>*" using steps [of 0 i] ij f(1) by (auto intro: relpow_imp_rtrancl)
  moreover have "(f i, f j) \<in> R\<^sup>+" using steps [of i "j - i"] ij by (auto simp: trancl_power intro!: exI [of _ "j - i"])
  ultimately show ?thesis using ij(3) by metis
qed

lemma cycle_step:
  assumes "(x, k) \<in> R\<^sup>*" and "(k, k) \<in> R\<^sup>+"
  shows "\<exists>y. (x, y) \<in> R \<and> (y, k) \<in> R\<^sup>*"
proof (cases "x = k")
  case True
  then show ?thesis using assms(2) by (meson tranclD)
next
  case False
  then show ?thesis using assms(1) by (meson converse_rtranclE)
qed

lemma cycle_long_paths:
  assumes "(x, k) \<in> R\<^sup>*" and "(k, k) \<in> R\<^sup>+"
  shows "\<exists>q. (x, q) \<in> R ^^ n"
  using assms(1)
proof (induction n arbitrary: x)
  case (Suc n)
  then obtain y where "(x, y) \<in> R" "(y, k) \<in> R\<^sup>*" using cycle_step assms(2) by meson
  then show ?case using Suc.IH [of y] relpow_Suc_I2 by metis
qed simp

lemma variation_never:
  "reaches_cycle c key \<Longrightarrow> Client_VariationInternal n c now key d ct detailed = None"
  unfolding variation_None reaches_cycle_def by (blast intro: cycle_long_paths)

lemma variation_returns:
  "\<not> reaches_cycle c key \<Longrightarrow> length (cl_store c) < n \<Longrightarrow> Client_VariationInternal n c now key d ct detailed \<noteq> None"
  unfolding variation_None reaches_cycle_def
  using long_path_cycle [OF _ finite_needs] card_needs by (meson le_less_trans)

lemma those_mono:
  assumes "those (map f xs) = Some ys" and "\<And>x y. x \<in> set xs \<Longrightarrow> f x = Some y \<Longrightarrow> g x = Some y"
  shows "those (map g xs) = Some ys"
  using assms by (induction xs arbitrary: ys) (auto split: option.splits)

lemma more_fuel:
  "Client_VariationInternal n c now key d ct detailed = Some r \<Longrightarrow> n \<le> m \<Longrightarrow>
     Client_VariationInternal m c now key d ct detailed = Some r"
proof (induction n arbitrary: m key d ct detailed r)
  case (Suc n)
  obtain m' where m: "m = Suc m'" "n \<le> m'" using Suc.prems(2) by (cases m) auto
  show ?case
  proof (cases "live_flag c key")
    case None
    then show ?thesis using Suc.prems(1) by (simp add: Client_VariationInternal_Suc m del: Client_VariationInternal.simps)
  next
    case (Some flag)
    obtain results where res: "those (map (\<lambda>p. Client_VariationInternal n c now p VNull False False) (flag_prereqs flag)) = Some results"
      using Suc.prems(1) Some by (auto simp: Client_VariationInternal_Suc simp del: Client_VariationInternal.simps)
    have "those (map (\<lambda>p. Client_VariationInternal m' c now p VNull False False) (flag_prereqs flag)) = Some results"
      by (rule those_mono [OF res]) (rule Suc.IH [OF _ m(2)])
    then show ?thesis
      using Suc.prems(1) Some res by (simp add: Client_VariationInternal_Suc m del: Client_VariationInternal.simps)
  qed
qed simp

text \<open>The event of the flag itself comes last.\<close>

definition client_reports :: "Client \<Rightarrow> string \<Rightarrow> Value \<Rightarrow> Value EvaluationDetail \<Rightarrow> InputEvent list \<Rightarrow> bool" where
  "client_reports c key d detail sent \<longleftrightarrow>
     (if cl_reporting c
      then \<exists>p. sent = [InFeature p] \<and> fp_key p = key \<and> fp_context p = cl_context c \<and> fp_default p = d \<and>
        fp_value p = detail_value detail \<and> fp_variation p = variation_index detail
      else sent = [])"

lemma reports_own:
  "client_error c (client_event c now key d) kind d = (detail, sent) \<Longrightarrow> client_reports c key d detail sent"
  "client_report c (client_event c now key d) flag detailed = (detail, sent) \<Longrightarrow> client_reports c key d detail sent"
  by (auto simp: client_error_def client_report_def client_event_def Client_Send_def client_reports_def
      EvaluationDetail3_def Let_def)

lemma detail_of:
  "fst (client_error c event kind d) = EvaluationDetail_error kind d"
  "fst (client_report c event flag detailed) = EvaluationDetail3 (er_value flag) (er_variation_index flag) (er_reason flag)"
  by (simp_all add: client_error_def client_report_def EvaluationDetail3_def EvaluationDetail_error_def Let_def)

definition client_detail :: "Client \<Rightarrow> string \<Rightarrow> Value \<Rightarrow> bool \<Rightarrow> Value EvaluationDetail" where
  "client_detail c key d ct =
     (case live_flag c key of
        None \<Rightarrow> EvaluationDetail_error (if \<not> Client_Initialized c then kClientNotReady else kFlagNotFound) d
      | Some flag \<Rightarrow>
          if ct \<and> Type d \<noteq> kNull \<and> Type (er_value flag) \<noteq> Type d then EvaluationDetail_error kWrongType d
          else EvaluationDetail3 (er_value flag) (er_variation_index flag) (er_reason flag))"

lemma quiet_variation:
  "Client_VariationInternal n c now key d ct detailed = Some (detail, sent) \<Longrightarrow> \<not> cl_reporting c \<Longrightarrow> sent = []"
proof (induction n arbitrary: key d ct detailed detail sent)
  case (Suc n)
  have silent: "concat (map snd rs) = []"
    if "those (map (\<lambda>p. Client_VariationInternal n c now p VNull False False) ps) = Some rs" for ps rs
    using that
  proof (induction ps arbitrary: rs)
    case (Cons p ps)
    then show ?case using Suc.IH [OF _ Suc.prems(2)] by (fastforce split: option.splits)
  qed simp
  have own: "snd (client_error c event kind d) = []" "snd (client_report c event flag detailed) = []" for event kind d flag
    using Suc.prems(2) by (simp_all add: client_error_def client_report_def Client_Send_def Let_def)
  show ?case
  proof (cases "live_flag c key")
    case None
    then show ?thesis
      using Suc.prems(1) own(1) by (auto simp: Client_VariationInternal_Suc simp del: Client_VariationInternal.simps dest!: arg_cong [where f = snd])
  next
    case (Some flag)
    then obtain rs where rs: "those (map (\<lambda>p. Client_VariationInternal n c now p VNull False False) (flag_prereqs flag)) = Some rs"
      using Suc.prems(1) by (auto simp: Client_VariationInternal_Suc simp del: Client_VariationInternal.simps)
    have "sent = concat (map snd rs)"
      using Suc.prems(1) Some rs arg_cong [where f = snd, OF option.inject [THEN iffD1]] own
      by (auto simp: Client_VariationInternal_Suc apsnd_def map_prod_def case_prod_unfold simp del: Client_VariationInternal.simps split: if_splits)
    moreover have "concat (map snd rs) = []" by (rule silent [OF rs])
    ultimately show ?thesis by simp
  qed
qed simp

lemma variation_shape:
  assumes "Client_VariationInternal n c now key d ct detailed = Some (detail, sent)"
  obtains prereqs own where "sent = prereqs @ own" and "client_reports c key d detail own"
    and "detail = client_detail c key d ct" and "\<not> cl_reporting c \<longrightarrow> prereqs = []"
proof -
  obtain n' where n: "n = Suc n'" using assms by (cases n) auto
  show thesis
  proof (cases "live_flag c key")
    case None
    with assms have e: "client_error c (client_event c now key d) (if \<not> Client_Initialized c then kClientNotReady else kFlagNotFound) d = (detail, sent)"
      by (simp add: Client_VariationInternal_Suc n del: Client_VariationInternal.simps)
    show thesis
      by (rule that [of "[]" sent]) (use reports_own(1) [OF e] detail_of(1) e None in \<open>auto simp: client_detail_def dest!: arg_cong [where f = fst]\<close>)
  next
    case (Some flag)
    let ?own = "if ct \<and> Type d \<noteq> kNull \<and> Type (er_value flag) \<noteq> Type d
      then client_error c (client_event c now key d) kWrongType d
      else client_report c (client_event c now key d) flag detailed"
    obtain earlier where "apsnd (append earlier) ?own = (detail, sent)"
      using assms Some by (auto simp: Client_VariationInternal_Suc n simp del: Client_VariationInternal.simps)
    then obtain own where own: "?own = (detail, own)" "sent = earlier @ own"
      by (cases ?own) auto
    show thesis
    proof (rule that [OF own(2)])
      show "client_reports c key d detail own" using own(1) reports_own by (metis (full_types))
      show "detail = client_detail c key d ct"
        using arg_cong [OF own(1), of fst] Some by (auto simp: client_detail_def detail_of split: if_splits)
      show "\<not> cl_reporting c \<longrightarrow> earlier = []" using quiet_variation [OF assms] own(2) by simp
    qed
  qed
qed

section \<open>Entity tags\<close>

definition tagged :: "string \<Rightarrow> PollResult \<Rightarrow> bool" where
  "tagged e res \<longleftrightarrow> headers_find ''etag'' (res_headers res) = Some e"

lemma body_keeps_etag: "cp_etag (snd (client_poll_body W now res s)) = cp_etag s"
  by (simp add: client_poll_body_def cp_set_def Let_def case_prod_unfold split: option.split)

lemma HandlePollResult_etag:
  "cp_etag (snd (ClientPolling_HandlePollResult W now res s)) =
     (case headers_find ''etag'' (res_headers res) of Some e \<Rightarrow> Some e | None \<Rightarrow> cp_etag s)"
  using body_keeps_etag [of W now res "cp_note_etag (headers_find ''etag'' (res_headers res)) s"]
  by (auto simp: ClientPolling_HandlePollResult_def ClientPolling_StartPollingTimer_def cp_note_etag_def Let_def
      split: option.splits prod.splits outcome.splits)

lemma same_etag: "cp_etag s = Some e \<Longrightarrow> tagged e res \<Longrightarrow>
   ClientPolling_HandlePollResult W now res s = (Returned (), ClientPolling_StartPollingTimer now s)"
  by (simp add: ClientPolling_HandlePollResult_def tagged_def Let_def)

lemma tagged_run:
  assumes "client_polling W (tagged e) s t" and "cp_etag s = Some e"
  shows "cp_handler t = cp_handler s \<and> cp_etag t = Some e"
  using assms
  by induction (auto simp: same_etag ClientPolling_StartPollingTimer_def ClientPolling_DoPoll_def)

text \<open>The responses after which polling goes on.\<close>

definition client_goes_on :: "wire \<Rightarrow> PollResult \<Rightarrow> bool" where
  "client_goes_on W res \<longleftrightarrow> res_error res \<or> res_status res = 304 \<or> (res_status res \<noteq> 200 \<and> IsRecoverableStatus (res_status res)) \<or>
     (res_status res = 200 \<and>
       (\<exists>body. res_body res = Some body \<and> (\<forall>now h. fst (Client_HandleMessage W now ''put'' body h) \<noteq> Threw)))"

lemma client_timer:
  assumes "client_goes_on W res"
  shows "cp_timer (snd (ClientPolling_HandlePollResult W now res s)) \<noteq> None"
proof -
  have "fst (client_poll_body W now res s) = Returned True" for s
    using assms unfolding client_goes_on_def
    by (auto simp: client_poll_body_def Let_def case_prod_unfold split: outcome.split)
      (metis outcome.exhaust outcome_bind.simps)+
  then show ?thesis
    by (auto simp: ClientPolling_HandlePollResult_def ClientPolling_StartPollingTimer_def Let_def
        split: prod.splits outcome.splits) (metis fst_conv outcome.distinct(1) outcome.inject)+
qed

lemma polling_open:
  assumes "client_polling W (client_goes_on W) s t" and "0 < cp_open s \<or> cp_timer s \<noteq> None"
  shows "0 < cp_open t \<or> cp_timer t \<noteq> None"
  using assms by induction (auto simp: ClientPolling_DoPoll_def dest: client_timer)

lemma Start_open: "cp_valid s \<Longrightarrow> 0 < cp_open (ClientPolling_Start now s)"
  by (simp add: ClientPolling_Start_def ClientPolling_DoPoll_def cp_set_def Let_def)

section \<open>The promise of starting\<close>

definition decides :: "DataSourceState option \<Rightarrow> bool" where
  "decides s \<longleftrightarrow> s \<notin> {None, Some dsInitializing, Some dsInterrupted}"

lemma perform_announced:
  assumes "sm_state m = dsInitializing"
  shows "decides (requested op) \<Longrightarrow>
      \<exists>st. StatusManager.announced (status_perform op m) = StatusManager.announced m @ [st] \<and> Some (ds_state st) = requested op"
    and "\<not> decides (requested op) \<Longrightarrow> sm_state (status_perform op m) = dsInitializing \<and>
      (\<exists>sts. StatusManager.announced (status_perform op m) = StatusManager.announced m @ sts \<and> (\<forall>st \<in> set sts. ds_state st = dsInitializing))"
  using assms
  by (cases op; auto simp: decides_def SetState_cases SetState_code_def SetState_kind_def SetError_kind_def SetError_code_def
      UpdateState_state Status_def)+

lemma announced_grows: "\<exists>sts. StatusManager.announced (fold status_perform ops m) = StatusManager.announced m @ sts"
proof (induction ops arbitrary: m)
  case (Cons op ops)
  have "\<exists>sts. StatusManager.announced (status_perform op m) = StatusManager.announced m @ sts"
    by (cases op) (simp_all add: SetState_cases SetState_code_def SetState_kind_def SetError_kind_def SetError_code_def UpdateState_state)
  then show ?case using Cons [of "status_perform op m"] by auto
qed simp

lemma find_append: "List.find P (xs @ ys) = (case List.find P xs of Some x \<Rightarrow> Some x | None \<Rightarrow> List.find P ys)"
  by (induction xs) auto

lemma find_skips: "\<forall>x \<in> set xs. \<not> P x \<Longrightarrow> List.find P (xs @ y # ys) = (if P y then Some y else List.find P ys)"
  by (simp add: find_append find_None_iff [THEN iffD2])

lemma promise_resolved:
  assumes "sm_state m = dsInitializing" and "\<forall>st \<in> set (StatusManager.announced m). ds_state st = dsInitializing"
  shows "start_promise (StatusManager.announced (fold status_perform ops m)) =
    map_option (IsInitializedSuccessfully \<circ> the) (List.find decides (map requested ops))"
  using assms
proof (induction ops arbitrary: m)
  case Nil
  then show ?case by (auto simp: start_promise_def find_None_iff)
next
  case (Cons op ops)
  show ?case
  proof (cases "decides (requested op)")
    case True
    then obtain st where st: "StatusManager.announced (status_perform op m) = StatusManager.announced m @ [st]" "Some (ds_state st) = requested op"
      using perform_announced(1) [OF Cons.prems(1)] by blast
    obtain sts where "StatusManager.announced (fold status_perform ops (status_perform op m)) = StatusManager.announced m @ st # sts"
      using announced_grows [of ops "status_perform op m"] st(1) by auto
    moreover have "ds_state st \<noteq> dsInitializing" "the (requested op) = ds_state st" using True st(2) by (auto simp: decides_def)
    ultimately show ?thesis
      using True Cons.prems(2) by (simp add: start_promise_def find_skips)
  next
    case False
    have init: "sm_state (status_perform op m) = dsInitializing"
      and quiet: "\<forall>st \<in> set (StatusManager.announced (status_perform op m)). ds_state st = dsInitializing"
      using perform_announced(2) [OF Cons.prems(1) False] Cons.prems(2) by auto
    show ?thesis using Cons.IH [OF init quiet] False by simp
  qed
qed

section \<open>Properties\<close>

text \<open>
  C14. When a variation of the client returns. The recursion into evaluated prerequisites comes
  to an end exactly when no flag that is reached is a prerequisite of itself, and then as many
  steps as the store has flags, and one more, are enough. Data with such a cycle, which the
  code accepts, makes the call never return.
\<close>

theorem client_variation_returns:
  "((\<exists>n. Client_VariationInternal n c now key dflt check_type detailed \<noteq> None) \<longleftrightarrow> \<not> reaches_cycle c key) \<and>
   (Client_VariationInternal (Suc (length (cl_store c))) c now key dflt check_type detailed \<noteq> None \<longleftrightarrow> \<not> reaches_cycle c key)"
  using variation_never variation_returns [OF _ lessI] by metis

text \<open>
  C15. What it gives and reports. The value is the flag's, or the default with the error when the
  flag is unknown, or of a type other than the default's when the type is checked; so a checked
  value has the type of the default. The last event is that of the flag and has
  the value and the variation that the application got. More fuel changes nothing.
\<close>

theorem client_variation_reports:
  assumes "Client_VariationInternal n c now key dflt check_type detailed = Some (detail, sent)"
  shows "detail =
      (case Option.bind (FlagStore_Get key (cl_store c)) descr_item of
         None \<Rightarrow> EvaluationDetail_error (if \<not> Client_Initialized c then kClientNotReady else kFlagNotFound) dflt
       | Some flag \<Rightarrow>
           if check_type \<and> Type dflt \<noteq> kNull \<and> Type (er_value flag) \<noteq> Type dflt then EvaluationDetail_error kWrongType dflt
           else EvaluationDetail3 (er_value flag) (er_variation_index flag) (er_reason flag)) \<and>
    (check_type \<and> Type dflt \<noteq> kNull \<longrightarrow> Type (detail_value detail) = Type dflt) \<and>
    (if cl_reporting c
     then \<exists>p. sent \<noteq> [] \<and> last sent = InFeature p \<and> fp_key p = key \<and> fp_context p = cl_context c \<and> fp_default p = dflt \<and>
       fp_value p = detail_value detail \<and> fp_variation p = variation_index detail
     else sent = []) \<and>
    (\<forall>m \<ge> n. Client_VariationInternal m c now key dflt check_type detailed = Some (detail, sent))"
proof -
  obtain prereqs own where sent: "sent = prereqs @ own" and own: "client_reports c key dflt detail own"
    and detail: "detail = client_detail c key dflt check_type" and quiet: "\<not> cl_reporting c \<longrightarrow> prereqs = []"
    by (rule variation_shape [OF assms])
  have "check_type \<and> Type dflt \<noteq> kNull \<longrightarrow> Type (detail_value detail) = Type dflt"
    by (auto simp: detail client_detail_def EvaluationDetail_error_def EvaluationDetail3_def split: option.split)
  moreover have "if cl_reporting c
     then \<exists>p. sent \<noteq> [] \<and> last sent = InFeature p \<and> fp_key p = key \<and> fp_context p = cl_context c \<and> fp_default p = dflt \<and>
       fp_value p = detail_value detail \<and> fp_variation p = variation_index detail
     else sent = []"
    using own quiet unfolding sent client_reports_def by auto
  ultimately show ?thesis
    using more_fuel [OF assms] detail unfolding client_detail_def live_flag_def by blast
qed

text \<open>
  C35. Entity tags hide content. A response's tag is noted before its body is looked at. As long as
  the responses carry the noted tag, flags and status stay as they are, whatever the responses
  are: after a body that could not be read the client never gets the flags, and after
  a failed poll its status stays interrupted although polls succeed again.
\<close>

theorem etag_hides_content:
  assumes "client_polling W (\<lambda>res. headers_find ''etag'' (res_headers res) = Some e) s t"
    and "s = snd (ClientPolling_HandlePollResult W now res s0)"
    and "headers_find ''etag'' (res_headers res) = Some e \<or>
      headers_find ''etag'' (res_headers res) = None \<and> cp_etag s0 = Some e"
  shows "cp_handler t = cp_handler s \<and> cp_etag t = Some e"
proof (rule tagged_run)
  show "client_polling W (tagged e) s t" using assms(1) by (simp add: tagged_def [abs_def])
  show "cp_etag s = Some e" using assms(2,3) by (auto simp: HandlePollResult_etag)
qed

text \<open>
  Polling on the client goes on. From a start with a valid request, while every response is a
  failure that may be retried, a 304 or a 200 with a body whose handling throws nothing, there
  is always a request under way or a timer that will make one.
\<close>

theorem client_polling_goes_on:
  assumes "client_polling W
      (\<lambda>res. res_error res \<or> res_status res = 304 \<or> (res_status res \<noteq> 200 \<and> IsRecoverableStatus (res_status res)) \<or>
         (res_status res = 200 \<and>
           (\<exists>body. res_body res = Some body \<and> (\<forall>now h. fst (Client_HandleMessage W now ''put'' body h) \<noteq> Threw))))
      (ClientPolling_Start now s) t"
    and "cp_valid s"
  shows "0 < cp_open t \<or> cp_timer t \<noteq> None"
proof (rule polling_open)
  show "client_polling W (client_goes_on W) (ClientPolling_Start now s) t" using assms(1) by (simp add: client_goes_on_def [abs_def])
  show "0 < cp_open (ClientPolling_Start now s) \<or> cp_timer (ClientPolling_Start now s) \<noteq> None"
    using Start_open [OF assms(2)] by blast
qed

text \<open>
  C36. The promise of starting. Whatever a data source does to the status of a new client, the
  promise is resolved by the first request for a state other than initializing and interrupted:
  with success for valid and for offline, and with failure for a shut down source. Errors that
  are retried never resolve it.
\<close>

theorem start_promise_resolved:
  "start_promise (StatusManager.announced (fold status_perform ops (StatusManager_new now))) =
     map_option (\<lambda>s. s = Some dsValid \<or> s = Some dsSetOffline)
       (List.find (\<lambda>s. s \<notin> {None, Some dsInitializing, Some dsInterrupted}) (map requested ops))"
proof -
  have "IsInitializedSuccessfully (the s) = (s = Some dsValid \<or> s = Some dsSetOffline)" if "decides s" for s
    using that by (auto simp: decides_def IsInitializedSuccessfully_def)
  moreover have "decides s" if "List.find decides ss = Some s" for s ss
    using that by (auto simp: find_Some_iff)
  ultimately have "map_option (IsInitializedSuccessfully \<circ> the) (List.find decides (map requested ops)) =
      map_option (\<lambda>s. s = Some dsValid \<or> s = Some dsSetOffline) (List.find decides (map requested ops))"
    by (cases "List.find decides (map requested ops)") auto
  then show ?thesis
    using promise_resolved [of "StatusManager_new now" ops] by (simp add: StatusManager_new_def decides_def [abs_def])
qed

section \<open>Examples\<close>

text \<open>A client with a flag and its prerequisite, and one that polls what it cannot read.\<close>

definition two_flags :: Client where
  "two_flags =
     \<lparr>cl_manager =
        \<lparr>fp_updater =
           \<lparr>fu_store =
              [(''a'', ClientDescriptor_of ((sample_result 1)\<lparr>er_value := VBool True, er_prerequisites := Some [''b'']\<rparr>)),
               (''b'', ClientDescriptor_of (sample_result 2))],
            fu_signals = [], dispatched = []\<rparr>,
         fp_persistence = None, max_cached_contexts = 5\<rparr>,
      cl_status = StatusManager_new 0, cl_context = sample_context, eval_reasons_available = False, cl_reporting = True\<rparr>"

theorem client_variation_reports_witness:
  "\<exists>detail sent p. Client_VariationInternal 3 two_flags 7 ''a'' (VBool False) True False = Some (detail, sent) \<and>
     detail_value detail = VBool True \<and> last sent = InFeature p \<and> fp_key p = ''a'' \<and> fp_value p = VBool True"
proof -
  obtain detail sent where v: "Client_VariationInternal 3 two_flags 7 ''a'' (VBool False) True False = Some (detail, sent)"
  proof -
    have "Client_VariationInternal 3 two_flags 7 ''a'' (VBool False) True False \<noteq> None"
      by (simp add: numeral_3_eq_3 two_flags_def FlagStore_Get_def ClientDescriptor_of_def sample_result_def Let_def)
    then show thesis using that by fast
  qed
  then show ?thesis
    using client_variation_reports [OF v]
    by (auto simp: two_flags_def FlagStore_Get_def ClientDescriptor_of_def EvaluationDetail3_def)
qed

definition unreadable :: wire where
  "unreadable = \<lparr>wire_numbers = sample_numbers, json_parse = (\<lambda>_. None), iequals = (=)\<rparr>"

definition tagged_body :: "string \<Rightarrow> PollResult" where
  "tagged_body body =
     \<lparr>res_error = False, res_status = 200, res_headers = [(''etag'', ''v1'')], res_body = Some body, res_error_message = None\<rparr>"

definition first_poll :: ClientPolling where
  "first_poll = ClientPolling_Start 0 (ClientPolling_new 30 30 True []
     \<lparr>ch_updater = \<lparr>fu_store = [], fu_signals = [], dispatched = []\<rparr>, ch_status = StatusManager_new 0\<rparr>)"

definition after_first :: ClientPolling where
  "after_first = snd (ClientPolling_HandlePollResult unreadable 1 (tagged_body ''<'') (first_poll\<lparr>cp_open := 0\<rparr>))"

definition polled_again :: ClientPolling where
  "polled_again = snd (ClientPolling_HandlePollResult unreadable 32 (tagged_body ''{}'')
     ((ClientPolling_DoPoll 31 (after_first\<lparr>cp_timer := None\<rparr>))\<lparr>cp_open := 0\<rparr>))"

lemmas first_poll_defs = first_poll_def ClientPolling_Start_def ClientPolling_new_def ClientPolling_DoPoll_def cp_set_def

lemma after_first_eq: "cp_open first_poll = 1" "cp_open after_first = 0" "cp_timer after_first \<noteq> None"
  "sm_state (ch_status (cp_handler after_first)) = dsInitializing" "fu_store (ch_updater (cp_handler after_first)) = []"
  by (simp_all add: after_first_def ClientPolling_HandlePollResult_def tagged_body_def headers_find_def first_poll_defs
      cp_note_etag_def client_poll_body_def Client_HandleMessage_def unreadable_def ch_SetError_def SetError_kind_def announce_def
      ClientPolling_StartPollingTimer_def SetState_def UpdateState_def StatusManager_new_def Let_def)

theorem etag_hides_content_witness:
  "headers_find ''etag'' (res_headers (tagged_body ''{}'')) = Some ''v1'' \<and>
   sm_state (ch_status (cp_handler polled_again)) = dsInitializing \<and> fu_store (ch_updater (cp_handler polled_again)) = []"
proof -
  let ?run = "client_polling unreadable (\<lambda>res. headers_find ''etag'' (res_headers res) = Some ''v1'') after_first"
  have tag: "headers_find ''etag'' (res_headers (tagged_body b)) = Some ''v1''" for b
    by (simp add: tagged_body_def headers_find_def)
  have "?run (ClientPolling_DoPoll 31 (after_first\<lparr>cp_timer := None\<rparr>))"
    by (rule cp_expires [OF cp_refl after_first_eq(3)])
  from cp_result [OF this, of "tagged_body ''{}''" 32] have "?run polled_again"
    using tag after_first_eq(2) by (simp add: polled_again_def ClientPolling_DoPoll_def)
  from etag_hides_content [OF this after_first_def] tag after_first_eq(4,5) show ?thesis by simp
qed

theorem client_polling_goes_on_witness:
  "0 < cp_open (ClientPolling_DoPoll 31 (after_first\<lparr>cp_timer := None\<rparr>)) \<or>
     cp_timer (ClientPolling_DoPoll 31 (after_first\<lparr>cp_timer := None\<rparr>)) \<noteq> None"
proof -
  let ?P = "\<lambda>res. res_error res \<or> res_status res = 304 \<or> (res_status res \<noteq> 200 \<and> IsRecoverableStatus (res_status res)) \<or>
         (res_status res = 200 \<and>
           (\<exists>body. res_body res = Some body \<and> (\<forall>now h. fst (Client_HandleMessage unreadable now ''put'' body h) \<noteq> Threw)))"
  have ok: "?P (tagged_body b)" for b
    by (simp add: tagged_body_def Client_HandleMessage_def unreadable_def)
  have one: "client_polling unreadable ?P first_poll after_first"
    using cp_result [OF cp_refl, of first_poll ?P "tagged_body ''<''" unreadable 1] ok after_first_eq(1)
    by (simp add: after_first_def)
  have "client_polling unreadable ?P first_poll (ClientPolling_DoPoll 31 (after_first\<lparr>cp_timer := None\<rparr>))"
    by (rule cp_expires [OF one after_first_eq(3)])
  from client_polling_goes_on [OF this [unfolded first_poll_def]] show ?thesis
    by (simp add: ClientPolling_new_def)
qed

end
