(* ===== verification/Encoding.thy ===== *)
theory Encoding
  imports Prelude
begin

text \<open>
  The URL-safe base64 encoding of \<^verbatim>\<open>libs/internal/src/encoding/base_64.cpp\<close>. A
  \<^verbatim>\<open>std::bitset<6>\<close> is the list of its bits from the lowest. Sizes are natural numbers: eight times
  the size of a string that exists fits into \<^verbatim>\<open>std::size_t\<close>. The lemmas show that the text can be
  decoded and what it consists of.
\<close>

definition kBase64Table :: string where
  "kBase64Table = ''ABCDEFGHIJKLMNOPQRSTUVWXYZabcdefghijklmnopqrstuvwxyz0123456789-_''"

text \<open>The test of one bit of a character with a mask, bit 0 being the highest of the first byte.\<close>

definition input_bit :: "string \<Rightarrow> nat \<Rightarrow> bool" where
  "input_bit input bit_index = bit (of_char (input ! (bit_index div 8)) :: nat) (7 - bit_index mod 8)"

definition GetBits :: "nat \<Rightarrow> nat \<Rightarrow> string \<Rightarrow> bool list" where
  "GetBits start_bit count input =
     fold (\<lambda>out_index out_set. out_set[5 - out_index := input_bit input (start_bit + out_index)])
       [0..<count] (replicate 6 False)"

definition to_ulong :: "bool list \<Rightarrow> nat" where
  "to_ulong bits = horner_sum of_bool 2 bits"

function encode_from :: "string \<Rightarrow> nat \<Rightarrow> string" where
  "encode_from input bit_index =
     (if bit_index < length input * 8
      then kBase64Table ! to_ulong (GetBits bit_index (min 6 (length input * 8 - bit_index)) input)
             # encode_from input (bit_index + 6)
      else [])"
  by pat_completeness auto
termination by (relation "measure (\<lambda>(input, bit_index). length input * 8 - bit_index)") auto

declare encode_from.simps [simp del]

definition Base64UrlEncode :: "string \<Rightarrow> string" where
  "Base64UrlEncode input =
     (let out = encode_from input 0
      in if length out mod 4 \<noteq> 0 then out @ replicate (4 - length out mod 4) CHR ''='' else out)"

section \<open>A decoder\<close>

text \<open>
  What the encoding means, after section 5 of RFC 4648 and not by the table of the code: the
  letters, the digits, minus and underscore stand for the numbers below 64 in this order. The
  numbers of the characters before the padding, six bits each from the highest, are cut into bytes;
  what is left over is dropped.
\<close>

definition url_safe :: "char \<Rightarrow> bool" where
  "url_safe ch \<longleftrightarrow>
     CHR ''A'' \<le> ch \<and> ch \<le> CHR ''Z'' \<or> CHR ''a'' \<le> ch \<and> ch \<le> CHR ''z'' \<or> CHR ''0'' \<le> ch \<and> ch \<le> CHR ''9'' \<or>
     ch = CHR ''-'' \<or> ch = CHR ''_''"

definition high_bits :: "nat \<Rightarrow> nat \<Rightarrow> bool list" where
  "high_bits n x = map (bit x) (rev [0..<n])"

definition char_index :: "char \<Rightarrow> nat" where
  "char_index ch =
     (if CHR ''A'' \<le> ch \<and> ch \<le> CHR ''Z'' then of_char ch - 65
      else if CHR ''a'' \<le> ch \<and> ch \<le> CHR ''z'' then of_char ch - 97 + 26
      else if CHR ''0'' \<le> ch \<and> ch \<le> CHR ''9'' then of_char ch - 48 + 52
      else if ch = CHR ''-'' then 62
      else 63)"

fun bytes_of :: "bool list \<Rightarrow> string" where
  "bytes_of (b7 # b6 # b5 # b4 # b3 # b2 # b1 # b0 # bs) =
     char_of (horner_sum of_bool 2 [b0, b1, b2, b3, b4, b5, b6, b7] :: nat) # bytes_of bs"
| "bytes_of _ = []"

definition Base64Url_decode :: "string \<Rightarrow> string" where
  "Base64Url_decode out = bytes_of (concat (map (high_bits 6 \<circ> char_index) (takeWhile (\<lambda>ch. ch \<noteq> CHR ''='') out)))"

section \<open>Decoding\<close>

definition input_bits :: "string \<Rightarrow> bool list" where
  "input_bits input = concat (map (\<lambda>ch. high_bits 8 (of_char ch)) input)"

lemma length_high_bits [simp]: "length (high_bits n x) = n"
  by (simp add: high_bits_def)

lemma length_input_bits [simp]: "length (input_bits input) = length input * 8"
  by (induction input) (simp_all add: input_bits_def)

lemma nth_input_bits: "i < length input * 8 \<Longrightarrow> input_bits input ! i = input_bit input i"
proof (induction input arbitrary: i)
  case (Cons ch input)
  show ?case
  proof (cases "i < 8")
    case True
    then show ?thesis by (simp add: input_bits_def nth_append high_bits_def input_bit_def rev_nth)
  next
    case False
    then have "input_bits (ch # input) ! i = input_bit input (i - 8)"
      using Cons by (simp add: input_bits_def nth_append)
    moreover have "i div 8 = Suc ((i - 8) div 8)" "i mod 8 = (i - 8) mod 8"
      using False by (simp_all add: le_div_geq le_mod_geq)
    ultimately show ?thesis by (simp add: input_bit_def)
  qed
qed simp

text \<open>The bit set from its highest bit: the bits asked for, and zeros.\<close>

lemma GetBits_nth:
  assumes "count \<le> 6"
  shows "length (GetBits start_bit count input) = 6"
    and "j < 6 \<Longrightarrow> GetBits start_bit count input ! (5 - j) = (j < count \<and> input_bit input (start_bit + j))"
proof -
  have "length (fold (\<lambda>out_index out_set. out_set[5 - out_index := input_bit input (start_bit + out_index)]) [0..<count] bs) = length bs"
    for bs :: "bool list" by (induction count) simp_all
  then show "length (GetBits start_bit count input) = 6" by (simp add: GetBits_def)
  have "fold (\<lambda>out_index out_set. out_set[5 - out_index := input_bit input (start_bit + out_index)]) [0..<m] (replicate 6 False) ! (5 - j) =
      (j < m \<and> input_bit input (start_bit + j)) \<and>
      length (fold (\<lambda>out_index out_set. out_set[5 - out_index := input_bit input (start_bit + out_index)]) [0..<m] (replicate 6 False)) = 6"
    if "m \<le> 6" "j < 6" for m j
  proof (use that in \<open>induction m\<close>)
    case (Suc m)
    have "5 - m = 5 - j \<longleftrightarrow> m = j" using Suc.prems by auto
    then show ?case using Suc by (auto simp: nth_list_update less_Suc_eq)
  qed simp
  then show "j < 6 \<Longrightarrow> GetBits start_bit count input ! (5 - j) = (j < count \<and> input_bit input (start_bit + j))"
    using assms by (simp add: GetBits_def)
qed

lemma high_bits_ulong:
  assumes "length bs = 6"
  shows "high_bits 6 (to_ulong bs) = rev bs" and "to_ulong bs < 64"
proof -
  show "high_bits 6 (to_ulong bs) = rev bs"
    using assms by (intro nth_equalityI)
      (auto simp: high_bits_def to_ulong_def bit_horner_sum_bit_iff rev_nth)
  have "to_ulong bs < 2 ^ length bs" unfolding to_ulong_def by (induction bs) (auto simp: horner_sum_simps)
  then show "to_ulong bs < 64" using assms by simp
qed

lemma table_length: "length kBase64Table = 64"
  by (simp add: kBase64Table_def)

lemma table_url_safe: "list_all url_safe kBase64Table"
  by code_simp

lemma table_indices: "map char_index kBase64Table = [0..<64]"
  by code_simp

lemma char_index_nth: "i < 64 \<Longrightarrow> char_index (kBase64Table ! i) = i"
  using arg_cong [OF table_indices, of "\<lambda>xs. xs ! i"] by (simp add: table_length)

lemma padding_not_safe: "\<not> url_safe CHR ''=''"
  by code_simp

definition six_bits :: "string \<Rightarrow> nat \<Rightarrow> bool list" where
  "six_bits input i = take 6 (drop i (input_bits input) @ replicate 6 False)"

lemma rev_GetBits:
  assumes "i < length input * 8"
  shows "rev (GetBits i (min 6 (length input * 8 - i)) input) = six_bits input i"
  using assms
  by (intro nth_equalityI) (auto simp: six_bits_def GetBits_nth rev_nth nth_append nth_input_bits)

lemma encoded_char:
  assumes "i < length input * 8"
  shows "high_bits 6 (char_index (kBase64Table ! to_ulong (GetBits i (min 6 (length input * 8 - i)) input))) = six_bits input i"
    and "url_safe (kBase64Table ! to_ulong (GetBits i (min 6 (length input * 8 - i)) input))"
  using high_bits_ulong [of "GetBits i (min 6 (length input * 8 - i)) input"] assms table_length table_url_safe
  by (simp_all add: GetBits_nth char_index_nth rev_GetBits list_all_length)

text \<open>The decoded bits are those of the input, and zeros up to a multiple of six.\<close>

lemma encode_from_bits:
  "\<exists>z. z < 6 \<and> concat (map (high_bits 6 \<circ> char_index) (encode_from input i)) = drop i (input_bits input) @ replicate z False"
proof (induction input i rule: encode_from.induct)
  case (1 input i)
  show ?case
  proof (cases "i < length input * 8")
    case True
    with 1 obtain z where z: "z < 6"
      "concat (map (high_bits 6 \<circ> char_index) (encode_from input (i + 6))) = drop (i + 6) (input_bits input) @ replicate z False"
      by blast
    have all: "concat (map (high_bits 6 \<circ> char_index) (encode_from input i)) =
        six_bits input i @ drop (i + 6) (input_bits input) @ replicate z False"
      using True z(2) by (subst encode_from.simps) (simp add: encoded_char comp_def)
    show ?thesis
    proof (cases "i + 6 \<le> length input * 8")
      case True
      then have "six_bits input i = take 6 (drop i (input_bits input))" by (simp add: six_bits_def)
      then have "six_bits input i @ drop (i + 6) (input_bits input) = drop i (input_bits input)"
        using append_take_drop_id [of 6 "drop i (input_bits input)"] by (simp add: add.commute)
      then show ?thesis using all z(1) by (metis append_assoc)
    next
      case False
      then have "encode_from input (i + 6) = []" by (subst encode_from.simps) simp
      then have "concat (map (high_bits 6 \<circ> char_index) (encode_from input i)) = six_bits input i"
        using all z(2) by simp
      also have "six_bits input i = drop i (input_bits input) @ replicate (6 - (length input * 8 - i)) False"
        using False by (simp add: six_bits_def)
      finally have "concat (map (high_bits 6 \<circ> char_index) (encode_from input i)) =
        drop i (input_bits input) @ replicate (6 - (length input * 8 - i)) False" .
      moreover have "6 - (length input * 8 - i) < 6" using \<open>i < length input * 8\<close> by simp
      ultimately show ?thesis by blast
    qed
  next
    case False
    then show ?thesis by (subst encode_from.simps) (auto intro!: exI [of _ 0])
  qed
qed

lemma encode_from_alphabet: "list_all url_safe (encode_from input i)"
proof (induction input i rule: encode_from.induct)
  case (1 input i)
  then show ?case by (subst encode_from.simps) (auto simp: encoded_char)
qed

lemma started_groups:
  assumes "0 < m"
  shows "Suc ((m - 6 + 5) div 6) = (m + 5) div (6 :: nat)"
proof -
  have "(m + 5) div 6 = Suc ((m - 1) div 6)" using div_add_self2 [of 6 "m - 1"] assms by simp
  moreover have "(m - 6 + 5) div 6 = (m - 1) div 6"
  proof (cases "6 \<le> m")
    case True
    then have "m - 6 + 5 = m - 1" by simp
    then show ?thesis by (simp only:)
  next
    case False
    then show ?thesis by (simp add: div_less)
  qed
  ultimately show ?thesis by (simp only:)
qed

lemma length_encode_from: "length (encode_from input i) = (length input * 8 - i + 5) div 6"
proof (induction input i rule: encode_from.induct)
  case (1 input i)
  show ?case
  proof (cases "i < length input * 8")
    case True
    then have "length (encode_from input i) = Suc (length (encode_from input (i + 6)))"
      by (subst encode_from.simps) (simp only: if_True list.size(4) add_0_right add_Suc_right)
    also have "\<dots> = Suc ((length input * 8 - i - 6 + 5) div 6)" using 1 [OF True] by (simp only: diff_diff_left)
    also have "\<dots> = (length input * 8 - i + 5) div 6" by (rule started_groups) (use True in simp)
    finally show ?thesis .
  next
    case False
    then show ?thesis by (subst encode_from.simps) simp
  qed
qed

lemma high_bits_8: "high_bits 8 x = [bit x 7, bit x 6, bit x 5, bit x 4, bit x 3, bit x 2, bit x 1, bit x 0]"
  by (simp add: high_bits_def upt_rec numeral_eq_Suc)

lemma byte_back: "char_of (horner_sum of_bool 2 (map (bit (of_char ch :: nat)) [0, 1, 2, 3, 4, 5, 6, 7]) :: nat) = ch"
proof -
  have "horner_sum of_bool 2 (map (bit (of_char ch :: nat)) [0..<8]) = (of_char ch :: nat)"
    by (subst horner_sum_bit_eq_take_bit) (simp add: take_bit_nat_eq_self)
  moreover have "[0..<8] = [0, 1, 2, 3, 4, 5, 6, 7 :: nat]" by (simp add: upt_rec numeral_eq_Suc)
  ultimately show ?thesis by simp
qed

lemma bytes_of_short: "length bs < 8 \<Longrightarrow> bytes_of bs = []"
  by (induction bs rule: bytes_of.induct) auto

lemma bytes_of_bits: "length rest < 8 \<Longrightarrow> bytes_of (input_bits input @ rest) = input"
proof (induction input)
  case Nil
  then show ?case by (simp add: input_bits_def bytes_of_short)
next
  case (Cons ch input)
  have "input_bits (ch # input) = high_bits 8 (of_char ch) @ input_bits input" by (simp add: input_bits_def)
  then show ?case using Cons byte_back [of ch] by (simp add: high_bits_8)
qed

lemma takeWhile_padding:
  assumes "CHR ''='' \<notin> set out"
  shows "takeWhile (\<lambda>ch. ch \<noteq> CHR ''='') (out @ replicate n CHR ''='') = out"
proof -
  have "takeWhile (\<lambda>ch. ch \<noteq> CHR ''='') (replicate n CHR ''='') = []" by (cases n) simp_all
  moreover have "\<forall>x \<in> set out. x \<noteq> CHR ''=''" using assms by metis
  ultimately show ?thesis by (simp add: takeWhile_append2)
qed

lemma padded_length:
  fixes n :: nat
  shows "(n * 8 + 5) div 6 + (4 - (n * 8 + 5) div 6 mod 4) mod 4 = n div 3 * 4 + (if n mod 3 \<noteq> 0 then 4 else 0)"
    and "(4 - (n * 8 + 5) div 6 mod 4) mod 4 \<le> 2"
proof -
  obtain q r where n: "n = 3 * q + r" "r < 3" using mod_less_divisor [of 3 n] mult_div_mod_eq [of 3 n] by (metis zero_less_numeral)
  have six: "(n * 8 + 5) div 6 = 4 * q + (8 * r + 5) div 6"
  proof -
    have "n * 8 + 5 = (8 * r + 5) + 6 * (4 * q)" using n(1) by simp
    then show ?thesis by simp
  qed
  have r: "r = 0 \<or> r = 1 \<or> r = 2" using n(2) by linarith
  have rest: "(8 * r + 5) div 6 + (4 - (8 * r + 5) div 6 mod 4) mod 4 = (if r = 0 then 0 else 4)"
    "(4 - (8 * r + 5) div 6 mod 4) mod 4 \<le> 2"
    using r by auto
  have quad: "(4 * q + x) mod 4 = x mod 4" for x :: nat by simp
  have "n div 3 = q" "n mod 3 = r" using n by simp_all
  then show "(n * 8 + 5) div 6 + (4 - (n * 8 + 5) div 6 mod 4) mod 4 = n div 3 * 4 + (if n mod 3 \<noteq> 0 then 4 else 0)"
    using rest(1) unfolding six quad by simp
  show "(4 - (n * 8 + 5) div 6 mod 4) mod 4 \<le> 2" using rest(2) unfolding six quad .
qed

section \<open>Properties\<close>

text \<open>
  C34. The encoding loses nothing: decoding it with the alphabet of RFC 4648 gives the text back. It
  is safe in a URL path: only the letters from A to Z and from a to z, the digits, minus and
  underscore, and at most two padding characters, equals signs, at the end; its
  length is four for every started group of three bytes, as much as is reserved.
\<close>

theorem Base64UrlEncode_decodes:
  "Base64Url_decode (Base64UrlEncode input) = input \<and>
   length (Base64UrlEncode input) = length input div 3 * 4 + (if length input mod 3 \<noteq> 0 then 4 else 0) \<and>
   (\<exists>n. n \<le> 2 \<and> (\<exists>out. Base64UrlEncode input = out @ replicate n CHR ''='' \<and> list_all url_safe out))"
proof -
  let ?out = "encode_from input 0"
  let ?n = "(4 - length ?out mod 4) mod 4"
  have enc: "Base64UrlEncode input = ?out @ replicate ?n CHR ''=''"
    by (simp add: Base64UrlEncode_def Let_def)
  have len: "length ?out = (length input * 8 + 5) div 6" by (simp add: length_encode_from)
  obtain z where z: "z < 6" "concat (map (high_bits 6 \<circ> char_index) ?out) = input_bits input @ replicate z False"
    using encode_from_bits [of input 0] by auto
  have "CHR ''='' \<notin> set ?out" using encode_from_alphabet [of input 0] padding_not_safe by (auto simp: list_all_iff)
  then have "Base64Url_decode (Base64UrlEncode input) = input"
    using z unfolding enc Base64Url_decode_def by (simp add: takeWhile_padding bytes_of_bits)
  moreover have "length (Base64UrlEncode input) = length input div 3 * 4 + (if length input mod 3 \<noteq> 0 then 4 else 0)" and "?n \<le> 2"
    unfolding enc length_append len length_replicate by (simp_all only: padded_length)
  ultimately show ?thesis using enc encode_from_alphabet by blast
qed

end
