(* ===== verification/Backoff.thy ===== *)
theory Backoff
  imports Doubles
begin

text \<open>
  The delay between connection attempts of the event stream clients
  (\<^verbatim>\<open>libs/server-sent-events/src/backoff.cpp\<close> and \<^verbatim>\<open>backoff_detail.cpp\<close>). Durations are counts of
  milliseconds in 64 bits; the system clock is in nanoseconds and an argument. The conversion of
  a double to \<^verbatim>\<open>std::uint64_t\<close> that does not fit is undefined, which is \<open>None\<close>. The source of random
  numbers and \<^verbatim>\<open>std::log2\<close>, whose accuracy the language leaves open, are parameters. The lemmas
  bound the delay and show for which settings the computation is defined.
\<close>

section \<open>Conversions\<close>

fun cast_u64 :: "double \<Rightarrow> u64 option" where
  "cast_u64 (Fin x) = (if - 1 < x \<and> x < 2 ^ 64 then Some (word_of_int (rat_trunc x)) else None)"
| "cast_u64 _ = None"

text \<open>\<^verbatim>\<open>std::pow\<close> with base 2, which is exact.\<close>

definition pow2 :: "u64 \<Rightarrow> double" where
  "pow2 exponent = (if unat exponent < 1024 then Fin (2 ^ unat exponent) else PInf)"

text \<open>Division of counts, which truncates.\<close>

definition quotient :: "int \<Rightarrow> int \<Rightarrow> int" where
  "quotient a b = (if a < 0 then - (- a div b) else a div b)"

section \<open>The delay\<close>

definition calculate_backoff :: "i64 \<Rightarrow> u64 \<Rightarrow> u64 \<Rightarrow> i64 option" where
  "calculate_backoff initial attempt max_exponent =
     (let exponent = min (attempt - 1) max_exponent
      in map_option (\<lambda>factor. initial * factor) (cast_u64 (pow2 exponent)))"

text \<open>
  A random value that is not finite, or a product that is too large, gives an infinity or no
  number, which cannot be converted.
\<close>

definition jitter :: "i64 \<Rightarrow> double \<Rightarrow> (double \<Rightarrow> double) \<Rightarrow> i64 option" where
  "jitter base jitter_ratio random =
     (case (random jitter_ratio, to_double (of_int (sint base))) of
        (Fin j, Fin base_as_double) \<Rightarrow>
          (case to_double (j * base_as_double) of
             Fin product \<Rightarrow> cast_u64 (to_double (base_as_double - product))
           | _ \<Rightarrow> None)
      | _ \<Rightarrow> None)"

definition delay :: "i64 \<Rightarrow> i64 \<Rightarrow> u64 \<Rightarrow> u64 \<Rightarrow> double \<Rightarrow> (double \<Rightarrow> double) \<Rightarrow> i64 option" where
  "delay initial max_delay attempt max_exponent jitter_ratio random =
     Option.bind (calculate_backoff initial attempt max_exponent) (\<lambda>backoff.
       jitter (if sint max_delay < sint backoff then max_delay else backoff) jitter_ratio random)"

section \<open>The state\<close>

record Backoff =
  bo_initial :: i64
  bo_max :: i64
  bo_max_exponent :: u64
  bo_attempt :: u64
  active_since :: "int option"
  bo_jitter_ratio :: double
  reset_interval :: i64

definition max_exponent_of :: "(int \<Rightarrow> double) \<Rightarrow> i64 \<Rightarrow> i64 \<Rightarrow> u64 option" where
  "max_exponent_of log2 initial max_delay =
     (case log2 (quotient (sint max_delay) (max 1 (sint initial))) of
        Fin x \<Rightarrow> cast_u64 (Fin (of_int \<lceil>x\<rceil>))
      | _ \<Rightarrow> None)"

definition Backoff_new :: "(int \<Rightarrow> double) \<Rightarrow> i64 \<Rightarrow> i64 \<Rightarrow> double \<Rightarrow> i64 \<Rightarrow> Backoff option" where
  "Backoff_new log2 initial max_delay jitter_ratio reset =
     map_option (\<lambda>max_exponent.
         \<lparr>bo_initial = initial, bo_max = max_delay, bo_max_exponent = max_exponent, bo_attempt = 1, active_since = None,
          bo_jitter_ratio = jitter_ratio, reset_interval = reset\<rparr>)
       (max_exponent_of log2 initial max_delay)"

definition elapsed_milliseconds :: "int \<Rightarrow> int" where
  "elapsed_milliseconds d = quotient d 1000000"

definition Backoff_fail :: "int \<Rightarrow> Backoff \<Rightarrow> Backoff" where
  "Backoff_fail now b =
     (let b = (case active_since b of
          Some since \<Rightarrow>
            if elapsed_milliseconds (now - since) > sint (reset_interval b) then b\<lparr>bo_attempt := 1\<rparr>
            else b\<lparr>bo_attempt := bo_attempt b + 1\<rparr>
        | None \<Rightarrow> b\<lparr>bo_attempt := bo_attempt b + 1\<rparr>)
      in b\<lparr>active_since := None\<rparr>)"

definition Backoff_succeed :: "int \<Rightarrow> Backoff \<Rightarrow> Backoff" where
  "Backoff_succeed now b = b\<lparr>active_since := Some now\<rparr>"

definition Backoff_delay :: "(double \<Rightarrow> double) \<Rightarrow> Backoff \<Rightarrow> i64 option" where
  "Backoff_delay random b =
     delay (bo_initial b) (bo_max b) (bo_attempt b) (bo_max_exponent b) (bo_jitter_ratio b) random"

datatype BackoffOp = Fail int | Succeed int

fun backoff_perform :: "BackoffOp \<Rightarrow> Backoff \<Rightarrow> Backoff" where
  "backoff_perform (Fail now) b = Backoff_fail now b"
| "backoff_perform (Succeed now) b = Backoff_succeed now b"

section \<open>Bounds\<close>

text \<open>What is needed of the logarithm: it is on the right side of whole numbers, and minus infinity at zero.\<close>

definition good_log2 :: "(int \<Rightarrow> double) \<Rightarrow> bool" where
  "good_log2 log2 \<longleftrightarrow> log2 0 = NInf \<and>
     (\<forall>q > 0. \<exists>x. log2 q = Fin x \<and> 0 \<le> x \<and> (\<forall>k :: nat. q \<le> 2 ^ k \<longrightarrow> x \<le> of_nat k))"

lemma run_keeps:
  "bo_initial (fold backoff_perform ops b) = bo_initial b" "bo_max (fold backoff_perform ops b) = bo_max b"
  "bo_max_exponent (fold backoff_perform ops b) = bo_max_exponent b"
  "bo_jitter_ratio (fold backoff_perform ops b) = bo_jitter_ratio b"
proof -
  have one: "bo_initial (backoff_perform op b) = bo_initial b" "bo_max (backoff_perform op b) = bo_max b"
    "bo_max_exponent (backoff_perform op b) = bo_max_exponent b" "bo_jitter_ratio (backoff_perform op b) = bo_jitter_ratio b"
    for op b
    by (cases op; simp add: Backoff_fail_def Backoff_succeed_def Let_def split: option.split)+
  show "bo_initial (fold backoff_perform ops b) = bo_initial b" "bo_max (fold backoff_perform ops b) = bo_max b"
    "bo_max_exponent (fold backoff_perform ops b) = bo_max_exponent b"
    "bo_jitter_ratio (fold backoff_perform ops b) = bo_jitter_ratio b"
    by (induction ops arbitrary: b) (simp_all add: one)
qed

text \<open>The largest factor at most doubles the maximum.\<close>

lemma least_power:
  fixes q :: int
  assumes "0 < q"
  obtains k :: nat where "q \<le> 2 ^ k" and "2 ^ k < 2 * q"
proof -
  define k where "k = (LEAST k :: nat. q \<le> 2 ^ k)"
  have "q \<le> 2 ^ nat q" using of_nat_less_two_power [of "nat q", where 'a = int] assms by simp
  then have k: "q \<le> 2 ^ k" unfolding k_def by (rule LeastI)
  have "2 ^ k < 2 * q"
  proof (cases k)
    case 0
    then show ?thesis using assms by simp
  next
    case (Suc m)
    then have "\<not> q \<le> 2 ^ m" using not_less_Least [of m "\<lambda>k. q \<le> 2 ^ k"] unfolding k_def by simp
    then show ?thesis using Suc by simp
  qed
  with k show thesis by (rule that)
qed

lemma rat_trunc_of_int [simp]: "rat_trunc (of_int i) = i" "rat_trunc (2 ^ n) = 2 ^ n"
  using floor_of_int [of "2 ^ n :: int", where 'a = rat] by (simp_all add: rat_trunc_def)

lemma cast_u64_int: "0 \<le> i \<Longrightarrow> i < 2 ^ 64 \<Longrightarrow> cast_u64 (Fin (of_int i)) = Some (word_of_int i)"
proof -
  assume i: "0 \<le> i" "i < 2 ^ 64"
  have "(of_int i :: rat) < of_int (2 ^ 64)" using i(2) by (simp only: of_int_less_iff)
  then show ?thesis using i(1) by simp
qed

lemma sint_small: "0 \<le> i \<Longrightarrow> i < 2 ^ 63 \<Longrightarrow> sint (word_of_int i :: i64) = i"
  by (simp add: sint_sbintrunc' signed_take_bit_int_eq_self)

lemma uint_small: "0 \<le> i \<Longrightarrow> i < 2 ^ 64 \<Longrightarrow> uint (word_of_int i :: u64) = i"
  by (simp add: uint_word_of_int)

lemma max_exponent_bound:
  assumes "good_log2 log2" and "0 < sint initial" and "sint initial \<le> sint max_delay"
  obtains m where "max_exponent_of log2 initial max_delay = Some m" and "unat m < 64"
    and "sint initial * 2 ^ unat m < 2 * sint max_delay"
proof -
  let ?q = "sint max_delay div sint initial"
  have "?q * sint initial \<le> sint max_delay"
    using div_mult_mod_eq [of "sint max_delay" "sint initial"] pos_mod_sign [of "sint initial" "sint max_delay"] assms(2)
    by linarith
  moreover have "0 < ?q" using assms(2,3) by (simp add: pos_imp_zdiv_pos_iff)
  ultimately have q: "0 < ?q" "?q * sint initial \<le> sint max_delay" by blast+
  have small: "sint max_delay < 2 ^ 63" using sint_lt [of max_delay] by simp
  have "?q \<le> sint max_delay" using q assms(2) mult_left_mono [of 1 "sint initial" ?q] by linarith
  obtain k where k: "?q \<le> 2 ^ k" "2 ^ k < 2 * ?q" by (rule least_power [OF q(1)])
  obtain x where x: "log2 ?q = Fin x" "0 \<le> x" "x \<le> of_nat k"
    using assms(1) q(1) k(1) unfolding good_log2_def by blast
  have ceiling: "0 \<le> \<lceil>x\<rceil>" "\<lceil>x\<rceil> \<le> int k"
    using x(2) ceiling_mono [OF x(3)] by simp_all
  have "(2 :: int) ^ k < 2 ^ 64" using k(2) \<open>?q \<le> sint max_delay\<close> small by simp
  then have k64: "k < 64" using power_less_imp_less_exp [of "2 :: int" k 64] by simp
  have "\<lceil>x\<rceil> < 64" using ceiling(2) k64 by linarith
  then have fits: "\<lceil>x\<rceil> < 2 ^ 64" by (rule less_trans) simp
  let ?m = "word_of_int \<lceil>x\<rceil> :: u64"
  have "max_exponent_of log2 initial max_delay = cast_u64 (Fin (of_int \<lceil>x\<rceil>))"
    using assms(2,3) x(1) by (simp add: max_exponent_of_def quotient_def)
  also have "\<dots> = Some ?m"
    by (rule cast_u64_int [OF ceiling(1) fits])
  finally have some: "max_exponent_of log2 initial max_delay = Some ?m" .
  have "uint ?m = \<lceil>x\<rceil>" by (rule uint_small [OF ceiling(1) fits])
  then have m: "unat ?m \<le> k" using ceiling(2) by (simp add: unat_eq_nat_uint del: ceiling_le_iff)
  have "sint initial * 2 ^ unat ?m \<le> sint initial * 2 ^ k" using m assms(2) by (intro mult_left_mono power_increasing) auto
  also have "\<dots> < sint initial * (2 * ?q)" using k(2) assms(2) by (intro mult_strict_left_mono)
  also have "\<dots> \<le> 2 * sint max_delay" using q(2) by (simp add: mult.commute)
  finally have "sint initial * 2 ^ unat ?m < 2 * sint max_delay" .
  with some m k64 show thesis by (intro that) auto
qed

lemma sint_mult:
  fixes a b :: i64
  assumes "0 \<le> sint a * uint b" and "sint a * uint b < 2 ^ 63"
  shows "sint (a * b) = sint a * uint b"
proof -
  have "a * b = word_of_int (sint a * uint b)" by simp
  then show ?thesis using sint_small [OF assms] by (simp only:)
qed

lemma calculate_backoff_bounds:
  assumes "unat max_exponent < 64" and "0 < sint initial" and "sint initial * 2 ^ unat max_exponent < 2 ^ 63"
  shows "\<exists>b. calculate_backoff initial attempt max_exponent = Some b \<and>
    sint b = sint initial * 2 ^ unat (min (attempt - 1) max_exponent)"
proof -
  let ?e = "min (attempt - 1) max_exponent"
  have e: "unat ?e \<le> unat max_exponent" by (simp add: word_le_nat_alt [symmetric])
  then have less: "(2 :: int) ^ unat ?e < 2 ^ 64" using assms(1) by (intro power_strict_increasing) auto
  have cast: "cast_u64 (pow2 ?e) = Some (word_of_int (2 ^ unat ?e))"
    using cast_u64_int [of "2 ^ unat ?e"] less e assms(1) by (simp add: pow2_def del: cast_u64.simps)
  have u: "uint (word_of_int (2 ^ unat ?e) :: u64) = 2 ^ unat ?e" using less by (intro uint_small) simp_all
  have "sint initial * 2 ^ unat ?e \<le> sint initial * 2 ^ unat max_exponent"
    using e assms(2) by (intro mult_left_mono power_increasing) auto
  then have range: "sint initial * 2 ^ unat ?e < 2 ^ 63" using assms(3) by linarith
  have "sint (initial * word_of_int (2 ^ unat ?e)) = sint initial * 2 ^ unat ?e"
    using sint_mult [of initial "word_of_int (2 ^ unat ?e)", unfolded u] range assms(2) by (simp only: zero_le_mult_iff) simp
  then show ?thesis using cast by (simp add: calculate_backoff_def Let_def)
qed

lemma jitter_value:
  assumes "0 \<le> n" and "n < 2 ^ 53" and "0 \<le> j" and "j \<le> 1 / 2"
  shows "\<exists>r. to_double (of_int n) = Fin (of_int n) \<and> to_double (j * of_int n) = Fin (round_f64 (j * of_int n)) \<and>
    to_double (of_int n - round_f64 (j * of_int n)) = Fin r \<and> of_int n / 2 \<le> r \<and> r \<le> of_int n"
proof -
  let ?b = "of_int n :: rat"
  have b: "0 \<le> ?b" "?b \<le> 2 ^ 53" using assms(1,2) of_int_le_iff [of n "2 ^ 53", where 'a = rat] by simp_all
  have fin: "to_double x = Fin (round_f64 x)" if "0 \<le> x" "x \<le> ?b" for x
  proof (rule to_double_Fin)
    have "(2 :: rat) ^ 53 \<le> 2 powi 1023" using power_int_increasing [of 53 1023 "2 :: rat"] by simp
    then show "\<bar>x\<bar> \<le> 2 powi 1023" using that b by linarith
  qed
  have whole: "round_f64 ?b = ?b" using f64.rnd_int [of n] assms(1,2) by simp
  have half: "round_f64 (?b / 2) = ?b / 2"
    using round_f64_representable [of n "- 1"] assms(1,2) by (simp add: power_int_minus field_simps)
  let ?p = "round_f64 (j * ?b)"
  have product: "0 \<le> j * ?b" "j * ?b \<le> ?b / 2" using assms(3,4) b(1) mult_right_mono [of j "1 / 2" ?b] by simp_all
  then have p: "0 \<le> ?p" "?p \<le> ?b / 2" using f64.rnd_nonneg f64.rnd_mono [of "j * ?b" "?b / 2"] half by auto
  have "?b / 2 \<le> round_f64 (?b - ?p)" "round_f64 (?b - ?p) \<le> ?b"
    using f64.rnd_mono [of "?b / 2" "?b - ?p"] f64.rnd_mono [of "?b - ?p" ?b] p half whole by simp_all
  then show ?thesis using fin [of ?b] fin [of "j * ?b"] fin [of "?b - ?p"] whole product p b by simp
qed

lemma jitter_bounds:
  assumes "0 \<le> sint base" and "sint base < 2 ^ 53" and "random ratio = Fin j" and "0 \<le> j" and "j \<le> 1 / 2"
  shows "\<exists>d. jitter base ratio random = Some d \<and> sint base div 2 \<le> sint d \<and> sint d \<le> sint base"
proof -
  define n where "n = sint base"
  have n: "0 \<le> n" "n < 2 ^ 53" using assms(1,2) by (simp_all add: n_def)
  obtain r where r: "to_double (of_int n) = Fin (of_int n)" "to_double (j * of_int n) = Fin (round_f64 (j * of_int n))"
    "to_double (of_int n - round_f64 (j * of_int n)) = Fin r" "of_int n / 2 \<le> r" "r \<le> of_int n"
    using jitter_value [OF n assms(4,5)] by blast
  have "0 \<le> (of_int n :: rat)" "(of_int n :: rat) \<le> 2 ^ 53"
    using n of_int_le_iff [of n "2 ^ 53", where 'a = rat] by simp_all
  then have small: "- 1 < r" "r < 2 ^ 64" "0 \<le> r" using r(4,5) by simp_all
  have floor: "n div 2 \<le> \<lfloor>r\<rfloor>" "\<lfloor>r\<rfloor> \<le> n"
    using floor_mono [OF r(4)] floor_mono [OF r(5)] floor_divide_of_int_eq [of n 2, where 'a = rat] by simp_all
  have "jitter base ratio random = Some (word_of_int \<lfloor>r\<rfloor>)"
    unfolding jitter_def n_def [symmetric] using assms(3) r(1-3) small by (simp add: rat_trunc_def)
  moreover have "sint (word_of_int \<lfloor>r\<rfloor> :: i64) = \<lfloor>r\<rfloor>"
  proof (rule sint_small)
    show "0 \<le> \<lfloor>r\<rfloor>" using floor(1) n(1) by linarith
    show "\<lfloor>r\<rfloor> < 2 ^ 63" using le_less_trans [OF floor(2) n(2)] by simp
  qed
  ultimately show ?thesis using floor unfolding n_def [symmetric] by simp
qed

section \<open>The delay after any operations\<close>

lemma delay_after:
  assumes "good_log2 log2" and "0 < sint initial" and "sint initial \<le> sint max_delay" and "sint max_delay < 2 ^ 53"
    and "random ratio = Fin j" and "0 \<le> j" and "j \<le> 1 / 2"
  shows "\<exists>b0. Backoff_new log2 initial max_delay ratio reset = Some b0 \<and>
    (\<forall>ops. \<exists>d. Backoff_delay random (fold backoff_perform ops b0) = Some d \<and>
      (let exponential = min (sint initial * 2 ^ unat (min (bo_attempt (fold backoff_perform ops b0) - 1) (bo_max_exponent b0)))
             (sint max_delay)
       in sint initial \<le> exponential \<and> exponential div 2 \<le> sint d \<and> sint d \<le> exponential))"
proof -
  obtain m where m: "max_exponent_of log2 initial max_delay = Some m" "unat m < 64"
    "sint initial * 2 ^ unat m < 2 * sint max_delay"
    by (rule max_exponent_bound [OF assms(1-3)])
  have new: "Backoff_new log2 initial max_delay ratio reset =
      Some \<lparr>bo_initial = initial, bo_max = max_delay, bo_max_exponent = m, bo_attempt = 1, active_since = None,
        bo_jitter_ratio = ratio, reset_interval = reset\<rparr>" (is "_ = Some ?b0")
    using m(1) by (simp add: Backoff_new_def)
  have "\<exists>d. Backoff_delay random (fold backoff_perform ops ?b0) = Some d \<and>
      (let exponential = min (sint initial * 2 ^ unat (min (bo_attempt (fold backoff_perform ops ?b0) - 1) m)) (sint max_delay)
       in sint initial \<le> exponential \<and> exponential div 2 \<le> sint d \<and> sint d \<le> exponential)" for ops
  proof -
    let ?b = "fold backoff_perform ops ?b0"
    let ?grown = "sint initial * 2 ^ unat (min (bo_attempt ?b - 1) m)"
    obtain backoff where backoff: "calculate_backoff initial (bo_attempt ?b) m = Some backoff" "sint backoff = ?grown"
      using calculate_backoff_bounds [OF m(2) assms(2), of "bo_attempt ?b"] m(3) assms(4) by auto
    let ?base = "if sint max_delay < sint backoff then max_delay else backoff"
    have base: "sint ?base = min ?grown (sint max_delay)" using backoff(2) by (simp add: min_def)
    have first: "sint initial \<le> ?grown" using assms(2) mult_left_mono [of 1 "2 ^ unat (min (bo_attempt ?b - 1) m)" "sint initial"] by simp
    then have "0 \<le> sint ?base" "sint ?base < 2 ^ 53" unfolding base using assms(2-4) by simp_all
    then obtain d where "jitter ?base ratio random = Some d" "sint ?base div 2 \<le> sint d" "sint d \<le> sint ?base"
      using jitter_bounds [where base = ?base and random = random and ratio = ratio and j = j] assms(5-7) by blast
    then show ?thesis
      using backoff(1) base first assms(3) by (simp add: Backoff_delay_def delay_def run_keeps Let_def)
  qed
  then show ?thesis using new by auto
qed

lemma run_keeps_reset: "reset_interval (fold backoff_perform ops b) = reset_interval b"
proof -
  have "reset_interval (backoff_perform op b) = reset_interval b" for op b
    by (cases op) (simp_all add: Backoff_fail_def Backoff_succeed_def Let_def split: option.split)
  then show ?thesis by (induction ops arbitrary: b) simp_all
qed

lemma attempts_of_failures:
  "active_since b = None \<Longrightarrow> bo_attempt (fold backoff_perform (map Fail ts) b) = bo_attempt b + of_nat (length ts)"
proof (induction ts arbitrary: b)
  case (Cons now ts)
  have "active_since (Backoff_fail now b) = None" "bo_attempt (Backoff_fail now b) = bo_attempt b + 1"
    using Cons.prems by (simp_all add: Backoff_fail_def Let_def)
  then show ?case using Cons.IH [of "Backoff_fail now b"] by (simp add: add.assoc)
qed simp

lemma attempt_after_connection:
  "bo_attempt (fold backoff_perform (ops @ [Succeed since, Fail now]) b) =
     (if sint (reset_interval b) < elapsed_milliseconds (now - since) then 1
      else bo_attempt (fold backoff_perform ops b) + 1)"
  by (simp add: Backoff_fail_def Backoff_succeed_def Let_def run_keeps_reset)

lemma unat_min_of_nat:
  fixes m :: u64
  assumes "n < 2 ^ 64"
  shows "unat (min (of_nat n) m) = min n (unat m)"
proof -
  have "unat (of_nat n :: u64) = n" using assms by (simp add: unat_of_nat take_bit_nat_eq_self)
  then show ?thesis by (simp add: min_def word_le_nat_alt)
qed

section \<open>Properties\<close>

text \<open>
  C33. The delay is bounded. With a positive initial delay that is at most the maximum, the state
  can be constructed, and after any failures and successes the delay is defined and lies
  between half of the exponential value and that value, which is never above the maximum.
  Nothing overflows on the way.
\<close>

theorem backoff_delay_bounds:
  assumes "good_log2 log2" and "0 < sint initial" and "sint initial \<le> sint max_delay" and "sint max_delay < 2 ^ 53"
    and "random ratio = Fin j" and "0 \<le> j" and "j \<le> 1 / 2"
  shows "\<exists>b0. Backoff_new log2 initial max_delay ratio reset = Some b0 \<and>
    (\<forall>ops. \<exists>d. Backoff_delay random (fold backoff_perform ops b0) = Some d \<and>
      (let exponential = min (sint initial * 2 ^ unat (min (bo_attempt (fold backoff_perform ops b0) - 1) (bo_max_exponent b0)))
             (sint max_delay)
       in sint initial \<le> exponential \<and> exponential div 2 \<le> sint d \<and> sint d \<le> exponential))"
  using assms by (rule delay_after)

text \<open>
  C38. The delay grows with failures in a row and starts over after a connection that lasted. With
  the settings of a bounded delay, after any number of failures, fewer than 2 to the power of 64,
  without a success, the delay is between half of and the whole of the initial delay doubled once per
  failure, up to the limit of the exponent and the maximum. When a connection
  succeeds and fails after more than the reset interval, the next delay is at most the initial
  one, whatever happened before; when it fails earlier, the success does not count, and the
  attempts go on from where they were.
\<close>

theorem backoff_grows_and_restarts:
  assumes "good_log2 log2" and "0 < sint initial" and "sint initial \<le> sint max_delay" and "sint max_delay < 2 ^ 53"
    and "random ratio = Fin j" and "0 \<le> j" and "j \<le> 1 / 2"
  shows "\<exists>b0. Backoff_new log2 initial max_delay ratio reset = Some b0 \<and>
    (\<forall>ts. length ts < 2 ^ 64 \<longrightarrow>
       (\<exists>d. Backoff_delay random (fold backoff_perform (map Fail ts) b0) = Some d \<and>
         (let exponential = min (sint initial * 2 ^ min (length ts) (unat (bo_max_exponent b0))) (sint max_delay)
          in exponential div 2 \<le> sint d \<and> sint d \<le> exponential))) \<and>
    (\<forall>ops since now. sint reset < elapsed_milliseconds (now - since) \<longrightarrow>
       (\<exists>d. Backoff_delay random (fold backoff_perform (ops @ [Succeed since, Fail now]) b0) = Some d \<and>
         sint initial div 2 \<le> sint d \<and> sint d \<le> sint initial)) \<and>
    (\<forall>ops since now. elapsed_milliseconds (now - since) \<le> sint reset \<longrightarrow>
       bo_attempt (fold backoff_perform (ops @ [Succeed since, Fail now]) b0) =
         bo_attempt (fold backoff_perform ops b0) + 1)"
proof -
  obtain b0 where new: "Backoff_new log2 initial max_delay ratio reset = Some b0"
    and run: "\<And>ops. \<exists>d. Backoff_delay random (fold backoff_perform ops b0) = Some d \<and>
      (let exponential = min (sint initial * 2 ^ unat (min (bo_attempt (fold backoff_perform ops b0) - 1) (bo_max_exponent b0)))
             (sint max_delay)
       in sint initial \<le> exponential \<and> exponential div 2 \<le> sint d \<and> sint d \<le> exponential)"
    using delay_after [of log2 initial max_delay random ratio j reset, OF assms] by blast
  have b0: "bo_attempt b0 = 1" "active_since b0 = None" "reset_interval b0 = reset"
    using new by (auto simp: Backoff_new_def)
  have failures: "\<exists>d. Backoff_delay random (fold backoff_perform (map Fail ts) b0) = Some d \<and>
      (let exponential = min (sint initial * 2 ^ min (length ts) (unat (bo_max_exponent b0))) (sint max_delay)
       in exponential div 2 \<le> sint d \<and> sint d \<le> exponential)" if "length ts < 2 ^ 64" for ts
    using run [of "map Fail ts"] attempts_of_failures [OF b0(2), of ts]
    by (simp add: b0(1) unat_min_of_nat [OF that] Let_def del: fold_map) blast
  have restart: "\<exists>d. Backoff_delay random (fold backoff_perform (ops @ [Succeed since, Fail now]) b0) = Some d \<and>
      sint initial div 2 \<le> sint d \<and> sint d \<le> sint initial"
    if "sint reset < elapsed_milliseconds (now - since)" for ops since now
  proof -
    have "bo_attempt (fold backoff_perform (ops @ [Succeed since, Fail now]) b0) = 1"
      using that attempt_after_connection [of ops since now b0] b0(3) by simp
    then have first: "unat (min (bo_attempt (fold backoff_perform (ops @ [Succeed since, Fail now]) b0) - 1) (bo_max_exponent b0)) = 0"
      by simp
    show ?thesis
      using run [of "ops @ [Succeed since, Fail now]"] assms(3) unfolding first by (simp add: Let_def)
  qed
  show ?thesis
    using new failures restart attempt_after_connection [of _ _ _ b0, unfolded b0(3)]
    by (intro exI [of _ b0] conjI allI impI) (assumption | simp)+
qed

text \<open>The settings of the clients, and a logarithm that rounds up.\<close>

definition ceiling_log2 :: "int \<Rightarrow> double" where
  "ceiling_log2 q = (if q = 0 then NInf else if q < 0 then NaN else Fin (of_int (bitlen (q - 1))))"

lemma good_ceiling_log2: "good_log2 ceiling_log2"
  unfolding good_log2_def
proof (intro conjI allI impI)
  show "ceiling_log2 0 = NInf" by (simp add: ceiling_log2_def)
next
  fix q :: int
  assume q: "0 < q"
  show "\<exists>x. ceiling_log2 q = Fin x \<and> 0 \<le> x \<and> (\<forall>k :: nat. q \<le> 2 ^ k \<longrightarrow> x \<le> of_nat k)"
  proof (intro exI [of _ "of_int (bitlen (q - 1))"] conjI allI impI)
    show "ceiling_log2 q = Fin (of_int (bitlen (q - 1)))" using q by (simp add: ceiling_log2_def)
    show "0 \<le> (of_int (bitlen (q - 1)) :: rat)" by (subst of_int_0_le_iff) (rule bitlen_nonneg)
  next
    fix k :: nat
    assume "q \<le> 2 ^ k"
    then have "bitlen (q - 1) \<le> int k" using bitlen_le_iff_power [of "q - 1" "int k"] q by simp
    then have "(of_int (bitlen (q - 1)) :: rat) \<le> of_int (int k)" by (subst of_int_le_iff)
    then show "(of_int (bitlen (q - 1)) :: rat) \<le> of_nat k" by simp
  qed
qed

theorem backoff_delay_bounds_witness:
  "\<exists>b0 d. Backoff_new ceiling_log2 1000 30000 (Fin (1 / 2)) 60000 = Some b0 \<and>
     Backoff_delay (\<lambda>_. Fin (1 / 4)) (fold backoff_perform [Fail 1, Fail 2] b0) = Some d \<and> sint d \<le> 30000"
proof -
  have s: "sint (1000 :: i64) = 1000" "sint (30000 :: i64) = 30000" by simp_all
  obtain b0 where new: "Backoff_new ceiling_log2 1000 30000 (Fin (1 / 2)) 60000 = Some b0"
    and all: "\<forall>ops. \<exists>d. Backoff_delay (\<lambda>_. Fin (1 / 4)) (fold backoff_perform ops b0) = Some d \<and>
      (let exponential = min (1000 * 2 ^ unat (min (bo_attempt (fold backoff_perform ops b0) - 1) (bo_max_exponent b0))) 30000
       in 1000 \<le> exponential \<and> exponential div 2 \<le> sint d \<and> sint d \<le> exponential)"
    using backoff_delay_bounds [OF good_ceiling_log2, of 1000 30000 "\<lambda>_. Fin (1 / 4)" "Fin (1 / 2)" "1 / 4" 60000]
    unfolding s by auto
  obtain d where "Backoff_delay (\<lambda>_. Fin (1 / 4)) (fold backoff_perform [Fail 1, Fail 2] b0) = Some d" "sint d \<le> 30000"
    using all [THEN spec, of "[Fail 1, Fail 2]"] unfolding Let_def by (elim exE conjE) simp
  then show ?thesis using new by blast
qed

theorem backoff_grows_and_restarts_witness:
  "\<exists>b0 d d'. Backoff_new ceiling_log2 1000 30000 (Fin (1 / 2)) 60000 = Some b0 \<and>
     Backoff_delay (\<lambda>_. Fin (1 / 4)) (fold backoff_perform (map Fail [1, 2]) b0) = Some d \<and> sint d \<le> 4000 \<and>
     Backoff_delay (\<lambda>_. Fin (1 / 4)) (fold backoff_perform ([Fail 1, Fail 2] @ [Succeed 3, Fail 70000000000]) b0) = Some d' \<and>
     sint d' \<le> 1000"
proof -
  have s: "sint (1000 :: i64) = 1000" "sint (30000 :: i64) = 30000" "sint (60000 :: i64) = 60000" by simp_all
  have settings: "(0 :: int) < 1000" "(1000 :: int) \<le> 30000" "(30000 :: int) < 2 ^ 53" "0 \<le> (1 / 4 :: rat)" "(1 / 4 :: rat) \<le> 1 / 2"
    by simp_all
  obtain b0 where new: "Backoff_new ceiling_log2 1000 30000 (Fin (1 / 2)) 60000 = Some b0"
    and failures: "\<forall>ts. length ts < 2 ^ 64 \<longrightarrow>
      (\<exists>d. Backoff_delay (\<lambda>_. Fin (1 / 4)) (fold backoff_perform (map Fail ts) b0) = Some d \<and>
        (let exponential = min (1000 * 2 ^ min (length ts) (unat (bo_max_exponent b0))) 30000
         in exponential div 2 \<le> sint d \<and> sint d \<le> exponential))"
    and restart: "\<forall>ops since now. 60000 < elapsed_milliseconds (now - since) \<longrightarrow>
      (\<exists>d. Backoff_delay (\<lambda>_. Fin (1 / 4)) (fold backoff_perform (ops @ [Succeed since, Fail now]) b0) = Some d \<and>
        1000 div 2 \<le> sint d \<and> sint d \<le> 1000)"
    using backoff_grows_and_restarts [of ceiling_log2 1000 30000 "\<lambda>_. Fin (1 / 4)" "Fin (1 / 2)" "1 / 4" 60000,
        unfolded s, OF good_ceiling_log2 settings(1-3) refl settings(4,5)]
    by (elim exE conjE) (rule that)
  have two: "length [1, 2 :: int] < 2 ^ 64" by simp
  obtain d where d: "Backoff_delay (\<lambda>_. Fin (1 / 4)) (fold backoff_perform (map Fail [1, 2]) b0) = Some d"
    "sint d \<le> min (1000 * 2 ^ min 2 (unat (bo_max_exponent b0))) 30000"
    using failures [THEN spec, of "[1, 2]", THEN mp, OF two] unfolding Let_def
    by (elim exE conjE) (simp only: list.size One_nat_def add_0_left add_Suc add_Suc_right numeral_2_eq_2)
  have "(2 :: int) ^ min 2 (unat (bo_max_exponent b0)) \<le> 2 ^ 2" by (rule power_increasing) simp_all
  then have "sint d \<le> 4000" using d(2) by simp
  moreover have "60000 < elapsed_milliseconds (70000000000 - 3)" by (simp add: elapsed_milliseconds_def quotient_def)
  then obtain d' where "Backoff_delay (\<lambda>_. Fin (1 / 4)) (fold backoff_perform ([Fail 1, Fail 2] @ [Succeed 3, Fail 70000000000]) b0) = Some d'"
    "sint d' \<le> 1000"
    using restart [THEN spec, THEN spec, THEN spec, of 70000000000 3 "[Fail 1, Fail 2]", THEN mp] by blast
  ultimately show ?thesis using new d(1) by blast
qed

end
