(* ===== verification/Expiration_Tracker.thy ===== *)
theory Expiration_Tracker
  imports Dependency_Tracker
begin

text \<open>
  The expiration tracker of
  \<^verbatim>\<open>libs/server-sdk/src/data_components/expiration_tracker\<close>: when keys expire, with and
  without a kind as their scope. A time point of the steady clock is an integer.
\<close>

type_synonym TimePoint = int
type_synonym TtlMap = "(string \<times> TimePoint) list"

datatype TrackState = kFresh | kStale | kNotTracked

record ScopedTtls =
  flag_ttls :: TtlMap
  segment_ttls :: TtlMap

record ExpirationTracker =
  unscoped :: TtlMap
  scoped :: ScopedTtls

definition ExpirationTracker_empty :: ExpirationTracker where
  "ExpirationTracker_empty = \<lparr>unscoped = [], scoped = \<lparr>flag_ttls = [], segment_ttls = []\<rparr>\<rparr>"

section \<open>Scoped expirations\<close>

definition ScopedTtls_Data :: "ScopedTtls \<Rightarrow> DataKind \<Rightarrow> TtlMap" where
  "ScopedTtls_Data s kind = (case kind of kFlag \<Rightarrow> flag_ttls s | kSegment \<Rightarrow> segment_ttls s)"

definition ScopedTtls_Set :: "DataKind \<Rightarrow> string \<Rightarrow> TimePoint \<Rightarrow> ScopedTtls \<Rightarrow> ScopedTtls" where
  "ScopedTtls_Set kind key expiration s =
     (case kind of
        kFlag \<Rightarrow> s\<lparr>flag_ttls := AList.update key expiration (flag_ttls s)\<rparr>
      | kSegment \<Rightarrow> s\<lparr>segment_ttls := AList.update key expiration (segment_ttls s)\<rparr>)"

definition ScopedTtls_Remove :: "DataKind \<Rightarrow> string \<Rightarrow> ScopedTtls \<Rightarrow> ScopedTtls" where
  "ScopedTtls_Remove kind key s =
     (case kind of
        kFlag \<Rightarrow> s\<lparr>flag_ttls := AList.delete key (flag_ttls s)\<rparr>
      | kSegment \<Rightarrow> s\<lparr>segment_ttls := AList.delete key (segment_ttls s)\<rparr>)"

definition ScopedTtls_Clear :: "ScopedTtls \<Rightarrow> ScopedTtls" where
  "ScopedTtls_Clear s = s\<lparr>flag_ttls := [], segment_ttls := []\<rparr>"

definition ScopedTtls_Get :: "ScopedTtls \<Rightarrow> DataKind \<Rightarrow> string \<Rightarrow> TimePoint option" where
  "ScopedTtls_Get s kind key = map_of (ScopedTtls_Data s kind) key"

section \<open>The tracker\<close>

definition State_at :: "TimePoint \<Rightarrow> TimePoint \<Rightarrow> TrackState" where
  "State_at expiration current_time = (if expiration > current_time then kFresh else kStale)"

definition Add_unscoped :: "string \<Rightarrow> TimePoint \<Rightarrow> ExpirationTracker \<Rightarrow> ExpirationTracker" where
  "Add_unscoped key expiration et = et\<lparr>unscoped := AList.update key expiration (unscoped et)\<rparr>"

definition Remove_unscoped :: "string \<Rightarrow> ExpirationTracker \<Rightarrow> ExpirationTracker" where
  "Remove_unscoped key et = et\<lparr>unscoped := AList.delete key (unscoped et)\<rparr>"

definition State_unscoped :: "ExpirationTracker \<Rightarrow> string \<Rightarrow> TimePoint \<Rightarrow> TrackState" where
  "State_unscoped et key current_time =
     (case map_of (unscoped et) key of
        Some expiration \<Rightarrow> State_at expiration current_time
      | None \<Rightarrow> kNotTracked)"

definition Add_scoped :: "DataKind \<Rightarrow> string \<Rightarrow> TimePoint \<Rightarrow> ExpirationTracker \<Rightarrow> ExpirationTracker" where
  "Add_scoped kind key expiration et = et\<lparr>scoped := ScopedTtls_Set kind key expiration (scoped et)\<rparr>"

definition Remove_scoped :: "DataKind \<Rightarrow> string \<Rightarrow> ExpirationTracker \<Rightarrow> ExpirationTracker" where
  "Remove_scoped kind key et = et\<lparr>scoped := ScopedTtls_Remove kind key (scoped et)\<rparr>"

definition State_scoped :: "ExpirationTracker \<Rightarrow> DataKind \<Rightarrow> string \<Rightarrow> TimePoint \<Rightarrow> TrackState" where
  "State_scoped et kind key current_time =
     (case ScopedTtls_Get (scoped et) kind key of
        Some expiration \<Rightarrow> State_at expiration current_time
      | None \<Rightarrow> kNotTracked)"

definition ExpirationTracker_Clear :: "ExpirationTracker \<Rightarrow> ExpirationTracker" where
  "ExpirationTracker_Clear et = et\<lparr>scoped := ScopedTtls_Clear (scoped et), unscoped := []\<rparr>"

definition stale_keys :: "TimePoint \<Rightarrow> 'k \<Rightarrow> TtlMap \<Rightarrow> ('k \<times> string) list" where
  "stale_keys current_time scope ttls =
     map (\<lambda>item. (scope, fst item)) (filter (\<lambda>item. State_at (snd item) current_time = kStale) ttls)"

definition prune_item :: "DataKind option \<times> string \<Rightarrow> ExpirationTracker \<Rightarrow> ExpirationTracker" where
  "prune_item item et =
     (case fst item of
        Some kind \<Rightarrow> et\<lparr>scoped := ScopedTtls_Remove kind (snd item) (scoped et)\<rparr>
      | None \<Rightarrow> et\<lparr>unscoped := AList.delete (snd item) (unscoped et)\<rparr>)"

definition Prune :: "TimePoint \<Rightarrow> ExpirationTracker \<Rightarrow> (DataKind option \<times> string) list \<times> ExpirationTracker" where
  "Prune current_time et =
     (let pruned = stale_keys current_time None (unscoped et) @
            concat (map (\<lambda>kind. stale_keys current_time (Some kind) (ScopedTtls_Data (scoped et) kind))
              [kFlag, kSegment])
      in (pruned, fold prune_item pruned et))"

section \<open>One view of both scopes\<close>

text \<open>
  Unscoped keys and the keys of each kind are three independent name spaces; the tracker
  is a map from a scope and a key to an expiration.
\<close>

definition expiration_of :: "ExpirationTracker \<Rightarrow> DataKind option \<Rightarrow> string \<Rightarrow> TimePoint option" where
  "expiration_of et scope key =
     (case scope of None \<Rightarrow> map_of (unscoped et) key | Some kind \<Rightarrow> ScopedTtls_Get (scoped et) kind key)"

definition track_state :: "TimePoint option \<Rightarrow> TimePoint \<Rightarrow> TrackState" where
  "track_state e current_time = (case e of Some t \<Rightarrow> State_at t current_time | None \<Rightarrow> kNotTracked)"

lemma State_view:
  "State_unscoped et key t = track_state (expiration_of et None key) t"
  "State_scoped et kind key t = track_state (expiration_of et (Some kind) key) t"
  by (simp_all add: State_unscoped_def State_scoped_def track_state_def expiration_of_def)

lemmas scoped_defs = ScopedTtls_Get_def ScopedTtls_Data_def ScopedTtls_Set_def ScopedTtls_Remove_def ScopedTtls_Clear_def

lemma expiration_Add [simp]:
  "expiration_of (Add_unscoped key e et) = (expiration_of et)(None := (expiration_of et None)(key \<mapsto> e))"
  "expiration_of (Add_scoped kind key e et) =
     (expiration_of et)(Some kind := (expiration_of et (Some kind))(key \<mapsto> e))"
  by (auto simp: expiration_of_def Add_unscoped_def Add_scoped_def scoped_defs update_conv' fun_eq_iff
      split: option.splits DataKind.splits)

lemma expiration_Remove [simp]:
  "expiration_of (Remove_unscoped key et) = (expiration_of et)(None := (expiration_of et None)(key := None))"
  "expiration_of (Remove_scoped kind key et) =
     (expiration_of et)(Some kind := (expiration_of et (Some kind))(key := None))"
  by (auto simp: expiration_of_def Remove_unscoped_def Remove_scoped_def scoped_defs delete_conv' fun_eq_iff
      split: option.splits DataKind.splits)

lemma expiration_Clear [simp]: "expiration_of (ExpirationTracker_Clear et) scope key = None"
  by (auto simp: expiration_of_def ExpirationTracker_Clear_def scoped_defs split: option.splits DataKind.splits)

lemma expiration_prune_item:
  "expiration_of (prune_item item et) scope key =
     (if item = (scope, key) then None else expiration_of et scope key)"
  by (cases item; cases "fst item"; cases scope)
    (auto simp: expiration_of_def prune_item_def scoped_defs delete_conv' split: DataKind.splits)

lemma expiration_prune_items:
  "expiration_of (fold prune_item items et) scope key =
     (if (scope, key) \<in> set items then None else expiration_of et scope key)"
  by (induction items arbitrary: et) (auto simp: expiration_prune_item)

definition tracker_ok :: "ExpirationTracker \<Rightarrow> bool" where
  "tracker_ok et \<longleftrightarrow> distinct (map fst (unscoped et)) \<and>
     distinct (map fst (flag_ttls (scoped et))) \<and> distinct (map fst (segment_ttls (scoped et)))"

lemma tracker_ok_empty [simp]: "tracker_ok ExpirationTracker_empty"
  by (simp add: tracker_ok_def ExpirationTracker_empty_def)

lemma tracker_ok_Add [inv_intros]:
  "tracker_ok et \<Longrightarrow> tracker_ok (Add_unscoped key e et)"
  "tracker_ok et \<Longrightarrow> tracker_ok (Add_scoped kind key e et)"
  by (auto simp: tracker_ok_def Add_unscoped_def Add_scoped_def scoped_defs distinct_update split: DataKind.splits)

lemma tracker_ok_Remove [inv_intros]:
  "tracker_ok et \<Longrightarrow> tracker_ok (Remove_unscoped key et)"
  "tracker_ok et \<Longrightarrow> tracker_ok (Remove_scoped kind key et)"
  by (auto simp: tracker_ok_def Remove_unscoped_def Remove_scoped_def scoped_defs distinct_delete split: DataKind.splits)

lemma in_stale_keys:
  assumes "distinct (map fst ttls)"
  shows "(s, k) \<in> set (stale_keys t scope ttls) \<longleftrightarrow> s = scope \<and> track_state (map_of ttls k) t = kStale"
proof -
  have "(s, k) \<in> set (stale_keys t scope ttls) \<longleftrightarrow> s = scope \<and> (\<exists>e. (k, e) \<in> set ttls \<and> State_at e t = kStale)"
    by (auto simp: stale_keys_def image_iff)
  also have "\<dots> \<longleftrightarrow> s = scope \<and> (\<exists>e. map_of ttls k = Some e \<and> State_at e t = kStale)"
    by (simp only: map_of_eq_Some_iff [OF assms])
  also have "\<dots> \<longleftrightarrow> s = scope \<and> track_state (map_of ttls k) t = kStale"
    by (cases "map_of ttls k") (simp_all add: track_state_def)
  finally show ?thesis .
qed

lemma in_pruned:
  assumes "tracker_ok et"
  shows "(s, k) \<in> set (fst (Prune t et)) \<longleftrightarrow> track_state (expiration_of et s k) t = kStale"
proof -
  have d: "distinct (map fst (unscoped et))" "distinct (map fst (ScopedTtls_Data (scoped et) kind))" for kind
    using assms by (cases kind; simp add: tracker_ok_def ScopedTtls_Data_def)+
  show ?thesis
  proof (cases s)
    case None
    then show ?thesis
      by (simp add: Prune_def Let_def in_stale_keys [OF d(1)] in_stale_keys [OF d(2)] expiration_of_def)
  next
    case (Some kind)
    then show ?thesis
      by (cases kind)
        (simp_all add: Prune_def Let_def in_stale_keys [OF d(1)] in_stale_keys [OF d(2)] expiration_of_def
          ScopedTtls_Get_def)
  qed
qed

section \<open>Properties\<close>

text \<open>
  Pruning reports exactly the keys, with their scopes, that have expired at the given
  time, and stops tracking them; every other key keeps its expiration.
\<close>

theorem Prune_spec:
  assumes "tracker_ok et" and "Prune t et = (pruned, et')"
  shows "((scope, key) \<in> set pruned) = (track_state (expiration_of et scope key) t = kStale) \<and>
    expiration_of et' scope key =
      (if track_state (expiration_of et scope key) t = kStale then None else expiration_of et scope key)"
proof -
  have "et' = fold prune_item pruned et" using assms(2) by (auto simp: Prune_def Let_def)
  moreover have "(scope, key) \<in> set pruned \<longleftrightarrow> track_state (expiration_of et scope key) t = kStale"
    using in_pruned [OF assms(1), of scope key t] assms(2) by simp
  ultimately show ?thesis by (simp add: expiration_prune_items)
qed

theorem Prune_spec_witness:
  "Prune 5 (Add_scoped kFlag ''k'' 9 (Add_unscoped ''k'' 5 ExpirationTracker_empty)) =
     ([(None, ''k'')], Add_scoped kFlag ''k'' 9 ExpirationTracker_empty) \<and>
   expiration_of (Add_scoped kFlag ''k'' 9 ExpirationTracker_empty) (Some kFlag) ''k'' = Some 9"
proof -
  let ?et = "Add_scoped kFlag ''k'' 9 (Add_unscoped ''k'' 5 ExpirationTracker_empty)"
  have ok: "tracker_ok ?et" by (intro inv_intros) simp
  have run: "Prune 5 ?et = ([(None, ''k'')], Add_scoped kFlag ''k'' 9 ExpirationTracker_empty)" by code_simp
  show ?thesis
    using Prune_spec [OF ok run, of "Some kFlag" "''k''"] run by (simp add: track_state_def State_at_def)
qed

end
