(* ===== verification/Lazy_Load.thy ===== *)
theory Lazy_Load
  imports FDv2_Protocol Expiration_Tracker
begin

text \<open>
  The lazy load data system (\<^verbatim>\<open>lazy_load_system.cpp\<close> and \<^verbatim>\<open>lazy_load_system.hpp\<close>) over the
  JSON deserializer (\<^verbatim>\<open>json_deserializer.cpp\<close>, \<^verbatim>\<open>json_deserializer.hpp\<close>), with the memory store
  as its cache and the expiration tracker as its clock, and the JSON that
  \<^verbatim>\<open>json_destination.cpp\<close> writes. The serialized reader is an interface that integrations
  implement; what it answers to a call is an argument. A call of \<^verbatim>\<open>time_()\<close> is an argument as
  well. An operation throws when Boost does; the state is then the one it had reached.
\<close>

section \<open>The deserializer\<close>

record SerializedItemDescriptor =
  sid_version :: u64
  sid_deleted :: bool
  serializedItem :: string

definition Present :: "u64 \<Rightarrow> string \<Rightarrow> SerializedItemDescriptor" where
  "Present version data = \<lparr>sid_version = version, sid_deleted = False, serializedItem = data\<rparr>"

definition SerializedTombstone :: "u64 \<Rightarrow> string \<Rightarrow> SerializedItemDescriptor" where
  "SerializedTombstone version data = \<lparr>sid_version = version, sid_deleted = True, serializedItem = data\<rparr>"

definition quoted :: "string \<Rightarrow> string" where
  "quoted s = [CHR 0x27] @ s @ [CHR 0x27]"

fun JsonError_ToString :: "JsonError \<Rightarrow> string" where
  "JsonError_ToString kSchemaFailure = ''unexpected JSON schema''"
| "JsonError_ToString kContextMissingKindField = ''context is missing '' @ quoted ''kind'' @ '' field''"
| "JsonError_ToString kContextInvalidKindField = ''context '' @ quoted ''kind'' @ '' field is invalid''"
| "JsonError_ToString kContextMustBeObject = ''context must be object''"
| "JsonError_ToString kContextMissingKeyField = ''context is missing '' @ quoted ''key'' @ '' field''"
| "JsonError_ToString kContextInvalidKeyField = ''context '' @ quoted ''key'' @ '' field is invalid''"
| "JsonError_ToString kContextInvalidNameField = ''context '' @ quoted ''name'' @ '' field is invalid''"
| "JsonError_ToString kContextInvalidAnonymousField = ''context '' @ quoted ''anonymous'' @ '' field is invalid''"
| "JsonError_ToString kContextInvalidMetaField = ''context '' @ quoted ''_meta'' @ '' field is invalid''"
| "JsonError_ToString kContextInvalidSecondaryField = ''context '' @ quoted ''secondary'' @ '' field is invalid''"
| "JsonError_ToString kContextInvalidAttributeReference =
     ''context '' @ quoted ''privateAttributes'' @ '' field: invalid attribute reference''"
| "JsonError_ToString kContextInvalidPrivateAttributesField =
     ''context '' @ quoted ''privateAttributes'' @ '' field is invalid''"
| "JsonError_ToString kTombstoneInvalidDeletedField = ''unknown error''"

definition parse_Tombstone :: "numbers \<Rightarrow> u64 parser" where
  "parse_Tombstone N = REQUIRE_OBJECT (\<lambda>obj.
     res_bind (PARSE_REQUIRED_FIELD parse_bool obj ''deleted'') (\<lambda>deleted.
       if \<not> deleted then Inl kTombstoneInvalidDeletedField
       else res_bind (PARSE_REQUIRED_FIELD (parse_uint64 N) obj ''version'') (\<lambda>version.
         Inr (Some version))))"

text \<open>
  \<^verbatim>\<open>boost::json::parse\<close> without an error code throws when the text is not JSON.
\<close>

definition DeserializeJsonDescriptor ::
  "wire \<Rightarrow> 'a parser \<Rightarrow> ('a \<Rightarrow> 'a ItemDescriptor) \<Rightarrow> SerializedItemDescriptor \<Rightarrow> (string + 'a ItemDescriptor) outcome" where
  "DeserializeJsonDescriptor W p descriptor d =
     (if sid_deleted d then Returned (Inr (Tombstone (sid_version d)))
      else case json_parse W (serializedItem d) of
        None \<Rightarrow> Threw
      | Some j \<Rightarrow>
          Returned (case p j of
             Inr None \<Rightarrow> Inl ''item invalid: value is null''
           | Inr (Some item) \<Rightarrow> Inr (descriptor item)
           | Inl _ \<Rightarrow>
               (case parse_Tombstone (wire_numbers W) j of
                  Inl e \<Rightarrow> Inl (JsonError_ToString e)
                | Inr None \<Rightarrow> Inl ''tombstone invalid: value is null''
                | Inr (Some version) \<Rightarrow> Inr (Tombstone version))))"

definition DeserializeSingle :: "wire \<Rightarrow> 'a parser \<Rightarrow> ('a \<Rightarrow> 'a ItemDescriptor) \<Rightarrow>
    string + SerializedItemDescriptor option \<Rightarrow> (string + 'a ItemDescriptor option) outcome" where
  "DeserializeSingle W p descriptor result =
     (case result of
        Inl message \<Rightarrow> Returned (Inl message)
      | Inr None \<Rightarrow> Returned (Inr None)
      | Inr (Some d) \<Rightarrow>
          (case DeserializeJsonDescriptor W p descriptor d of
             Threw \<Rightarrow> Threw
           | Returned (Inl e) \<Rightarrow> Returned (Inl e)
           | Returned (Inr x) \<Rightarrow> Returned (Inr (Some x))))"

fun deserialize_items :: "wire \<Rightarrow> 'a parser \<Rightarrow> ('a \<Rightarrow> 'a ItemDescriptor) \<Rightarrow>
    (string \<times> SerializedItemDescriptor) list \<Rightarrow> 'a Collection \<Rightarrow> 'a Collection outcome" where
  "deserialize_items W p descriptor [] items = Returned items"
| "deserialize_items W p descriptor ((key, d) # ds) items =
     (case DeserializeJsonDescriptor W p descriptor d of
        Threw \<Rightarrow> Threw
      | Returned (Inl _) \<Rightarrow> deserialize_items W p descriptor ds items
      | Returned (Inr x) \<Rightarrow> deserialize_items W p descriptor ds (umap_emplace key x items))"

definition DeserializeCollection :: "wire \<Rightarrow> 'a parser \<Rightarrow> ('a \<Rightarrow> 'a ItemDescriptor) \<Rightarrow>
    string + (string \<times> SerializedItemDescriptor) list \<Rightarrow> (string + 'a Collection) outcome" where
  "DeserializeCollection W p descriptor result =
     (case result of
        Inl message \<Rightarrow> Returned (Inl message)
      | Inr ds \<Rightarrow>
          (case deserialize_items W p descriptor ds [] of
             Threw \<Rightarrow> Threw
           | Returned items \<Rightarrow> Returned (Inr items)))"

section \<open>The data system\<close>

record LazyLoad =
  cache :: MemoryStore
  tracker :: ExpirationTracker
  lazy_initialized :: "bool option"
  fresh_duration :: int
  lazy_status :: StatusManager
  reads :: "(DataKind option \<times> string \<times> TimePoint \<times> TimePoint) list"

text \<open>
  The times of an operation: the steady clock when it looks at the tracker and when it
  computes the expiry, and the system clock for the status. \<open>reads\<close> records the calls of
  the reader with the two steady times.
\<close>

record times =
  looked_at :: TimePoint
  expiry_base :: TimePoint
  wall_clock :: int

definition LazyLoad_new :: "int \<Rightarrow> StatusManager \<Rightarrow> LazyLoad" where
  "LazyLoad_new ttl status =
     \<lparr>cache = MemoryStore_empty, tracker = ExpirationTracker_empty, lazy_initialized = None,
      fresh_duration = ttl, lazy_status = status, reads = []\<rparr>"

text \<open>
  Time points are integers without a bound: the sum of the source overflows only when the
  configured duration, in nanoseconds, does not fit in 63 bits, which is about 292 years.
\<close>

definition ExpiryTime :: "times \<Rightarrow> LazyLoad \<Rightarrow> TimePoint" where
  "ExpiryTime ts s = expiry_base ts + fresh_duration s"

definition note_read :: "DataKind option \<Rightarrow> string \<Rightarrow> times \<Rightarrow> LazyLoad \<Rightarrow> LazyLoad" where
  "note_read scope key ts s = s\<lparr>reads := reads s @ [(scope, key, looked_at ts, expiry_base ts)]\<rparr>"

definition RefreshItem :: "DataKind \<Rightarrow> string \<Rightarrow> (string + 'a ItemDescriptor option) outcome \<Rightarrow>
    (string \<Rightarrow> 'a ItemDescriptor \<Rightarrow> MemoryStore \<Rightarrow> MemoryStore) \<Rightarrow> (string \<Rightarrow> MemoryStore \<Rightarrow> bool \<times> MemoryStore) \<Rightarrow>
    times \<Rightarrow> LazyLoad \<Rightarrow> unit outcome \<times> LazyLoad" where
  "RefreshItem kind key item upsert evictor ts s =
     (let s = s\<lparr>tracker := Add_scoped kind key (ExpiryTime ts s) (tracker s)\<rparr>;
          s = note_read (Some kind) key ts s
      in case item of
           Threw \<Rightarrow> (Threw, s)
         | Returned (Inr optional_item) \<Rightarrow>
             (let s = s\<lparr>lazy_status := SetState (wall_clock ts) dsValid (lazy_status s)\<rparr> in
              case optional_item of
                Some d \<Rightarrow> (Returned (), s\<lparr>cache := upsert key d (cache s)\<rparr>)
              | None \<Rightarrow> (Returned (), s\<lparr>cache := snd (evictor key (cache s))\<rparr>))
         | Returned (Inl e) \<Rightarrow>
             (Returned (), s\<lparr>lazy_status :=
                SetState_kind (wall_clock ts) dsInterrupted ekUnknown e (lazy_status s)\<rparr>))"

fun refresh_items :: "DataKind \<Rightarrow> (string \<Rightarrow> 'a ItemDescriptor \<Rightarrow> MemoryStore \<Rightarrow> MemoryStore) \<Rightarrow> TimePoint \<Rightarrow>
    'a Collection \<Rightarrow> LazyLoad \<Rightarrow> LazyLoad" where
  "refresh_items kind upsert expiry [] s = s"
| "refresh_items kind upsert expiry ((key, d) # items) s =
     refresh_items kind upsert expiry items
       (s\<lparr>cache := upsert key d (cache s), tracker := Add_scoped kind key expiry (tracker s)\<rparr>)"

definition RefreshAll :: "string \<Rightarrow> DataKind \<Rightarrow> (string + 'a Collection) outcome \<Rightarrow>
    (string \<Rightarrow> 'a ItemDescriptor \<Rightarrow> MemoryStore \<Rightarrow> MemoryStore) \<Rightarrow> times \<Rightarrow> LazyLoad \<Rightarrow> unit outcome \<times> LazyLoad" where
  "RefreshAll all_item_key kind items upsert ts s =
     (let updated_expiry = ExpiryTime ts s;
          s = s\<lparr>tracker := Add_unscoped all_item_key updated_expiry (tracker s)\<rparr>;
          s = note_read None all_item_key ts s
      in case items of
           Threw \<Rightarrow> (Threw, s)
         | Returned (Inr all_items) \<Rightarrow>
             (let s = s\<lparr>lazy_status := SetState (wall_clock ts) dsValid (lazy_status s)\<rparr>
              in (Returned (), refresh_items kind upsert updated_expiry all_items s))
         | Returned (Inl e) \<Rightarrow>
             (Returned (), s\<lparr>lazy_status :=
                SetState_kind (wall_clock ts) dsInterrupted ekUnknown e (lazy_status s)\<rparr>))"

text \<open>\<^verbatim>\<open>Get\<close>: a fresh item is served from the cache, any other is refreshed first.\<close>

definition Get_cached :: "TrackState \<Rightarrow> (LazyLoad \<Rightarrow> unit outcome \<times> LazyLoad) \<Rightarrow> (LazyLoad \<Rightarrow> 'r) \<Rightarrow>
    LazyLoad \<Rightarrow> 'r outcome \<times> LazyLoad" where
  "Get_cached state refresh get s =
     (case state of
        kFresh \<Rightarrow> (Returned (get s), s)
      | _ \<Rightarrow> (case refresh s of
                (Threw, s) \<Rightarrow> (Threw, s)
              | (Returned _, s) \<Rightarrow> (Returned (get s), s)))"

definition RefreshFlag :: "wire \<Rightarrow> string + SerializedItemDescriptor option \<Rightarrow> string \<Rightarrow> times \<Rightarrow> LazyLoad \<Rightarrow> unit outcome \<times> LazyLoad" where
  "RefreshFlag W answer key =
     RefreshItem kFlag key (DeserializeSingle W (parse_Flag (wire_numbers W)) FlagDescriptor_of answer)
       Upsert_flag RemoveFlag"

definition RefreshSegment :: "wire \<Rightarrow> string + SerializedItemDescriptor option \<Rightarrow> string \<Rightarrow> times \<Rightarrow> LazyLoad \<Rightarrow> unit outcome \<times> LazyLoad" where
  "RefreshSegment W answer key =
     RefreshItem kSegment key (DeserializeSingle W (parse_Segment (wire_numbers W)) SegmentDescriptor_of answer)
       Upsert_segment RemoveSegment"

definition LazyLoad_GetFlag :: "wire \<Rightarrow> string + SerializedItemDescriptor option \<Rightarrow> times \<Rightarrow> string \<Rightarrow> LazyLoad \<Rightarrow>
    FlagDescriptor option outcome \<times> LazyLoad" where
  "LazyLoad_GetFlag W answer ts key s =
     Get_cached (State_scoped (tracker s) kFlag key (looked_at ts)) (RefreshFlag W answer key ts)
       (\<lambda>s. MemoryStore_GetFlag (cache s) key) s"

definition LazyLoad_GetSegment :: "wire \<Rightarrow> string + SerializedItemDescriptor option \<Rightarrow> times \<Rightarrow> string \<Rightarrow> LazyLoad \<Rightarrow>
    SegmentDescriptor option outcome \<times> LazyLoad" where
  "LazyLoad_GetSegment W answer ts key s =
     Get_cached (State_scoped (tracker s) kSegment key (looked_at ts)) (RefreshSegment W answer key ts)
       (\<lambda>s. MemoryStore_GetSegment (cache s) key) s"

definition LazyLoad_AllFlags :: "wire \<Rightarrow> string + (string \<times> SerializedItemDescriptor) list \<Rightarrow> times \<Rightarrow> LazyLoad \<Rightarrow>
    Flag Collection outcome \<times> LazyLoad" where
  "LazyLoad_AllFlags W answer ts s =
     Get_cached (State_unscoped (tracker s) ''allFlags'' (looked_at ts))
       (RefreshAll ''allFlags'' kFlag (DeserializeCollection W (parse_Flag (wire_numbers W)) FlagDescriptor_of answer)
          Upsert_flag ts)
       (\<lambda>s. AllFlags (cache s)) s"

definition LazyLoad_AllSegments :: "wire \<Rightarrow> string + (string \<times> SerializedItemDescriptor) list \<Rightarrow> times \<Rightarrow> LazyLoad \<Rightarrow>
    Segment Collection outcome \<times> LazyLoad" where
  "LazyLoad_AllSegments W answer ts s =
     Get_cached (State_unscoped (tracker s) ''allSegments'' (looked_at ts))
       (RefreshAll ''allSegments'' kSegment (DeserializeCollection W (parse_Segment (wire_numbers W)) SegmentDescriptor_of answer)
          Upsert_segment ts)
       (\<lambda>s. AllSegments (cache s)) s"

definition RefreshInitState :: "bool \<Rightarrow> times \<Rightarrow> LazyLoad \<Rightarrow> LazyLoad" where
  "RefreshInitState answer ts s =
     (let s = s\<lparr>lazy_initialized := Some answer\<rparr>;
          s = s\<lparr>tracker := Add_unscoped ''initialized'' (ExpiryTime ts s) (tracker s)\<rparr>
      in note_read None ''initialized'' ts s)"

definition LazyLoad_Initialized :: "bool \<Rightarrow> times \<Rightarrow> LazyLoad \<Rightarrow> bool \<times> LazyLoad" where
  "LazyLoad_Initialized answer ts s =
     (case lazy_initialized s of
        Some True \<Rightarrow> (True, s)
      | _ \<Rightarrow>
          if lazy_initialized s = Some False \<and> State_unscoped (tracker s) ''initialized'' (looked_at ts) = kFresh
          then (False, s)
          else let s = RefreshInitState answer ts s in
            (case lazy_initialized s of Some b \<Rightarrow> b | None \<Rightarrow> False, s))"

definition LazyLoad_Initialize :: "bool \<Rightarrow> times \<Rightarrow> LazyLoad \<Rightarrow> LazyLoad" where
  "LazyLoad_Initialize answer ts s =
     (let s = s\<lparr>lazy_status := SetState (wall_clock ts) dsInitializing (lazy_status s)\<rparr>;
          (ready, s) = LazyLoad_Initialized answer ts s
      in if ready then s\<lparr>lazy_status := SetState (wall_clock ts) dsValid (lazy_status s)\<rparr> else s)"

section \<open>What the JSON destination writes\<close>

definition Tombstone_json :: "string \<Rightarrow> 'a ItemDescriptor \<Rightarrow> json" where
  "Tombstone_json key desc =
     JObject (object_emplace ''deleted'' (JBool True)
       (object_emplace ''version'' (JUint64 (descr_version desc))
         (object_emplace ''key'' (JString key) [])))"

definition Serialize :: "(json \<Rightarrow> string) \<Rightarrow> ('a \<Rightarrow> json) \<Rightarrow> string \<Rightarrow> 'a ItemDescriptor \<Rightarrow> SerializedItemDescriptor" where
  "Serialize json_serialize value_from key desc =
     (case descr_item desc of
        Some item \<Rightarrow> Present (descr_version desc) (json_serialize (value_from item))
      | None \<Rightarrow> SerializedTombstone (descr_version desc) (json_serialize (Tombstone_json key desc)))"

text \<open>
  \<^verbatim>\<open>Init\<close> hands the destination the flags and then the segments, each ordered by key; the
  keys of a data set are distinct, so the order of equal keys does not matter.
\<close>

definition destination_Init :: "(json \<Rightarrow> string) \<Rightarrow> SDKDataSet \<Rightarrow> (string \<times> (string \<times> SerializedItemDescriptor) list) list" where
  "destination_Init json_serialize data_set =
     [(''features'', sort_key fst (map (\<lambda>(key, d). (key, Serialize json_serialize Flag_json key d)) (ds_flags data_set))),
      (''segments'', sort_key fst (map (\<lambda>(key, d). (key, Serialize json_serialize Segment_json key d)) (ds_segments data_set)))]"

section \<open>Operations in sequence\<close>

datatype lazy_op =
    OpGetFlag times string "string + SerializedItemDescriptor option"
  | OpGetSegment times string "string + SerializedItemDescriptor option"
  | OpAllFlags times "string + (string \<times> SerializedItemDescriptor) list"
  | OpAllSegments times "string + (string \<times> SerializedItemDescriptor) list"
  | OpInitialized times bool

fun lazy_times :: "lazy_op \<Rightarrow> times" where
  "lazy_times (OpGetFlag ts _ _) = ts"
| "lazy_times (OpGetSegment ts _ _) = ts"
| "lazy_times (OpAllFlags ts _) = ts"
| "lazy_times (OpAllSegments ts _) = ts"
| "lazy_times (OpInitialized ts _) = ts"

fun lazy_step :: "wire \<Rightarrow> lazy_op \<Rightarrow> LazyLoad \<Rightarrow> LazyLoad" where
  "lazy_step W (OpGetFlag ts key answer) s = snd (LazyLoad_GetFlag W answer ts key s)"
| "lazy_step W (OpGetSegment ts key answer) s = snd (LazyLoad_GetSegment W answer ts key s)"
| "lazy_step W (OpAllFlags ts answer) s = snd (LazyLoad_AllFlags W answer ts s)"
| "lazy_step W (OpAllSegments ts answer) s = snd (LazyLoad_AllSegments W answer ts s)"
| "lazy_step W (OpInitialized ts answer) s = snd (LazyLoad_Initialized answer ts s)"

text \<open>The steady clock does not go backwards.\<close>

fun steady :: "TimePoint \<Rightarrow> lazy_op list \<Rightarrow> bool" where
  "steady t [] = True"
| "steady t (op # ops) \<longleftrightarrow>
     t \<le> looked_at (lazy_times op) \<and> looked_at (lazy_times op) \<le> expiry_base (lazy_times op) \<and>
     steady (expiry_base (lazy_times op)) ops"

section \<open>Reads are rate limited\<close>

definition Add_expiry :: "DataKind option \<Rightarrow> string \<Rightarrow> TimePoint \<Rightarrow> ExpirationTracker \<Rightarrow> ExpirationTracker" where
  "Add_expiry scope = (case scope of None \<Rightarrow> Add_unscoped | Some kind \<Rightarrow> Add_scoped kind)"

lemma expiration_Add_expiry [simp]:
  "expiration_of (Add_expiry scope key t et) scope' key' =
     (if scope = scope' \<and> key = key' then Some t else expiration_of et scope' key')"
  by (cases scope) (auto simp: Add_expiry_def expiration_Add)

abbreviation spaced :: "int \<Rightarrow> (DataKind option \<times> string \<times> TimePoint \<times> TimePoint) list \<Rightarrow> bool" where
  "spaced ttl \<equiv> sorted_wrt (\<lambda>(scope, key, looked, base) (scope', key', looked', base').
     scope = scope' \<and> key = key' \<longrightarrow> base + ttl \<le> looked')"

definition read_ok :: "int \<Rightarrow> TimePoint \<Rightarrow> ExpirationTracker \<Rightarrow> DataKind option \<times> string \<times> TimePoint \<times> TimePoint \<Rightarrow> bool" where
  "read_ok ttl t et = (\<lambda>(scope, key, looked, base). base \<le> t \<and>
     (\<exists>e. expiration_of et scope key = Some e \<and> base + ttl \<le> e))"

definition lazy_ok :: "int \<Rightarrow> TimePoint \<Rightarrow> LazyLoad \<Rightarrow> bool" where
  "lazy_ok ttl t s \<longleftrightarrow> fresh_duration s = ttl \<and> spaced ttl (reads s) \<and>
     (\<forall>r\<in>set (reads s). read_ok ttl t (tracker s) r) \<and>
     (lazy_initialized s = None \<longrightarrow> (\<forall>r\<in>set (reads s). fst r = None \<longrightarrow> fst (snd r) \<noteq> ''initialized''))"

lemma lazy_ok_fields [simp]:
  "lazy_ok ttl t (s\<lparr>cache := c\<rparr>) = lazy_ok ttl t s"
  "lazy_ok ttl t (s\<lparr>lazy_status := st\<rparr>) = lazy_ok ttl t s"
  by (simp_all add: lazy_ok_def)

lemma read_ok_later: "read_ok ttl t et r \<Longrightarrow> t \<le> t' \<Longrightarrow> read_ok ttl t' et r"
  by (auto simp: read_ok_def)

lemma read_ok_Add: "read_ok ttl t et r \<Longrightarrow> t + ttl \<le> e \<Longrightarrow> read_ok ttl t (Add_expiry scope key e et) r"
  by (auto simp: read_ok_def)

lemma lazy_ok_later: "lazy_ok ttl t s \<Longrightarrow> t \<le> t' \<Longrightarrow> lazy_ok ttl t' s"
  by (auto simp: lazy_ok_def intro: read_ok_later)

lemma lazy_ok_Add:
  "lazy_ok ttl t s \<Longrightarrow> t + ttl \<le> e \<Longrightarrow> lazy_ok ttl t (s\<lparr>tracker := Add_expiry scope key e (tracker s)\<rparr>)"
  by (auto simp: lazy_ok_def intro: read_ok_Add)

lemma lazy_ok_read:
  assumes ok: "lazy_ok ttl t s" and "t \<le> looked_at ts" and "looked_at ts \<le> expiry_base ts"
    and due: "\<And>looked base. (scope, key, looked, base) \<in> set (reads s) \<Longrightarrow> base + ttl \<le> looked_at ts"
    and init: "key \<noteq> ''initialized'' \<or> scope \<noteq> None \<or> lazy_initialized s \<noteq> None"
  shows "lazy_ok ttl (expiry_base ts)
    (note_read scope key ts (s\<lparr>tracker := Add_expiry scope key (ExpiryTime ts s) (tracker s)\<rparr>))"
proof -
  let ?et = "Add_expiry scope key (ExpiryTime ts s) (tracker s)"
  have ttl: "fresh_duration s = ttl" using ok by (simp add: lazy_ok_def)
  have "lazy_ok ttl (expiry_base ts) (s\<lparr>tracker := ?et\<rparr>)"
    using lazy_ok_Add [OF lazy_ok_later [OF ok, of "expiry_base ts"]] assms(2,3) ttl by (simp add: ExpiryTime_def)
  moreover have "read_ok ttl (expiry_base ts) ?et (scope, key, looked_at ts, expiry_base ts)"
    using ttl by (simp add: read_ok_def ExpiryTime_def)
  ultimately show ?thesis
    using due init by (auto simp: lazy_ok_def note_read_def sorted_wrt_append)
qed

lemma not_fresh_due:
  assumes "lazy_ok ttl t s" and "track_state (expiration_of (tracker s) scope key) now \<noteq> kFresh"
    and "(scope, key, looked, base) \<in> set (reads s)"
  shows "base + ttl \<le> now"
proof -
  obtain e where "expiration_of (tracker s) scope key = Some e" "base + ttl \<le> e"
    using assms(1,3) by (fastforce simp: lazy_ok_def read_ok_def)
  then show ?thesis using assms(2) by (auto simp: track_state_def State_at_def split: if_splits)
qed

lemma lazy_ok_RefreshItem:
  assumes "lazy_ok ttl t s" and "t \<le> looked_at ts" and "looked_at ts \<le> expiry_base ts"
    and "State_scoped (tracker s) kind key (looked_at ts) \<noteq> kFresh"
  shows "lazy_ok ttl (expiry_base ts) (snd (RefreshItem kind key item upsert evictor ts s))"
  using lazy_ok_read [OF assms(1,2,3), of "Some kind" key] not_fresh_due [OF assms(1), of "Some kind" key] assms(4)
  by (simp add: RefreshItem_def Let_def Add_expiry_def State_view split: outcome.splits sum.splits option.splits)

lemma lazy_ok_refresh_items:
  "lazy_ok ttl t s \<Longrightarrow> t + ttl \<le> e \<Longrightarrow> lazy_ok ttl t (refresh_items kind upsert e items s)"
proof (induction kind upsert e items s rule: refresh_items.induct)
  case (2 kind upsert e key d items s)
  have "lazy_ok ttl t ((s\<lparr>cache := upsert key d (cache s)\<rparr>)\<lparr>tracker := Add_expiry (Some kind) key e (tracker s)\<rparr>)"
    using lazy_ok_Add [of ttl t "s\<lparr>cache := upsert key d (cache s)\<rparr>" e "Some kind" key] 2 by simp
  then show ?case using 2 by (simp add: Add_expiry_def)
qed simp

lemma lazy_ok_RefreshAll:
  assumes "lazy_ok ttl t s" and "t \<le> looked_at ts" and "looked_at ts \<le> expiry_base ts"
    and "State_unscoped (tracker s) key (looked_at ts) \<noteq> kFresh" and "key \<noteq> ''initialized''"
  shows "lazy_ok ttl (expiry_base ts) (snd (RefreshAll key kind items upsert ts s))"
proof -
  have ttl: "fresh_duration s = ttl" using assms(1) by (simp add: lazy_ok_def)
  have "lazy_ok ttl (expiry_base ts) (note_read None key ts
      (s\<lparr>tracker := Add_unscoped key (ExpiryTime ts s) (tracker s)\<rparr>))"
    using lazy_ok_read [OF assms(1,2,3), of None key] not_fresh_due [OF assms(1), of None key] assms(4,5)
    by (simp add: Add_expiry_def State_view)
  then show ?thesis
    using ttl by (auto simp: RefreshAll_def Let_def ExpiryTime_def intro!: lazy_ok_refresh_items
        split: outcome.splits sum.splits)
qed

lemma lazy_ok_Get_cached:
  assumes "lazy_ok ttl t s" and "t \<le> t'" and "state \<noteq> kFresh \<Longrightarrow> lazy_ok ttl t' (snd (refresh s))"
  shows "lazy_ok ttl t' (snd (Get_cached state refresh get s))"
  using assms lazy_ok_later [OF assms(1,2)]
  by (cases state) (auto simp: Get_cached_def split: prod.splits outcome.splits)

lemma lazy_ok_Initialized:
  assumes "lazy_ok ttl t s" and "t \<le> looked_at ts" and "looked_at ts \<le> expiry_base ts"
  shows "lazy_ok ttl (expiry_base ts) (snd (LazyLoad_Initialized answer ts s))"
proof -
  have refresh: "lazy_ok ttl (expiry_base ts) (RefreshInitState answer ts s)"
    if "lazy_initialized s = None \<or> State_unscoped (tracker s) ''initialized'' (looked_at ts) \<noteq> kFresh"
  proof -
    have "base + ttl \<le> looked_at ts" if "(None, ''initialized'', looked, base) \<in> set (reads s)" for looked base
      using \<open>lazy_initialized s = None \<or> _\<close> not_fresh_due [OF assms(1) _ that] that assms(1)
      by (auto simp: lazy_ok_def State_view)
    moreover have "lazy_ok ttl t (s\<lparr>lazy_initialized := Some answer\<rparr>)" using assms(1) by (simp add: lazy_ok_def)
    ultimately show ?thesis
      using lazy_ok_read [of ttl t "s\<lparr>lazy_initialized := Some answer\<rparr>" ts None "''initialized''"] assms(2,3)
      by (simp add: RefreshInitState_def Let_def note_read_def Add_expiry_def ExpiryTime_def)
  qed
  show ?thesis
    using refresh lazy_ok_later [OF assms(1), of "expiry_base ts"] assms(2,3)
    by (auto simp: LazyLoad_Initialized_def Let_def split: option.splits bool.splits)
qed

lemma lazy_ok_step:
  assumes "lazy_ok ttl t s" and "t \<le> looked_at (lazy_times op)"
    and "looked_at (lazy_times op) \<le> expiry_base (lazy_times op)"
  shows "lazy_ok ttl (expiry_base (lazy_times op)) (lazy_step W op s)"
  using assms
  by (cases op)
    (auto simp: LazyLoad_GetFlag_def LazyLoad_GetSegment_def LazyLoad_AllFlags_def LazyLoad_AllSegments_def
      RefreshFlag_def RefreshSegment_def
      intro!: lazy_ok_Get_cached lazy_ok_RefreshItem lazy_ok_RefreshAll lazy_ok_Initialized)

lemma lazy_ok_run: "lazy_ok ttl t s \<Longrightarrow> steady t ops \<Longrightarrow> \<exists>t'. lazy_ok ttl t' (fold (lazy_step W) ops s)"
proof (induction ops arbitrary: s t)
  case (Cons op ops)
  then show ?case using lazy_ok_step [of ttl t s op W] by auto
qed auto

section \<open>Properties\<close>

text \<open>
  C11. The source is asked for the same thing at most once per refresh interval, whatever it
  answers: over any sequence of operations on a clock that does not go backwards, a later
  call of the reader for the same item, for all items of a kind or for the state of
  initialization comes at least the configured duration after the earlier one.
\<close>

theorem lazy_reads_rate_limited:
  assumes "steady t ops"
  shows "spaced ttl (reads (fold (lazy_step W) ops (LazyLoad_new ttl status)))"
proof -
  have "lazy_ok ttl t (LazyLoad_new ttl status)" by (simp add: lazy_ok_def LazyLoad_new_def)
  then obtain t' where "lazy_ok ttl t' (fold (lazy_step W) ops (LazyLoad_new ttl status))"
    using lazy_ok_run [OF _ assms] by blast
  then show ?thesis by (simp add: lazy_ok_def)
qed

definition at_time :: "int \<Rightarrow> times" where
  "at_time t = \<lparr>looked_at = t, expiry_base = t, wall_clock = t\<rparr>"

definition lazy_wire :: wire where
  "lazy_wire = \<lparr>wire_numbers = sample_numbers, json_parse = (\<lambda>_. None), iequals = (=)\<rparr>"

definition lazy_ops :: "lazy_op list" where
  "lazy_ops = [OpGetFlag (at_time 0) ''f'' (Inr None), OpGetFlag (at_time 5) ''f'' (Inl ''down''),
     OpInitialized (at_time 6) False, OpGetFlag (at_time 10) ''f'' (Inl ''down'')]"

theorem lazy_reads_rate_limited_witness:
  "\<exists>reads'. reads' = reads (fold (lazy_step lazy_wire) lazy_ops (LazyLoad_new 10 (StatusManager_new 0))) \<and>
     map (\<lambda>(scope, key, looked, base). (key, looked)) reads' = [(''f'', 0), (''initialized'', 6), (''f'', 10)] \<and>
     spaced 10 reads'"
proof -
  have "spaced 10 (reads (fold (lazy_step lazy_wire) lazy_ops (LazyLoad_new 10 (StatusManager_new 0))))"
    by (rule lazy_reads_rate_limited [of 0]) (simp add: lazy_ops_def at_time_def)
  then show ?thesis
    by (simp add: lazy_ops_def at_time_def LazyLoad_new_def LazyLoad_GetFlag_def Get_cached_def RefreshFlag_def
        RefreshItem_def DeserializeSingle_def note_read_def ExpiryTime_def State_view track_state_def State_at_def
        LazyLoad_Initialized_def RefreshInitState_def expiration_of_def ExpirationTracker_empty_def
        Add_scoped_def Add_unscoped_def scoped_defs)
qed

text \<open>
  The two ways in which a request that called the reader returns: with what was read, which is
  then in the cache and makes the status valid, or, after an error, with what the cache had, the
  error being recorded in the status.
\<close>

definition serves_read ::
  "string \<Rightarrow> FlagDescriptor option outcome \<Rightarrow> LazyLoad \<Rightarrow> LazyLoad \<Rightarrow> FlagDescriptor option \<Rightarrow> bool" where
  "serves_read key r s s' d \<longleftrightarrow> r = Returned d \<and> sm_state (lazy_status s') = dsValid \<and>
     MemoryStore_GetFlag (cache s') = (MemoryStore_GetFlag (cache s))(key := d)"

definition serves_cached ::
  "string \<Rightarrow> FlagDescriptor option outcome \<Rightarrow> LazyLoad \<Rightarrow> LazyLoad \<Rightarrow> string \<Rightarrow> bool" where
  "serves_cached key r s s' message \<longleftrightarrow> r = Returned (MemoryStore_GetFlag (cache s) key) \<and> cache s' = cache s \<and>
     map_option ei_message (sm_last_error (lazy_status s')) = Some message"

lemma GetFlag_read:
  assumes "LazyLoad_GetFlag W answer ts key s = (r, s')"
    and "State_scoped (tracker s) kFlag key (looked_at ts) \<noteq> kFresh"
  shows "reads s' = reads s @ [(Some kFlag, key, looked_at ts, expiry_base ts)] \<and>
    ms_segments (cache s') = ms_segments (cache s) \<and>
    tracker s' = Add_scoped kFlag key (expiry_base ts + fresh_duration s) (tracker s)"
    and "case DeserializeSingle W (parse_Flag (wire_numbers W)) FlagDescriptor_of answer of
      Threw \<Rightarrow> r = Threw \<and> cache s' = cache s
    | Returned (Inl e) \<Rightarrow> serves_cached key r s s' e
    | Returned (Inr d) \<Rightarrow> serves_read key r s s' d"
  using assms
  by (auto simp: LazyLoad_GetFlag_def Get_cached_def RefreshFlag_def RefreshItem_def note_read_def Let_def
      serves_read_def serves_cached_def ExpiryTime_def
      SetState_cases SetState_kind_def UpdateState_state announce_def MemoryStore_Get Upsert_flag_def RemoveFlag_def
      update_conv' delete_conv' fun_eq_iff
      split: TrackState.splits outcome.splits sum.splits option.splits prod.splits)

text \<open>
  C12. What a request for a flag returns. While the flag is fresh it is served from the cache
  and the reader is not called. Otherwise the reader is called once, and the flag is then fresh
  for the configured duration, whatever was answered. When the reader has no such item it is evicted
  and nothing is returned. An item that the reader marks as deleted is returned as the
  tombstone of its version. Of any other item the text is read: if it is not JSON the
  request throws and the cache stays; a flag is returned with its descriptor; and a value that is
  not a flag but a tombstone as that tombstone. All these are cached. After an error of the reader,
  for a null, and for a value that is neither a flag nor a tombstone, the cached descriptor is
  still served and the status has the error. Other flags and all segments are untouched.
\<close>

theorem lazy_get_flag_spec:
  assumes "LazyLoad_GetFlag W answer ts key s = (r, s')"
  shows "if State_scoped (tracker s) kFlag key (looked_at ts) = kFresh
    then r = Returned (MemoryStore_GetFlag (cache s) key) \<and> s' = s
    else reads s' = reads s @ [(Some kFlag, key, looked_at ts, expiry_base ts)] \<and>
      ms_segments (cache s') = ms_segments (cache s) \<and>
      tracker s' = Add_scoped kFlag key (expiry_base ts + fresh_duration s) (tracker s) \<and>
      (case answer of
         Inl message \<Rightarrow> serves_cached key r s s' message
       | Inr None \<Rightarrow> serves_read key r s s' None
       | Inr (Some item) \<Rightarrow>
           if sid_deleted item then serves_read key r s s' (Some (Tombstone (sid_version item)))
           else (case json_parse W (serializedItem item) of
              None \<Rightarrow> r = Threw \<and> cache s' = cache s
            | Some j \<Rightarrow>
                (case parse_Flag (wire_numbers W) j of
                   Inr (Some flag) \<Rightarrow> serves_read key r s s' (Some (FlagDescriptor_of flag))
                 | Inr None \<Rightarrow> serves_cached key r s s' ''item invalid: value is null''
                 | Inl _ \<Rightarrow>
                     (case parse_Tombstone (wire_numbers W) j of
                        Inr (Some version) \<Rightarrow> serves_read key r s s' (Some (Tombstone version))
                      | Inr None \<Rightarrow> serves_cached key r s s' ''tombstone invalid: value is null''
                      | Inl e \<Rightarrow> serves_cached key r s s' (JsonError_ToString e)))))"
proof (cases "State_scoped (tracker s) kFlag key (looked_at ts) = kFresh")
  case True
  then show ?thesis using assms by (auto simp: LazyLoad_GetFlag_def Get_cached_def)
next
  case False
  show ?thesis
    unfolding if_not_P [OF False]
    using GetFlag_read(1) [OF assms False] GetFlag_read(2) [OF assms False]
    by (cases answer)
      (auto simp: DeserializeSingle_def DeserializeJsonDescriptor_def split: option.splits if_splits sum.splits)
qed

definition stored_flag :: FlagDescriptor where
  "stored_flag = FlagDescriptor_of sample_json_flag"

definition stored_wire :: wire where
  "stored_wire = \<lparr>wire_numbers = sample_numbers,
     json_parse = (\<lambda>s. if s = ''flag'' then Some (parsed_form (Flag_json sample_json_flag))
       else if s = ''tombstone'' then Some (parsed_form (Tombstone_json ''f'' (Tombstone 9 :: FlagDescriptor))) else None),
     iequals = (=)\<rparr>"

lemma stored_parsed:
  "json_parse stored_wire ''flag'' = Some (parsed_form (Flag_json sample_json_flag))"
  "json_parse stored_wire ''tombstone'' = Some (JObject [(''key'', JString ''f''), (''version'', JInt64 9), (''deleted'', JBool True)])"
  "json_parse stored_wire ''oops'' = None" "wire_numbers stored_wire = sample_numbers"
  by (simp_all add: stored_wire_def Tombstone_json_def Tombstone_def object_emplace_def)

theorem lazy_get_flag_spec_witness:
  "let s = LazyLoad_new 10 (StatusManager_new 0);
       get = (\<lambda>answer. fst (LazyLoad_GetFlag stored_wire answer (at_time 3) ''f'' s))
   in get (Inr (Some (Present 0 ''flag''))) = Returned (Some stored_flag) \<and>
      get (Inr (Some (Present 0 ''oops''))) = Threw \<and>
      get (Inr (Some (SerializedTombstone 4 []))) = Returned (Some (Tombstone 4)) \<and>
      get (Inr None) = Returned None \<and> get (Inl ''down'') = Returned None"
proof -
  have stale: "State_scoped (tracker (LazyLoad_new 10 st)) kFlag ''f'' (looked_at (at_time 3)) \<noteq> kFresh" for st
    by (simp add: State_scoped_def scoped_defs LazyLoad_new_def ExpirationTracker_empty_def)
  note spec = lazy_get_flag_spec [OF prod.collapse [symmetric], where W = stored_wire and ts = "at_time 3" and key = "''f''"
      and s = "LazyLoad_new 10 (StatusManager_new 0)", unfolded if_not_P [OF stale]]
  have empty: "ms_flags (cache (LazyLoad_new 10 st)) = []" for st
    by (simp add: LazyLoad_new_def MemoryStore_empty_def)
  show ?thesis
    unfolding Let_def
    using spec [of "Inr (Some (Present 0 ''flag''))"] spec [of "Inr (Some (Present 0 ''oops''))"]
      spec [of "Inr (Some (SerializedTombstone 4 []))"] spec [of "Inr None"] spec [of "Inl ''down''"]
    by (simp add: Present_def SerializedTombstone_def stored_parsed sample_parsed serves_read_def serves_cached_def
        stored_flag_def empty)
qed

text \<open>
  A deleted flag that is stored as the JSON of a tombstone comes back to life: a reader
  that hands out the stored text as a present item, as the Redis source does, makes the
  deserializer return a flag that is off and has no variations, because the fields of a
  tombstone are all that a flag requires. The text is a valid tombstone with that version.
\<close>

theorem tombstone_read_as_flag:
  assumes "json_parse W stored = Some (JObject obj)" and "map_of obj ''key'' = Some (JString key)"
    and "map_of obj ''version'' = Some n" and "parse_uint64 (wire_numbers W) n = Inr (Some version)"
    and "map_of obj ''deleted'' = Some (JBool True)"
    and "\<And>name. name \<notin> {''key'', ''version'', ''deleted''} \<Longrightarrow> map_of obj name = None"
  shows "parse_Tombstone (wire_numbers W) (JObject obj) = Inr (Some version) \<and>
    (\<exists>flag. DeserializeSingle W (parse_Flag (wire_numbers W)) FlagDescriptor_of (Inr (Some (Present 0 stored))) =
        Returned (Inr (Some (FlagDescriptor_of flag))) \<and>
      flag_key flag = key \<and> flag_version flag = version \<and> \<not> flag_on flag \<and> variations flag = [] \<and>
      offVariation flag = None)"
proof -
  have "\<exists>flag. parse_Flag (wire_numbers W) (JObject obj) = Inr (Some flag) \<and>
      flag_key flag = key \<and> flag_version flag = version \<and> \<not> flag_on flag \<and> variations flag = [] \<and>
      offVariation flag = None"
    using assms by (simp add: parse_Flag_def PARSE_REQUIRED_FIELD_def PARSE_FIELD_DEFAULT_def PARSE_CONDITIONAL_FIELD_def)
  moreover have "parse_Tombstone (wire_numbers W) (JObject obj) = Inr (Some version)"
    using assms by (simp add: parse_Tombstone_def PARSE_REQUIRED_FIELD_def)
  ultimately show ?thesis
    using assms(1) by (auto simp: DeserializeSingle_def DeserializeJsonDescriptor_def Present_def)
qed

lemma sample_nine: "parse_uint64 sample_numbers (JInt64 9) = Inr (Some 9)"
  by (simp add: parse_uint64_def sample_numbers_def)

theorem tombstone_read_as_flag_witness:
  "\<exists>flag. DeserializeSingle stored_wire (parse_Flag sample_numbers) FlagDescriptor_of
        (Inr (Some (Present 0 ''tombstone''))) = Returned (Inr (Some (FlagDescriptor_of flag))) \<and>
      flag_key flag = ''f'' \<and> flag_version flag = 9 \<and> \<not> flag_on flag \<and> variations flag = [] \<and> offVariation flag = None"
  using tombstone_read_as_flag [of stored_wire "''tombstone''"
      "[(''key'', JString ''f''), (''version'', JInt64 9), (''deleted'', JBool True)]" "''f''" "JInt64 9" 9]
  by (simp add: stored_parsed sample_nine)

end
