(* ===== verification/SSE_Parser.thy ===== *)
theory SSE_Parser
  imports Prelude
begin

text \<open>
  The event stream parser of \<^verbatim>\<open>libs/server-sent-events/src/parser.hpp\<close>: it cuts the chunks
  of a response body into lines, and the lines into events, which it hands to a receiver.
  The receiver is the list of the events it got, in order. The body's \<^verbatim>\<open>last_event_id_\<close> is
  a field of the reader's state, because one reader is the only writer of it.
\<close>

section \<open>The reader\<close>

abbreviation CR :: char where "CR \<equiv> CHR 0x0D"
abbreviation LF :: char where "LF \<equiv> CHR 0x0A"

record Event =
  event_type :: string
  event_data :: string
  event_id :: "string option"

definition Event_default :: Event where
  "Event_default = \<lparr>event_type = ''message'', event_data = [], event_id = None\<rparr>"

definition append_data :: "string \<Rightarrow> Event \<Rightarrow> Event" where
  "append_data input ev = ev\<lparr>event_data := event_data ev @ input @ [LF]\<rparr>"

definition trim_trailing_newline :: "Event \<Rightarrow> Event" where
  "trim_trailing_newline ev =
     (if event_data ev \<noteq> [] \<and> last (event_data ev) = LF
      then ev\<lparr>event_data := butlast (event_data ev)\<rparr> else ev)"

record reader =
  buffered_line :: "string option"
  complete_lines :: "string list"
  begin_CR :: bool
  event :: "Event option"
  last_event_id :: "string option"
  received :: "Event list"

definition reader_new :: reader where
  "reader_new = \<lparr>buffered_line = None, complete_lines = [], begin_CR = False, event = None,
     last_event_id = None, received = []\<rparr>"

definition complete_line :: "reader \<Rightarrow> reader" where
  "complete_line r =
     (case buffered_line r of
        Some line \<Rightarrow> r\<lparr>complete_lines := complete_lines r @ [line], buffered_line := None\<rparr>
      | None \<Rightarrow> r)"

definition append_up_to :: "string \<Rightarrow> string \<Rightarrow> reader \<Rightarrow> nat \<times> reader" where
  "append_up_to body search r =
     (let prefix = takeWhile (\<lambda>c. c \<notin> set search) body
      in (length prefix,
          r\<lparr>buffered_line := Some (case buffered_line r of Some line \<Rightarrow> line @ prefix | None \<Rightarrow> prefix)\<rparr>))"

text \<open>The loop of \<^verbatim>\<open>parse_stream\<close> at index \<open>i\<close>; its last branch is never taken.\<close>

function parse_stream_from :: "string \<Rightarrow> nat \<Rightarrow> reader \<Rightarrow> reader" where
  "parse_stream_from body i r =
     (if i < length body then
        (let (n, r) = append_up_to (drop i body) [CR, LF] r; i = i + n in
         if i = length body then r
         else if body ! i = CR then
           parse_stream_from body (Suc i) ((complete_line r)\<lparr>begin_CR := True\<rparr>)
         else if body ! i = LF then
           (if begin_CR r then parse_stream_from body (Suc i) (r\<lparr>begin_CR := False\<rparr>)
            else parse_stream_from body (Suc i) (complete_line r))
         else parse_stream_from body i (r\<lparr>begin_CR := False\<rparr>))
      else r)"
  by pat_completeness auto

definition parse_stream :: "string \<Rightarrow> reader \<Rightarrow> reader" where
  "parse_stream body r = parse_stream_from body 0 r"

text \<open>
  \<^verbatim>\<open>parse_field\<close> asserts that the line is not empty, which holds where it is called.
\<close>

definition parse_field :: "string \<Rightarrow> string \<times> string" where
  "parse_field field =
     (let key = takeWhile (\<lambda>c. c \<noteq> CHR '':'') field in
      if CHR '':'' \<notin> set field then (field, [])
      else if key = [] then (''comment'', drop 1 field)
      else
        (let field = drop (Suc (length key)) field;
             field = (case field of c # cs \<Rightarrow> if c = CHR '' '' then cs else field | [] \<Rightarrow> field)
         in (key, field)))"

text \<open>What the loop over the lines does with one field.\<close>

definition handle_field :: "string \<times> string \<Rightarrow> reader \<Rightarrow> reader" where
  "handle_field field r =
     (if fst field = ''comment'' then
        r\<lparr>received := received r @ [\<lparr>event_type = ''comment'', event_data = snd field, event_id = None\<rparr>]\<rparr>
      else
        (let ev = (case event r of Some ev \<Rightarrow> ev | None \<Rightarrow> Event_default\<lparr>event_id := last_event_id r\<rparr>);
             r = r\<lparr>event := Some ev\<rparr>
         in if fst field = ''event'' then r\<lparr>event := Some (ev\<lparr>event_type := snd field\<rparr>)\<rparr>
            else if fst field = ''data'' then r\<lparr>event := Some (append_data (snd field) ev)\<rparr>
            else if fst field = ''id'' then
              (if NUL \<in> set (snd field) then r
               else r\<lparr>last_event_id := Some (snd field), event := Some (ev\<lparr>event_id := Some (snd field)\<rparr>)\<rparr>)
            else r))"

text \<open>The inner loop of \<^verbatim>\<open>parse_events\<close>, with \<^verbatim>\<open>seen_empty_line\<close> as its result.\<close>

fun parse_lines :: "string list \<Rightarrow> reader \<Rightarrow> bool \<times> reader" where
  "parse_lines [] r = (False, r\<lparr>complete_lines := []\<rparr>)"
| "parse_lines (line # rest) r =
     (let r = r\<lparr>complete_lines := rest\<rparr> in
      if line = [] then (if event r \<noteq> None then (True, r) else parse_lines rest r)
      else parse_lines rest (handle_field (parse_field line) r))"

lemma parse_lines_shorter:
  "parse_lines lines r = (True, r') \<Longrightarrow> length (complete_lines r') < length lines"
  by (induction lines r rule: parse_lines.induct) (auto simp: Let_def split: if_splits)

definition dispatch :: "reader \<Rightarrow> reader" where
  "dispatch r =
     (case event r of
        Some ev \<Rightarrow> r\<lparr>received := received r @ [trim_trailing_newline ev], event := None\<rparr>
      | None \<Rightarrow> r)"

lemma complete_lines_dispatch [simp]: "complete_lines (dispatch r) = complete_lines r"
  by (simp add: dispatch_def split: option.splits)

function parse_events :: "reader \<Rightarrow> reader" where
  "parse_events r =
     (let (seen_empty_line, r) = parse_lines (complete_lines r) r in
      if seen_empty_line then parse_events (dispatch r) else r)"
  by pat_completeness auto
termination
  by (relation "measure (\<lambda>r. length (complete_lines r))")
    (auto dest: parse_lines_shorter [OF sym])

declare parse_events.simps [simp del]

definition put :: "string \<Rightarrow> reader \<Rightarrow> reader" where
  "put data r = parse_events (parse_stream data r)"

section \<open>The parser, character by character\<close>

lemma stop_char:
  assumes "i < length body" and "i + length (takeWhile P (drop i body)) \<noteq> length body"
  shows "\<not> P (body ! (i + length (takeWhile P (drop i body))))"
proof -
  let ?n = "length (takeWhile P (drop i body))"
  have "?n \<le> length (drop i body)" by (rule length_takeWhile_le)
  then have "?n < length (drop i body)" using assms by auto
  then have "\<not> P (drop i body ! ?n)" by (rule nth_length_takeWhile)
  then show ?thesis using assms(1) by simp
qed

termination parse_stream_from
proof (relation "measure (\<lambda>(body, i, r). length body - i)", goal_cases)
  case 5
  then show ?case using stop_char by (fastforce simp: append_up_to_def Let_def)
qed (auto simp: append_up_to_def Let_def)

declare parse_stream_from.simps [simp del]

definition buffer :: "string \<Rightarrow> reader \<Rightarrow> reader" where
  "buffer s r = r\<lparr>buffered_line := Some (case buffered_line r of Some line \<Rightarrow> line @ s | None \<Rightarrow> s)\<rparr>"

definition step_char :: "char \<Rightarrow> reader \<Rightarrow> reader" where
  "step_char c r =
     (if c = CR then (complete_line (buffer [] r))\<lparr>begin_CR := True\<rparr>
      else if c = LF then
        (if begin_CR r then (buffer [] r)\<lparr>begin_CR := False\<rparr> else complete_line (buffer [] r))
      else buffer [c] r)"

lemma buffer_append [simp]: "buffer t (buffer s r) = buffer (s @ t) r"
  by (simp add: buffer_def split: option.splits)

lemma fold_step_text:
  "\<forall>c\<in>set s. c \<noteq> CR \<and> c \<noteq> LF \<Longrightarrow> fold step_char s r = (if s = [] then r else buffer s r)"
proof (induction s arbitrary: r)
  case (Cons c s)
  then show ?case by (cases "s = []") (simp_all add: step_char_def)
qed simp

lemma begin_CR_buffer [simp]: "begin_CR (buffer s r) = begin_CR r"
  by (simp add: buffer_def)

lemma step_buffered:
  "c = CR \<or> c = LF \<Longrightarrow> step_char c (if s = [] then r else buffer s r) =
     (if c = CR then (complete_line (buffer s r))\<lparr>begin_CR := True\<rparr>
      else if begin_CR r then (buffer s r)\<lparr>begin_CR := False\<rparr> else complete_line (buffer s r))"
  by (auto simp: step_char_def)

lemma append_up_to_buffer:
  "append_up_to body search r =
     (length (takeWhile (\<lambda>c. c \<notin> set search) body), buffer (takeWhile (\<lambda>c. c \<notin> set search) body) r)"
  by (simp add: append_up_to_def buffer_def Let_def)

lemma parse_stream_from_fold: "parse_stream_from body i r = fold step_char (drop i body) r"
proof (induction "length body - i" arbitrary: i r rule: less_induct)
  case less
  show ?case
  proof (cases "i < length body")
    case True
    define p where "p = takeWhile (\<lambda>c. c \<notin> set [CR, LF]) (drop i body)"
    define j where "j = i + length p"
    have plain: "\<forall>c\<in>set p. c \<noteq> CR \<and> c \<noteq> LF" by (auto simp: p_def dest: set_takeWhileD)
    have "drop i body = p @ drop (length p) (drop i body)"
      unfolding p_def dropWhile_eq_drop [symmetric] by (rule takeWhile_dropWhile_id [symmetric])
    then have split: "drop i body = p @ drop j body" by (simp add: j_def add.commute)
    have app: "append_up_to (drop i body) [CR, LF] r = (length p, buffer p r)"
      by (simp only: append_up_to_buffer p_def)
    have step: "parse_stream_from body i r =
      (if j = length body then buffer p r
       else if body ! j = CR then parse_stream_from body (Suc j) ((complete_line (buffer p r))\<lparr>begin_CR := True\<rparr>)
       else if body ! j = LF then
         (if begin_CR r then parse_stream_from body (Suc j) ((buffer p r)\<lparr>begin_CR := False\<rparr>)
          else parse_stream_from body (Suc j) (complete_line (buffer p r)))
       else parse_stream_from body j ((buffer p r)\<lparr>begin_CR := False\<rparr>))"
      by (subst parse_stream_from.simps) (simp add: True app j_def)
    show ?thesis
    proof (cases "j = length body")
      case all: True
      then have "p \<noteq> []" using True by (auto simp: j_def)
      then show ?thesis
        using all by (simp add: step split fold_step_text [OF plain])
    next
      case more: False
      have "j \<le> length body"
        using True length_takeWhile_le [of "\<lambda>c. c \<notin> set [CR, LF]" "drop i body"] by (simp add: j_def p_def)
      then have j: "j < length body" using more by simp
      have stop: "body ! j = CR \<or> body ! j = LF"
        using stop_char [OF True, of "\<lambda>c. c \<notin> set [CR, LF]"] more by (auto simp: j_def p_def)
      have rest: "drop j body = body ! j # drop (Suc j) body" using j by (rule Cons_nth_drop_Suc [symmetric])
      have IH: "parse_stream_from body (Suc j) r' = fold step_char (drop (Suc j) body) r'" for r'
        using j by (intro less.hyps) (simp add: j_def)
      show ?thesis
        using more stop by (auto simp: step split rest fold_step_text [OF plain] step_buffered IH)
    qed
  qed (simp add: parse_stream_from.simps)
qed

lemma parse_stream_fold: "parse_stream body r = fold step_char body r"
  by (simp add: parse_stream_def parse_stream_from_fold)

section \<open>The events, line by line\<close>

definition step_line :: "string \<Rightarrow> reader \<Rightarrow> reader" where
  "step_line line r = (if line = [] then dispatch r else handle_field (parse_field line) r)"

text \<open>The fields of the line scanner, which the handling of lines neither reads nor writes.\<close>

definition with_scanner :: "string option \<Rightarrow> bool \<Rightarrow> string list \<Rightarrow> reader \<Rightarrow> reader" where
  "with_scanner b cr ls r = r\<lparr>buffered_line := b, begin_CR := cr, complete_lines := ls\<rparr>"

lemma with_scanner_idem [simp]: "with_scanner b cr ls (with_scanner b' cr' ls' r) = with_scanner b cr ls r"
  by (simp add: with_scanner_def)

lemma with_scanner_fields [simp]:
  "buffered_line (with_scanner b cr ls r) = b" "begin_CR (with_scanner b cr ls r) = cr"
  "complete_lines (with_scanner b cr ls r) = ls" "event (with_scanner b cr ls r) = event r"
  "last_event_id (with_scanner b cr ls r) = last_event_id r" "received (with_scanner b cr ls r) = received r"
  by (simp_all add: with_scanner_def)

lemma with_scanner_self: "with_scanner (buffered_line r) (begin_CR r) (complete_lines r) r = r"
  by (simp add: with_scanner_def)

lemma dispatch_scanner: "dispatch (with_scanner b cr ls r) = with_scanner b cr ls (dispatch r)"
  by (cases r) (simp add: dispatch_def with_scanner_def split: option.splits)

lemma handle_field_scanner: "handle_field f (with_scanner b cr ls r) = with_scanner b cr ls (handle_field f r)"
  by (cases r) (simp add: handle_field_def with_scanner_def Let_def split: option.splits)

lemma step_line_scanner: "step_line l (with_scanner b cr ls r) = with_scanner b cr ls (step_line l r)"
  by (simp add: step_line_def dispatch_scanner handle_field_scanner)

lemma fold_step_line_scanner:
  "fold step_line lines (with_scanner b cr ls r) = with_scanner b cr ls (fold step_line lines r)"
  by (induction lines arbitrary: r) (simp_all add: step_line_scanner)

lemma set_lines_scanner: "r\<lparr>complete_lines := ls\<rparr> = with_scanner (buffered_line r) (begin_CR r) ls r"
  by (simp add: with_scanner_def)

lemma handle_field_frame [simp, frame_simps]:
  "buffered_line (handle_field f r) = buffered_line r" "begin_CR (handle_field f r) = begin_CR r"
  "complete_lines (handle_field f r) = complete_lines r"
  by (simp_all add: handle_field_def Let_def)

lemma parse_lines_fold:
  "parse_lines lines r = (seen, r') \<Longrightarrow>
     (seen \<longrightarrow> fold step_line lines (r\<lparr>complete_lines := []\<rparr>) =
        fold step_line (complete_lines r') (dispatch (r'\<lparr>complete_lines := []\<rparr>))) \<and>
     (\<not> seen \<longrightarrow> fold step_line lines (r\<lparr>complete_lines := []\<rparr>) = r')"
proof (induction lines r arbitrary: seen r' rule: parse_lines.induct)
  case (1 r)
  then show ?case by simp
next
  case (2 line rest r)
  let ?r = "r\<lparr>complete_lines := rest\<rparr>"
  consider (empty) "line = []" "event r = None" | (stop) "line = []" "event r \<noteq> None" | (field) "line \<noteq> []" by blast
  then show ?case
  proof cases
    case empty
    then have "parse_lines rest ?r = (seen, r')" using 2(3) by simp
    moreover have "dispatch (r\<lparr>complete_lines := []\<rparr>) = r\<lparr>complete_lines := []\<rparr>"
      using empty by (simp add: dispatch_def)
    ultimately show ?thesis using 2(1) [OF refl] empty by (simp add: step_line_def)
  next
    case stop
    then show ?thesis using 2(3) by (auto simp: step_line_def)
  next
    case field
    then have "parse_lines rest (handle_field (parse_field line) ?r) = (seen, r')" using 2(3) by simp
    moreover have "(handle_field (parse_field line) ?r)\<lparr>complete_lines := []\<rparr> =
        handle_field (parse_field line) (r\<lparr>complete_lines := []\<rparr>)"
      by (simp add: set_lines_scanner handle_field_scanner)
    ultimately show ?thesis using 2(2) [OF refl] field by (simp add: step_line_def)
  qed
qed

lemma parse_events_fold: "parse_events r = fold step_line (complete_lines r) (r\<lparr>complete_lines := []\<rparr>)"
proof (induction r rule: parse_events.induct)
  case (1 r)
  obtain seen r' where p: "parse_lines (complete_lines r) r = (seen, r')" by force
  show ?case
  proof (cases seen)
    case True
    have "dispatch (r'\<lparr>complete_lines := []\<rparr>) = (dispatch r')\<lparr>complete_lines := []\<rparr>"
      by (simp add: dispatch_def split: option.splits)
    then show ?thesis
      using parse_lines_fold [OF p] 1 [OF p [symmetric] refl True] True
      by (simp add: parse_events.simps [of r] p)
  next
    case False
    then show ?thesis using parse_lines_fold [OF p] by (simp add: parse_events.simps [of r] p)
  qed
qed

section \<open>Scanning for lines\<close>

text \<open>
  What scanning does to the unfinished line and the flag, and the lines it completes.
\<close>

definition scan_char :: "char \<Rightarrow> string option \<Rightarrow> bool \<Rightarrow> string option \<times> bool \<times> string list" where
  "scan_char c b cr =
     (let t = (case b of Some line \<Rightarrow> line | None \<Rightarrow> []) in
      if c = CR then (None, True, [t])
      else if c = LF then (if cr then (Some t, False, []) else (None, cr, [t]))
      else (Some (t @ [c]), cr, []))"

fun scan :: "string \<Rightarrow> string option \<Rightarrow> bool \<Rightarrow> string option \<times> bool \<times> string list" where
  "scan [] b cr = (b, cr, [])"
| "scan (c # cs) b cr =
     (let (b1, cr1, ls1) = scan_char c b cr; (b2, cr2, ls2) = scan cs b1 cr1 in (b2, cr2, ls1 @ ls2))"

lemma scan_append:
  "scan (s @ t) b cr =
     (let (b1, cr1, ls1) = scan s b cr; (b2, cr2, ls2) = scan t b1 cr1 in (b2, cr2, ls1 @ ls2))"
  by (induction s arbitrary: b cr) (auto simp: Let_def split: prod.splits)

lemma step_char_scan:
  "scan_char c (buffered_line r) (begin_CR r) = (b, cr, ls) \<Longrightarrow>
   step_char c r = with_scanner b cr (complete_lines r @ ls) r"
  by (cases r)
    (auto simp: scan_char_def step_char_def with_scanner_def buffer_def complete_line_def Let_def
      split: if_splits option.splits)

lemma fold_step_scan:
  "scan s (buffered_line r) (begin_CR r) = (b, cr, ls) \<Longrightarrow>
   fold step_char s r = with_scanner b cr (complete_lines r @ ls) r"
proof (induction s arbitrary: r ls)
  case Nil
  then show ?case using with_scanner_self [of r] by simp
next
  case (Cons c s)
  obtain b1 cr1 ls1 where c: "scan_char c (buffered_line r) (begin_CR r) = (b1, cr1, ls1)" by (rule prod_cases3)
  obtain b2 cr2 ls2 where s: "scan s b1 cr1 = (b2, cr2, ls2)" by (rule prod_cases3)
  show ?case
    using Cons.IH [of "with_scanner b1 cr1 (complete_lines r @ ls1) r" ls2] Cons.prems c s
    by (simp add: step_char_scan [OF c])
qed

lemma put_scan:
  assumes "complete_lines r = []" and "scan s (buffered_line r) (begin_CR r) = (b, cr, ls)"
  shows "put s r = with_scanner b cr [] (fold step_line ls r)"
  using assms
  by (simp add: put_def parse_stream_fold fold_step_scan parse_events_fold set_lines_scanner fold_step_line_scanner)

lemma complete_lines_put [simp]: "complete_lines (put s r) = []"
proof -
  obtain b cr ls where "scan s (buffered_line r) (begin_CR r) = (b, cr, ls)" by (rule prod_cases3)
  then show ?thesis
    by (simp add: put_def parse_stream_fold fold_step_scan parse_events_fold set_lines_scanner fold_step_line_scanner)
qed

lemma put_append: "complete_lines r = [] \<Longrightarrow> put (s @ t) r = put t (put s r)"
proof -
  assume r: "complete_lines r = []"
  obtain b cr ls where s: "scan s (buffered_line r) (begin_CR r) = (b, cr, ls)" by (rule prod_cases3)
  obtain b' cr' ls' where t: "scan t b cr = (b', cr', ls')" by (rule prod_cases3)
  have "put (s @ t) r = with_scanner b' cr' [] (fold step_line (ls @ ls') r)"
    by (rule put_scan [OF r]) (simp add: scan_append s t)
  moreover have "put t (put s r) = with_scanner b' cr' [] (fold step_line ls' (put s r))"
    using put_scan [OF r s] t by (intro put_scan) simp_all
  ultimately show ?thesis
    using put_scan [OF r s] by (simp add: fold_step_line_scanner)
qed

lemma put_Nil: "complete_lines r = [] \<Longrightarrow> put [] r = r"
  using put_scan [of r "[]"] with_scanner_self [of r] by simp

lemma put_chunks: "complete_lines r = [] \<Longrightarrow> fold put chunks r = put (concat chunks) r"
  by (induction chunks arbitrary: r) (simp_all add: put_Nil put_append)

lemma scan_text:
  "\<forall>c\<in>set s. c \<noteq> CR \<and> c \<noteq> LF \<Longrightarrow>
   scan s b cr = (if s = [] then b else Some ((case b of Some l \<Rightarrow> l | None \<Rightarrow> []) @ s), cr, [])"
proof (induction s arbitrary: b)
  case (Cons c s)
  then show ?case by (simp add: scan_char_def split: option.splits)
qed simp

text \<open>The three line endings, each used throughout, from a state between two lines.\<close>

definition between_lines :: "string \<Rightarrow> string option \<Rightarrow> bool \<Rightarrow> bool" where
  "between_lines nl b cr \<longleftrightarrow> b \<in> {None, Some []} \<and> (nl = [CR] \<or> \<not> cr)"

lemma scan_line:
  assumes "nl \<in> {[LF], [CR], [CR, LF]}" and "between_lines nl b cr" and "\<forall>c\<in>set s. c \<noteq> CR \<and> c \<noteq> LF"
  shows "\<exists>b' cr'. scan (s @ nl) b cr = (b', cr', [s]) \<and> between_lines nl b' cr'"
  using assms(1,2) by (auto simp: scan_append scan_text [OF assms(3)] between_lines_def scan_char_def split: option.splits)

lemma scan_lines:
  assumes "nl \<in> {[LF], [CR], [CR, LF]}" and "between_lines nl b cr"
    and "\<forall>s\<in>set ls. \<forall>c\<in>set s. c \<noteq> CR \<and> c \<noteq> LF"
  shows "\<exists>b' cr'. scan (concat (map (\<lambda>s. s @ nl) ls)) b cr = (b', cr', ls) \<and> between_lines nl b' cr'"
  using assms(2,3)
proof (induction ls arbitrary: b cr)
  case (Cons s ls)
  obtain b1 cr1 where s: "scan (s @ nl) b cr = (b1, cr1, [s])" "between_lines nl b1 cr1"
    using scan_line [OF assms(1) Cons.prems(1)] Cons.prems(2) by (metis list.set_intros(1))
  obtain b2 cr2 where "scan (concat (map (\<lambda>s. s @ nl) ls)) b1 cr1 = (b2, cr2, ls)" "between_lines nl b2 cr2"
    using Cons.IH [OF s(2)] Cons.prems(2) by auto
  then show ?case using s by (simp add: scan_append [of "s @ nl"] del: append_assoc)
qed simp

section \<open>Printing events\<close>

text \<open>
  An event as a server writes it: its type, the lines of its data and an optional id, one
  field per line, and an empty line at the end.
\<close>

type_synonym wire_event = "string \<times> string list \<times> string option"

fun event_lines :: "wire_event \<Rightarrow> string list" where
  "event_lines (typ, dat, ident) =
     (''event: '' @ typ) # map (\<lambda>l. ''data: '' @ l) dat @
     (case ident of Some i \<Rightarrow> [''id: '' @ i] | None \<Rightarrow> []) @ [[]]"

definition print_event :: "string \<Rightarrow> wire_event \<Rightarrow> string" where
  "print_event nl e = concat (map (\<lambda>l. l @ nl) (event_lines e))"

fun join_lines :: "string list \<Rightarrow> string" where
  "join_lines [] = []"
| "join_lines [l] = l"
| "join_lines (l # ls) = l @ LF # join_lines ls"

text \<open>What a receiver should get: an event without an id has the last id seen before it.\<close>

fun expected :: "string option \<Rightarrow> wire_event list \<Rightarrow> Event list" where
  "expected last_id [] = []"
| "expected last_id ((typ, dat, ident) # es) =
     (let last_id = (case ident of Some i \<Rightarrow> Some i | None \<Rightarrow> last_id)
      in \<lparr>event_type = typ, event_data = join_lines dat, event_id = last_id\<rparr> # expected last_id es)"

definition plain :: "string \<Rightarrow> bool" where
  "plain s \<longleftrightarrow> CR \<notin> set s \<and> LF \<notin> set s"

fun event_ok :: "wire_event \<Rightarrow> bool" where
  "event_ok (typ, dat, ident) \<longleftrightarrow> plain typ \<and> (\<forall>l\<in>set dat. plain l) \<and>
     (case ident of Some i \<Rightarrow> plain i \<and> NUL \<notin> set i | None \<Rightarrow> True)"

lemma step_line_field:
  "step_line (''event: '' @ v) r = handle_field (''event'', v) r"
  "step_line (''data: '' @ v) r = handle_field (''data'', v) r"
  "step_line (''id: '' @ v) r = handle_field (''id'', v) r"
  by (simp_all add: step_line_def parse_field_def)

lemma join_lines_butlast: "ls \<noteq> [] \<Longrightarrow> concat (map (\<lambda>l. l @ [LF]) ls) = join_lines ls @ [LF]"
  by (induction ls rule: join_lines.induct) auto

lemma trim_joined:
  "trim_trailing_newline \<lparr>event_type = t, event_data = concat (map (\<lambda>l. l @ [LF]) ls), event_id = i\<rparr> =
     \<lparr>event_type = t, event_data = join_lines ls, event_id = i\<rparr>"
  by (cases "ls = []") (simp_all add: trim_trailing_newline_def join_lines_butlast)

lemma fold_data_lines:
  "event r = Some ev \<Longrightarrow> fold step_line (map (\<lambda>l. ''data: '' @ l) dat) r =
     r\<lparr>event := Some (ev\<lparr>event_data := event_data ev @ concat (map (\<lambda>l. l @ [LF]) dat)\<rparr>)\<rparr>"
proof (induction dat arbitrary: r ev)
  case (Cons l dat)
  have "step_line (''data: '' @ l) r = r\<lparr>event := Some (append_data l ev)\<rparr>"
    using Cons.prems by (simp only: step_line_field) (simp add: handle_field_def Let_def)
  then show ?case
    using Cons.IH [of "r\<lparr>event := Some (append_data l ev)\<rparr>" "append_data l ev"]
    by (simp add: append_data_def)
qed simp

lemma fold_event_lines:
  assumes "event r = None" and "event_ok (typ, dat, ident)"
  defines "i \<equiv> (case ident of Some i \<Rightarrow> Some i | None \<Rightarrow> last_event_id r)"
  shows "fold step_line (event_lines (typ, dat, ident)) r =
    r\<lparr>last_event_id := i, received := received r @ [\<lparr>event_type = typ, event_data = join_lines dat, event_id = i\<rparr>]\<rparr>"
proof -
  let ?ev = "\<lparr>event_type = typ, event_data = [], event_id = last_event_id r\<rparr>"
  let ?ev' = "?ev\<lparr>event_data := concat (map (\<lambda>l. l @ [LF]) dat)\<rparr>"
  have first: "step_line (''event: '' @ typ) r = r\<lparr>event := Some ?ev\<rparr>"
    using assms(1) by (simp only: step_line_field) (simp add: handle_field_def Let_def Event_default_def)
  have data: "fold step_line (map (\<lambda>l. ''data: '' @ l) dat) (r\<lparr>event := Some ?ev\<rparr>) = r\<lparr>event := Some ?ev'\<rparr>"
    by (subst fold_data_lines [of _ ?ev]) simp_all
  have ident: "fold step_line (case ident of Some i \<Rightarrow> [''id: '' @ i] | None \<Rightarrow> []) (r\<lparr>event := Some ?ev'\<rparr>) =
      r\<lparr>last_event_id := i, event := Some (?ev'\<lparr>event_id := i\<rparr>)\<rparr>"
  proof (cases ident)
    case None
    then show ?thesis by (simp add: i_def)
  next
    case (Some x)
    have "step_line (''id: '' @ x) (r\<lparr>event := Some ?ev'\<rparr>) =
        handle_field (''id'', x) (r\<lparr>event := Some ?ev'\<rparr>)"
      by (rule step_line_field)
    then show ?thesis using Some assms(2) by (simp add: handle_field_def Let_def i_def)
  qed
  have "fold step_line (event_lines (typ, dat, ident)) r =
      step_line [] (r\<lparr>last_event_id := i, event := Some (?ev'\<lparr>event_id := i\<rparr>)\<rparr>)"
    by (simp only: event_lines.simps fold_append fold_simps comp_apply first data ident)
  also have "\<dots> = r\<lparr>last_event_id := i, received := received r @
      [\<lparr>event_type = typ, event_data = join_lines dat, event_id = i\<rparr>]\<rparr>"
    using assms(1) by (cases r) (simp add: step_line_def dispatch_def trim_joined)
  finally show ?thesis .
qed

lemma fold_events:
  "event r = None \<Longrightarrow> \<forall>e\<in>set es. event_ok e \<Longrightarrow>
   received (fold step_line (concat (map event_lines es)) r) = received r @ expected (last_event_id r) es"
proof (induction es arbitrary: r)
  case (Cons e es)
  obtain t dat ident where e: "e = (t, dat, ident)" by (rule prod_cases3)
  show ?case
    using Cons.prems Cons.IH by (simp add: e fold_event_lines Let_def del: event_lines.simps event_ok.simps)
qed simp

lemma event_lines_plain: "event_ok e \<Longrightarrow> l \<in> set (event_lines e) \<Longrightarrow> plain l"
  by (cases e rule: event_ok.cases) (auto simp: plain_def split: option.splits)

lemma print_events_lines:
  "concat (map (print_event nl) es) = concat (map (\<lambda>l. l @ nl) (concat (map event_lines es)))"
  by (induction es) (simp_all add: print_event_def del: event_lines.simps)

section \<open>Properties\<close>

text \<open>
  C26. How the network cuts the stream does not matter: feeding the chunks one by one
  leaves the reader in the same state, with the same events received, as feeding the whole
  stream at once.
\<close>

theorem chunks_do_not_matter:
  "fold put chunks reader_new = put (concat chunks) reader_new"
  by (rule put_chunks) (simp add: reader_new_def)

text \<open>
  C27. Events that a server prints arrive as they are: for each of the three line
  endings, however the text is cut into chunks, the receiver gets the events in order, the
  data lines joined by newlines, and the last id where an event has none.
\<close>

theorem events_arrive:
  assumes "nl \<in> {[LF], [CR], [CR, LF]}" and "\<forall>e\<in>set es. event_ok e"
    and "concat chunks = concat (map (print_event nl) es)"
  shows "received (fold put chunks reader_new) = expected None es"
proof -
  let ?lines = "concat (map event_lines es)"
  have plain: "\<forall>l\<in>set ?lines. \<forall>c\<in>set l. c \<noteq> CR \<and> c \<noteq> LF"
  proof (intro ballI)
    fix l c assume "l \<in> set ?lines" and c: "c \<in> set l"
    then obtain e where "e \<in> set es" "l \<in> set (event_lines e)" by auto
    then have "plain l" using assms(2) event_lines_plain by blast
    then show "c \<noteq> CR \<and> c \<noteq> LF" using c by (auto simp: plain_def)
  qed
  have start: "between_lines nl (buffered_line reader_new) (begin_CR reader_new)"
    by (simp add: between_lines_def reader_new_def)
  obtain b cr where
    "scan (concat (map (\<lambda>s. s @ nl) ?lines)) (buffered_line reader_new) (begin_CR reader_new) = (b, cr, ?lines)"
    using scan_lines [OF assms(1) start plain] by blast
  then have "scan (concat chunks) (buffered_line reader_new) (begin_CR reader_new) = (b, cr, ?lines)"
    by (simp only: assms(3) print_events_lines)
  then have "put (concat chunks) reader_new = with_scanner b cr [] (fold step_line ?lines reader_new)"
    by (intro put_scan) (simp add: reader_new_def)
  then show ?thesis
    using fold_events [of reader_new es] assms(2)
    by (simp add: put_chunks reader_new_def del: event_lines.simps)
qed

theorem events_arrive_witness:
  "received (fold put [''event: a'' @ [CR], LF # ''data: x'' @ [CR, LF] @ ''data: y'' @ [CR, LF, CR, LF]] reader_new) =
     [\<lparr>event_type = ''a'', event_data = ''x'' @ LF # ''y'', event_id = None\<rparr>]"
  using events_arrive [of "[CR, LF]" "[(''a'', [''x'', ''y''], None)]"
    "[''event: a'' @ [CR], LF # ''data: x'' @ [CR, LF] @ ''data: y'' @ [CR, LF, CR, LF]]"]
  by (simp add: plain_def print_event_def)

text \<open>
  After a line that ends in a carriage return alone, the next line feed is dropped
  even if text comes before it: the line it ends is joined with the following one. The flag
  that remembers the carriage return is only cleared by a line feed.
\<close>

theorem lone_CR_drops_LF:
  assumes "plain a" and "plain b" and "plain c"
  shows "complete_lines (parse_stream (a @ CR # b @ LF # c @ [LF]) reader_new) = [a, b @ c]"
proof -
  have scan: "scan s x cr = (if s = [] then x else Some ((case x of Some l \<Rightarrow> l | None \<Rightarrow> []) @ s), cr, [])"
    if "plain s" for s x cr using that by (intro scan_text) (auto simp: plain_def)
  have "\<exists>x cr. scan (a @ CR # b @ LF # c @ [LF]) None False = (x, cr, [a, b @ c])"
    using assms by (auto simp: scan_append scan scan_char_def)
  then obtain x cr where "scan (a @ CR # b @ LF # c @ [LF]) (buffered_line reader_new) (begin_CR reader_new) =
      (x, cr, [a, b @ c])"
    by (auto simp: reader_new_def)
  from fold_step_scan [OF this] show ?thesis by (simp add: parse_stream_fold reader_new_def)
qed

theorem lone_CR_drops_LF_witness:
  "complete_lines (parse_stream (''data: a'' @ CR # ''data: b'' @ LF # ''data: c'' @ [LF]) reader_new) =
     [''data: a'', ''data: bdata: c'']"
  using lone_CR_drops_LF [of "''data: a''" "''data: b''" "''data: c''"] by (simp add: plain_def)

end
