(* ===== verification/Spec2Isabelle.thy ===== *)
theory Spec2Isabelle
  imports FDv2_System Server_Client Client_SDK Encoding Backoff Lazy_Load SSE_Parser
begin

text \<open>
  A model of the LaunchDarkly SDKs for C++, with what makes their parts correct. Paths below are
  under \<^verbatim>\<open>src/libs\<close>.

  \<^bold>\<open>The program.\<close> A data source brings flags and segments to a store; evaluation reads the
  store and gives a variation of a flag for a context; events report evaluations. The
  server-side SDK evaluates rules itself and gets its data by one of three data systems:
  background synchronization (streaming or polling), lazy loading from a persistent store, and
  FDv2, which rotates among sources. The client-side SDK gets evaluated flags for one context,
  caches them and tells listeners. Both share values, contexts, JSON, events and the status of
  data sources.

  \<^bold>\<open>Foundations.\<close>
  \<^item> \<^verbatim>\<open>Prelude\<close>: machine integers as words, results of fallible code, maps, lemma collections.
  \<^item> \<^verbatim>\<open>Doubles\<close>: IEEE doubles with rounding, the locale of rounding.
  \<^item> \<^verbatim>\<open>Values\<close> (\<^verbatim>\<open>common/src/value.cpp\<close>), \<^verbatim>\<open>Attribute_Reference\<close> (\<^verbatim>\<open>attribute_reference.cpp\<close>),
    \<^verbatim>\<open>Contexts\<close> (\<^verbatim>\<open>context.cpp\<close>, \<^verbatim>\<open>attributes.cpp\<close> and their builders): parsing and printing are
    inverse, canonical keys are injective, what makes a context valid.
  \<^item> \<^verbatim>\<open>Data_Model\<close> (\<^verbatim>\<open>internal/include/launchdarkly/data_model\<close>, \<^verbatim>\<open>common/src/data\<close>).
  \<^item> \<^verbatim>\<open>Json_Mapping\<close>, \<^verbatim>\<open>Flag_Json\<close> (\<^verbatim>\<open>internal/src/serialization\<close>): JSON of values, flags and
    segments in both directions; round trips, and what is lost in one. The parser of Boost picks the
    kind of an integer by its size, not by the kind it was written with, so the round trips hold for
    every JSON that is the same up to these kinds (\<open>same_json\<close>).
  \<^item> \<^verbatim>\<open>Encoding\<close> (\<^verbatim>\<open>internal/src/encoding/base_64.cpp\<close>): the output is in the URL-safe alphabet
    and the decoder of RFC 4648, which is stated without the table, gives the input back.

  \<^bold>\<open>Evaluation\<close> (\<^verbatim>\<open>server-sdk/src/evaluation\<close>).
  \<^item> \<^verbatim>\<open>SemVer\<close>, \<^verbatim>\<open>Operators\<close>, \<^verbatim>\<open>Bucketing\<close>, \<^verbatim>\<open>Rules\<close>, \<^verbatim>\<open>Evaluator\<close>: versions, clause operators,
    rollouts, clauses and segments, prerequisites. Evaluation returns for every data, cyclic data
    included, gives an existing variation, and goes past the prerequisites of a flag only when each
    was found in the store, is on and evaluated to the required variation.
  \<^item> \<^verbatim>\<open>Big_Segments\<close> (\<^verbatim>\<open>data_components/big_segments\<close>): bounds of the cache, status.

  \<^bold>\<open>Stores\<close> (\<^verbatim>\<open>server-sdk/src/data_components\<close>).
  \<^item> \<^verbatim>\<open>Memory_Store\<close>, \<^verbatim>\<open>Dependency_Tracker\<close>, \<^verbatim>\<open>Change_Notifier\<close>: what is stored and which flags
    are announced as changed. \<^verbatim>\<open>Memory_Store\<close> provides the finite store that evaluation needs.
  \<^item> \<^verbatim>\<open>Expiration_Tracker\<close>, \<^verbatim>\<open>Lazy_Load\<close> (\<^verbatim>\<open>data_systems/lazy_load\<close>,
    \<^verbatim>\<open>serialization_adapters\<close>): how often the persistent store is read, and what is served.

  \<^bold>\<open>Data sources.\<close>
  \<^item> \<^verbatim>\<open>SSE_Parser\<close>, \<^verbatim>\<open>Backoff\<close> (\<^verbatim>\<open>server-sent-events/src\<close>): events do not depend on how a
    response is cut into chunks; how the delay between connections grows and restarts, and its
    bounds with jitter.
  \<^item> \<^verbatim>\<open>Data_Source_Status\<close>: what listeners of the status hear.
  \<^item> \<^verbatim>\<open>Versioned_Store\<close>: the locale of versioned updates, with the interpretations in
    \<^verbatim>\<open>Background_Sync\<close> and \<^verbatim>\<open>Client_Flags\<close>: the newest version of a flag or segment
    wins in any order.
  \<^item> \<^verbatim>\<open>Background_Sync\<close> (\<^verbatim>\<open>data_systems/background_sync/sources\<close>): stream messages, polling.
  \<^item> \<^verbatim>\<open>Source_Manager\<close>, \<^verbatim>\<open>FDv2_Protocol\<close>, \<^verbatim>\<open>Streaming_Synchronizer\<close>, \<^verbatim>\<open>FDv2_System\<close>
    (\<^verbatim>\<open>data_systems/fdv2\<close>, \<^verbatim>\<open>internal/src/fdv2_protocol_handler.cpp\<close>): transfers are all or nothing,
    results keep their order, the store is the result of the change sets in order, and when
    the orchestration goes on.

  \<^bold>\<open>Events\<close> (\<^verbatim>\<open>internal/src/events\<close>).
  \<^item> \<^verbatim>\<open>Context_Filter\<close>: private attributes are not sent.
  \<^item> \<^verbatim>\<open>Event_Buffers\<close>, \<^verbatim>\<open>Event_Processor\<close>: bounds, counts, what is flushed and how often it is sent.

  \<^bold>\<open>Clients.\<close>
  \<^item> \<^verbatim>\<open>Server_Client\<close> (\<^verbatim>\<open>server-sdk/src/client_impl.cpp\<close>, \<^verbatim>\<open>hooks\<close>, \<^verbatim>\<open>events\<close>,
    \<^verbatim>\<open>all_flags_state\<close>): what a variation returns and reports, hooks, the state of all flags.
  \<^item> \<^verbatim>\<open>Client_Flags\<close>, \<^verbatim>\<open>Client_Persistence\<close>, \<^verbatim>\<open>Client_SDK\<close> (\<^verbatim>\<open>client-sdk/src\<close>): JSON of evaluated
    flags, listeners, the cache, variations, polling and the promise of starting.

  This theory has the properties that span components: a full FDv2 transfer installs what was
  sent, and a patch on the stream is what the next variation serves.

  \<^bold>\<open>Conventions.\<close> A \<^verbatim>\<open>std::string\<close> is a list of characters, an integer of 64 bits a word of that
  length, \<^verbatim>\<open>std::map\<close> a sorted association list and \<^verbatim>\<open>std::unordered_map\<close> an association list.
  \<^verbatim>\<open>tl::expected\<close> is a sum with the error on the left, an exception is \<open>Threw\<close>, and undefined
  behaviour is \<open>None\<close> or a parameter \<open>ub\<close>. Objects are records, methods functions on them; what
  a callback or a queue gets is a list in the state. A handler under a mutex or on one
  executor is one step, and orders of steps are lists or inductive relations.

  \<^bold>\<open>Bounds.\<close> Recursion through flags and segments has fuel. Evaluation over a store with \<open>n\<close> items
  returns with more than \<open>n\<close> (\<open>store_fuel\<close>), because each step marks an item; the dependency
  calculation likewise. The client's recursion into prerequisites marks nothing; it returns exactly
  when no cycle is reached, and then the number of flags is enough. Loops over data are
  structural or have a measure.

  \<^bold>\<open>Parameters.\<close> Code outside the sources is an argument: hash functions (OpenSSL), regular
  expressions, time stamps, JSON text and URLs (Boost), the persistent stores, hooks and
  handlers of the application, sorting where the order of equal elements is open. What a theorem
  needs of them is a named hypothesis (\<open>exact_numbers\<close>, \<open>unsigned_exact\<close>, \<open>sound_code\<close>,
  \<open>good_log2\<close>) with an example that has it; \<open>exact_numbers\<close> and \<open>unsigned_exact\<close> say that Boost
  converts an integer to a type that can represent it without changing it, and to no other. The
  clock is an argument.

  \<^bold>\<open>Not modelled.\<close> Connections and HTTP (Boost.Beast, libcurl), the asynchronous primitives below
  the handlers, and log output: their effects are outside the program. Configuration builders
  collect settings; C bindings forward calls; the Redis, DynamoDB and OpenTelemetry
  integrations call their libraries. The polling timers of FDv2, the adapter of FDv1 sources
  and the client-side streaming source are left out; they repeat what the modelled sources do.
  The JSON of contexts and of event batches is only what the context filter writes.
\<close>

section \<open>From the wire to the store\<close>

text \<open>
  A put-object event that sends an item under a key: its version is a number of whatever kind that
  fits, and its object is JSON that reads as the flag or the segment. It may have other members.
\<close>

definition puts_item :: "numbers \<Rightarrow> string \<times> ItemObject \<Rightarrow> string \<times> json \<Rightarrow> bool" where
  "puts_item N sent e \<longleftrightarrow> fst e = ''put-object'' \<and>
     (\<exists>obj version n data. snd e = JObject obj \<and>
        map_of obj ''version'' = Some version \<and> parse_int64 N version = Inr (Some n) \<and>
        map_of obj ''key'' = Some (JString (fst sent)) \<and> map_of obj ''object'' = Some data \<and>
        (case snd sent of
           FlagObject d \<Rightarrow> map_of obj ''kind'' = Some (JString ''flag'') \<and>
             (\<exists>flag. parse_Flag N data = Inr (Some flag) \<and> d = FlagDescriptor_of flag)
         | SegmentObject d \<Rightarrow> map_of obj ''kind'' = Some (JString ''segment'') \<and>
             (\<exists>segment. parse_Segment N data = Inr (Some segment) \<and> d = SegmentDescriptor_of segment)))"

lemma puts_item_change:
  assumes "puts_item N sent e"
  obtains c where "change_of N e = Some c" and "is_change_event e"
    and "\<forall>changes. translate_change N c changes = Some (changes @ [\<lparr>change_key = fst sent, change_object = snd sent\<rparr>])"
proof -
  obtain obj version n data where obj: "fst e = ''put-object''" "snd e = JObject obj"
    "map_of obj ''version'' = Some version" "parse_int64 N version = Inr (Some n)"
    "map_of obj ''key'' = Some (JString (fst sent))" "map_of obj ''object'' = Some data"
    and item: "case snd sent of
         FlagObject d \<Rightarrow> map_of obj ''kind'' = Some (JString ''flag'') \<and>
           (\<exists>flag. parse_Flag N data = Inr (Some flag) \<and> d = FlagDescriptor_of flag)
       | SegmentObject d \<Rightarrow> map_of obj ''kind'' = Some (JString ''segment'') \<and>
           (\<exists>segment. parse_Segment N data = Inr (Some segment) \<and> d = SegmentDescriptor_of segment)"
    using assms unfolding puts_item_def by blast
  define kind where "kind = (case snd sent of FlagObject _ \<Rightarrow> ''flag'' | SegmentObject _ \<Rightarrow> ''segment'')"
  let ?c = "\<lparr>fc_type = kPut, fc_kind = kind, fc_key = fst sent, fc_version = n, fc_object = data\<rparr>"
  have "map_of obj ''kind'' = Some (JString kind)" using item by (simp add: kind_def split: ItemObject.splits)
  then have "change_of N e = Some ?c" using obj by (simp add: change_of_def parse_PutObject_def PARSE_REQUIRED_FIELD_def)
  moreover have "is_change_event e" using obj(1) by (simp add: is_change_event_def)
  moreover have "\<forall>changes. translate_change N ?c changes = Some (changes @ [\<lparr>change_key = fst sent, change_object = snd sent\<rparr>])"
    using item by (auto simp: translate_change_def TranslatePut_def kind_def split: ItemObject.splits)
  ultimately show thesis by (rule that)
qed

lemma sent_items_translate:
  assumes "list_all2 (puts_item N) sent es"
  shows "(\<forall>e\<in>set es. change_of N e \<noteq> None) \<and> (\<forall>e\<in>set es. is_change_event e) \<and>
    (\<forall>changes. translate_changes N (map (\<lambda>e. the (change_of N e)) es) changes =
      Some (changes @ map (\<lambda>(key, object). \<lparr>change_key = key, change_object = object\<rparr>) sent))"
  using assms
proof (induction rule: list_all2_induct)
  case (Cons item sent e es)
  obtain c where "change_of N e = Some c" "is_change_event e"
    "\<forall>changes. translate_change N c changes = Some (changes @ [\<lparr>change_key = fst item, change_object = snd item\<rparr>])"
    by (rule puts_item_change [OF Cons.hyps(1)])
  then show ?case using Cons.IH by (simp add: case_prod_unfold)
qed simp

text \<open>
  C5. A full transfer installs exactly the items that were sent: whatever the protocol
  handler and the store held before, a server intent for a full transfer, put-object events
  whose objects read as flags or segments, and the end of the transfer make the handler emit
  a change set that translates and has the selector of the transfer, and applying it to the store
  leaves precisely those flags and those segments, the last one counting where a key was sent
  twice for a kind, and an initialized store. It does not matter of which kinds the parser of Boost
  makes the integers of an event, as long as they are read.
\<close>

theorem full_transfer_installs_items:
  assumes "opens N intent kFullTransfer" and "parse_PayloadTransferred N transferred = Inr (Some t)"
    and "list_all2 (puts_item N) sent es"
  shows "\<exists>cs changes.
    last (fst (run_events N ((''server-intent'', intent) # es @ [(''payload-transferred'', transferred)]) h)) = HrChangeSet cs \<and>
    TranslateChangeSet N cs = Some changes \<and>
    cs_selector changes = Some \<lparr>sel_version = transferred_version t, sel_state = transferred_state t\<rparr> \<and>
    MemoryStore_GetFlag (MemoryStore_Apply changes m) = map_of (rev [(key, d). (key, FlagObject d) \<leftarrow> sent]) \<and>
    MemoryStore_GetSegment (MemoryStore_Apply changes m) = map_of (rev [(key, d). (key, SegmentObject d) \<leftarrow> sent]) \<and>
    MemoryStore_Initialized (MemoryStore_Apply changes m)"
proof -
  let ?changes = "map (\<lambda>(key, object). \<lparr>change_key = key, change_object = object\<rparr>) sent"
  have events: "\<forall>e\<in>set es. change_of N e \<noteq> None" "\<forall>e\<in>set es. is_change_event e"
    and translated: "translate_changes N (map (\<lambda>e. the (change_of N e)) es) [] = Some ?changes"
    using sent_items_translate [OF assms(3)] by simp_all
  have writes: "flag_writes ?changes = [(key, d). (key, FlagObject d) \<leftarrow> sent]"
    "segment_writes ?changes = [(key, d). (key, SegmentObject d) \<leftarrow> sent]"
    by (induction sent) (auto simp: flag_writes_def segment_writes_def split: ItemObject.split)
  show ?thesis
    using complete_transfer [OF assms(1) events assms(2), of h] translated writes
    by (simp add: TranslateChangeSet_def MemoryStore_Apply_def apply_changes_fields
        map_of_updates MemoryStore_Initialized_def del: run_events.simps)
qed

definition sample_put :: "string \<Rightarrow> string \<Rightarrow> json \<Rightarrow> string \<times> json" where
  "sample_put kind key object = (''put-object'',
     JObject [(''version'', JInt64 7), (''kind'', JString kind), (''key'', JString key), (''object'', object)])"

theorem full_transfer_installs_items_witness:
  "\<exists>cs changes.
    last (fst (run_events sample_numbers ((''server-intent'', sample_intent) #
      [sample_put ''flag'' ''f'' (parsed_form (Flag_json sample_json_flag)),
       sample_put ''segment'' ''s'' (parsed_form (Segment_json sample_json_segment))] @
      [(''payload-transferred'', sample_transferred)]) Handler_new)) = HrChangeSet cs \<and>
    TranslateChangeSet sample_numbers cs = Some changes \<and>
    MemoryStore_GetFlag (MemoryStore_Apply changes MemoryStore_empty) ''f'' = Some (FlagDescriptor_of sample_json_flag) \<and>
    MemoryStore_GetSegment (MemoryStore_Apply changes MemoryStore_empty) ''s'' = Some (SegmentDescriptor_of sample_json_segment)"
proof -
  have seven: "parse_int64 sample_numbers (JInt64 7) = Inr (Some 7)" by (simp add: sample_numbers_exact)
  have sent: "list_all2 (puts_item sample_numbers)
      [(''f'', FlagObject (FlagDescriptor_of sample_json_flag)), (''s'', SegmentObject (SegmentDescriptor_of sample_json_segment))]
      [sample_put ''flag'' ''f'' (parsed_form (Flag_json sample_json_flag)),
       sample_put ''segment'' ''s'' (parsed_form (Segment_json sample_json_segment))]"
    by (auto simp: puts_item_def sample_put_def seven sample_parsed)
  from full_transfer_installs_items [OF sample_intent_opens sample_transferred_read sent, of Handler_new MemoryStore_empty]
  show ?thesis by (elim exE conjE) (intro exI conjI, assumption, assumption, simp_all del: MemoryStore_Get)
qed

section \<open>From the stream to the application\<close>

lemma patch_carries_flag:
  assumes "json_parse W text = Some (JObject obj)" and "map_of obj ''path'' = Some (JString (FlagsPath @ key))"
    and "CHR ''/'' \<notin> set key" and "map_of obj ''data'' = Some data"
    and "parse_Flag (wire_numbers W) data = Inr (Some flag)"
  shows "carried_flag W (''patch'', text) = Some (key, FlagDescriptor_of flag)"
  using assms by (simp add: carried_flag_def Patch_item_def PARSE_FIELD_DEFAULT_def PARSE_CONDITIONAL_FIELD_def)

lemma message_keeps_initialized:
  assumes "ms_initialized (cn_store (sh_handler (event_handler s)))"
  shows "ms_initialized (cn_store (sh_handler (event_handler (Streaming_receive W now msg s))))"
proof -
  have upsert: "ms_initialized (cn_store (sh_handler (sh_Upsert key object h)))"
    if "ms_initialized (cn_store (sh_handler h))" for key object h
    using that
    by (auto simp: sh_Upsert_def ChangeNotifier_Upsert_flag_def ChangeNotifier_Upsert_segment_def UpsertCommon_def
        Upsert_flag_def Upsert_segment_def Let_def split: ItemObject.split option.split)
  show ?thesis
    unfolding receive_handler
    by (rule HandleMessage_cases [where W = W and now = now and type = "fst msg" and data = "snd msg" and h = "event_handler s"])
      (use assms upsert Init_initialized in \<open>auto simp: sh_SetError_def\<close>)
qed

text \<open>
  C3. An update reaches the application. Let the stream bring a patch for a flag key without a
  slash whose data read as a flag, with a version newer than the one stored under that key, if
  there is one; let the store be initialized and the context valid. Then the next variation of
  that key is the evaluation of the flag that was sent, over the updated store: parsing, the
  versioned write through the change notifier and evaluation fit together. The default is returned
  only if the evaluation has no variation. It does not matter of which kinds the parser of Boost
  makes the integers of the patch, as long as the flag is read.
\<close>

theorem patched_flag_is_served:
  assumes "json_parse W text = Some (JObject obj)" and "map_of obj ''path'' = Some (JString (FlagsPath @ key))"
    and "CHR ''/'' \<notin> set key" and "map_of obj ''data'' = Some data"
    and "parse_Flag (wire_numbers W) data = Inr (Some flag)"
    and "ms_initialized (cn_store (sh_handler (event_handler s)))"
    and "\<forall>d. MemoryStore_GetFlag (cn_store (sh_handler (event_handler s))) key = Some d \<longrightarrow>
      descr_version d < flag_version flag"
    and "ctx_valid ctx"
    and "mem = cn_store (sh_handler (event_handler (Streaming_receive W now (''patch'', text) s)))"
  shows "\<exists>d st detail sent calls.
    Evaluate (store_fuel mem) e (store_view mem) (sc_big_segments c) flag ctx = Some (d, st) \<and>
    VariationInternal e (c\<lparr>sc_store := mem\<rparr>) policy date ctx key dflt method = Some (detail, sent, calls) \<and>
    detail = EvaluationDetail3 (if variation_index d = None then dflt else detail_value d) (variation_index d) (detail_reason d)"
proof -
  let ?c = "c\<lparr>sc_store := mem\<rparr>"
  have "MemoryStore_GetFlag mem key = Some (FlagDescriptor_of flag)"
    using message_flag [of "(''patch'', text)" W now s key] patch_carries_flag [OF assms(1-5)] assms(7,9)
    by (auto simp: stored_flag_of_def newer_def FlagDescriptor_of_def not_le [symmetric] split: option.split)
  then have found: "Option.bind (MemoryStore_GetFlag (sc_store ?c) key) descr_item = Some flag"
    by (simp add: FlagDescriptor_of_def)
  have ready: "MemoryStore_Initialized (sc_store ?c)"
    using message_keeps_initialized [OF assms(6), of W now "(''patch'', text)"] assms(9)
    by (simp add: MemoryStore_Initialized_def)
  obtain detail sent where v: "VariationInternal e ?c policy date ctx key dflt method = Some (detail, sent,
      map BeforeCall [0..<length (sc_hooks ?c)] @ map AfterCall (rev [0..<length (sc_hooks ?c)]))"
    and "own_detail e ?c ctx key dflt detail"
    by (rule VariationInternal_spec)
  then show ?thesis using found ready assms(8) unfolding own_detail_def by auto
qed

definition ready_source :: StreamingSource where
  "ready_source = sync_source\<lparr>event_handler :=
     (event_handler sync_source)\<lparr>sh_handler := ChangeNotifier_new (MemoryStore_empty\<lparr>ms_initialized := True\<rparr>)\<rparr>\<rparr>"

theorem patched_flag_is_served_witness:
  "\<exists>d st detail sent calls mem.
    mem = cn_store (sh_handler (event_handler (Streaming_receive sync_wire 3 (''patch'', ''patch'') ready_source))) \<and>
    Evaluate (store_fuel mem) sample_env (store_view mem) (sc_big_segments sample_client) sample_json_flag sample_context = Some (d, st) \<and>
    VariationInternal sample_env (sample_client\<lparr>sc_store := mem\<rparr>) rpDefault 3 sample_context ''f'' VNull ''JsonVariation'' =
      Some (detail, sent, calls) \<and>
    detail_reason detail = detail_reason d"
proof -
  let ?obj = "[(''path'', JString (FlagsPath @ ''f'')), (''data'', parsed_form (Flag_json sample_json_flag))]"
  have parsed: "json_parse sync_wire ''patch'' = Some (JObject ?obj)" "map_of ?obj ''path'' = Some (JString (FlagsPath @ ''f''))"
    "CHR ''/'' \<notin> set ''f''" "map_of ?obj ''data'' = Some (parsed_form (Flag_json sample_json_flag))"
    "parse_Flag (wire_numbers sync_wire) (parsed_form (Flag_json sample_json_flag)) = Inr (Some sample_json_flag)"
    by (simp_all add: sync_wire_def sample_parsed)
  have source: "ms_initialized (cn_store (sh_handler (event_handler ready_source)))"
    "\<forall>d. MemoryStore_GetFlag (cn_store (sh_handler (event_handler ready_source))) ''f'' = Some d \<longrightarrow>
      descr_version d < flag_version sample_json_flag"
    by (simp_all add: ready_source_def sync_source_def ChangeNotifier_new_def MemoryStore_empty_def)
  have valid: "ctx_valid sample_context" by code_simp
  from patched_flag_is_served [OF parsed source valid refl, of 3 sample_env sample_client rpDefault 3 VNull "''JsonVariation''"]
  show ?thesis by (auto simp: EvaluationDetail3_def)
qed

end
